(* ===== verification/Prelude.thy ===== *)
theory Prelude
  imports "HOL-Library.Word"
begin

text \<open>
  What every component of the model shares: the fixed-width integer types, the ways the
  program can die (an error value of a sum type), raw memory with the little-endian loads
  and stores that C performs on it, NUL-terminated strings in such memory, and the
  collections of simplification rules that carry the component proofs.
\<close>

unbundle bit_operations_syntax

section \<open>Machine integers and crashes\<close>

type_synonym u8 = "8 word"
type_synonym u16 = "16 word"
type_synonym u32 = "32 word"
type_synonym u64 = "64 word"

text \<open>
  A process dies by dereferencing a null pointer, by a failed \<open>p_assert\<close> (which stores
  through a null pointer), by a failed \<open>assert\<close> (the build defines no \<open>NDEBUG\<close>), by an
  access outside an object, by an uncaught exception or by a division by zero; \<open>Hang\<close> is a loop
  that never ends.
\<close>

datatype crash = NullDeref | PAssert | AssertFail | OutOfBounds | Uncaught | DivByZero | Hang

text \<open>Sequencing of computations that can crash.\<close>

fun andThen :: "crash + 'a \<Rightarrow> ('a \<Rightarrow> crash + 'b) \<Rightarrow> crash + 'b" where
  "andThen (Inl e) f = Inl e"
| "andThen (Inr x) f = f x"

lemma andThen_Inr_iff [simp]: "andThen m f = Inr y \<longleftrightarrow> (\<exists>x. m = Inr x \<and> f x = Inr y)"
  by (cases m) auto

lemma andThen_Inl_iff:
  "andThen m f = Inl e \<longleftrightarrow> m = Inl e \<or> (\<exists>x. m = Inr x \<and> f x = Inl e)"
  by (cases m) auto

lemma andThen_cong:
  "m = m' \<Longrightarrow> (\<And>x. m' = Inr x \<Longrightarrow> f x = g x) \<Longrightarrow> andThen m f = andThen m' g"
  by (cases m') auto

definition INT_MAX :: int where "INT_MAX = 2147483647"
definition INT_MIN :: int where "INT_MIN = - 2147483648"

named_theorems layout_simps \<open>offsets and sizes of the wire structures\<close>
named_theorems handler_simps \<open>unfolding of the request handlers\<close>
named_theorems inv_intros \<open>operations that keep a component's invariant\<close>

section \<open>Little-endian encoding\<close>

text \<open>\<open>le_bytes n w\<close> is the memory image of the low \<open>n\<close> bytes of \<open>w\<close> on x86-64.\<close>

primrec le_bytes :: "nat \<Rightarrow> 'a::len word \<Rightarrow> u8 list" where
  "le_bytes 0 w = []"
| "le_bytes (Suc n) w = ucast w # le_bytes n (drop_bit 8 w)"

primrec le_word :: "u8 list \<Rightarrow> 'a::len word" where
  "le_word [] = 0"
| "le_word (b # bs) = ucast b OR push_bit 8 (le_word bs)"

lemma length_le_bytes [simp]: "length (le_bytes n w) = n"
  by (induction n arbitrary: w) simp_all

lemma le_word_le_bytes: "le_word (le_bytes n w) = take_bit (8 * n) w"
proof (induction n arbitrary: w)
  case 0
  then show ?case by simp
next
  case (Suc n)
  show ?case
    by (rule bit_word_eqI) (auto simp: Suc bit_simps)
qed

lemma le_word64 [simp]: "le_word (le_bytes 8 (w :: u64)) = w"
  by (simp add: le_word_le_bytes take_bit_word_eq_self)

lemma le_word32 [simp]: "le_word (le_bytes 4 (w :: u32)) = w"
  by (simp add: le_word_le_bytes take_bit_word_eq_self)

lemma le_bytes8_inject [simp]: "le_bytes 8 (v :: u64) = le_bytes 8 w \<longleftrightarrow> v = w"
  by (rule inj_on_eq_iff [where A = UNIV]) (auto intro: inj_on_inverseI [where g = le_word])

lemma le_bytes4_inject [simp]: "le_bytes 4 (v :: u32) = le_bytes 4 w \<longleftrightarrow> v = w"
  by (rule inj_on_eq_iff [where A = UNIV]) (auto intro: inj_on_inverseI [where g = le_word])

lemma le_bytes_numeral [simp]:
  "le_bytes (numeral k) w = ucast w # le_bytes (pred_numeral k) (drop_bit 8 w)"
  by (simp add: numeral_eq_Suc)

lemma le_bytes4_eval:
  "le_bytes 4 (w :: 'a::len word) =
     [ucast w, ucast (drop_bit 8 w), ucast (drop_bit 16 w), ucast (drop_bit 24 w)]"
  by (simp add: drop_bit_drop_bit)

lemma le_bytes8_eval:
  "le_bytes 8 (w :: 'a::len word) =
     [ucast w, ucast (drop_bit 8 w), ucast (drop_bit 16 w), ucast (drop_bit 24 w),
      ucast (drop_bit 32 w), ucast (drop_bit 40 w), ucast (drop_bit 48 w), ucast (drop_bit 56 w)]"
  by (simp add: drop_bit_drop_bit)

declare le_bytes_numeral [simp del]

text \<open>Two digits determine each other's number.\<close>

lemma mixed_radix:
  assumes "t < b" "t' < b" "b * s + t = b * s' + (t' :: nat)"
  shows "s = s' \<and> t = t'"
proof -
  have "(b * s + t) div b = s" "(b * s' + t') div b = s'"
    using assms(1,2) by simp_all
  then have "s = s'" by (simp only: assms(3))
  then show ?thesis using assms(3) by simp
qed

text \<open>Small non-negative values survive the conversions of C.\<close>

lemma sint_of_nat32: "n < 2 ^ 31 \<Longrightarrow> sint (of_nat n :: u32) = int n"
  by (simp add: signed_of_nat signed_take_bit_int_eq_self)

lemma scast_of_nat32: "n < 2 ^ 31 \<Longrightarrow> (scast (of_nat n :: u32) :: u64) = of_nat n"
  by (simp add: signed_of_nat signed_take_bit_int_eq_self)

lemma or_byte:
  assumes "t < 256"
  shows "(of_nat (256 * s) :: u64) OR of_nat t = of_nat (256 * s + t)"
proof -
  have "(256 * s) OR t = 256 * s + t"
  proof -
    have "(256 * s) AND t = 0"
    proof (rule bit_eqI)
      fix n
      have "t = take_bit 8 t" using assms by (simp add: take_bit_nat_eq_self)
      then have "bit t n \<Longrightarrow> n < 8" by (metis bit_take_bit_iff)
      moreover have "256 * s = push_bit 8 s" by (simp add: push_bit_eq_mult)
      ultimately show "bit ((256 * s) AND t) n = bit (0 :: nat) n"
        by (auto simp: bit_simps simp del: push_bit_of_nat)
    qed
    then show ?thesis by (simp add: disjunctive_add_eq_or)
  qed
  moreover have "(of_nat (256 * s) :: u64) OR of_nat t = of_nat ((256 * s) OR t)"
    by (simp only: of_nat_or_eq)
  ultimately show ?thesis by simp
qed

text \<open>Erasing a key of an association list.\<close>

lemma map_of_filter_key: "map_of (filter (\<lambda>e. fst e \<noteq> k) xs) = (map_of xs)(k := None)"
  by (induction xs) (auto simp: fun_eq_iff)

section \<open>Raw memory\<close>

text \<open>
  A buffer is a total function from byte offsets; what lies beyond an object is just more
  memory, and the bounds the code must respect are stated where it writes.
\<close>

type_synonym mem = "nat \<Rightarrow> u8"

definition mem_write :: "mem \<Rightarrow> nat \<Rightarrow> u8 list \<Rightarrow> mem" where
  "mem_write m off bs = (\<lambda>a. if off \<le> a \<and> a < off + length bs then bs ! (a - off) else m a)"

definition mem_read :: "mem \<Rightarrow> nat \<Rightarrow> nat \<Rightarrow> u8 list" where
  "mem_read m off n = map m [off..<off + n]"

lemma length_mem_read [simp]: "length (mem_read m off n) = n"
  by (simp add: mem_read_def)

lemma mem_read_write_same [simp]:
  "n = length bs \<Longrightarrow> mem_read (mem_write m off bs) off n = bs"
  by (rule nth_equalityI) (simp_all add: mem_read_def mem_write_def)

lemma mem_read_write_other [simp]:
  "off + n \<le> off' \<or> off' + length bs \<le> off \<Longrightarrow>
   mem_read (mem_write m off' bs) off n = mem_read m off n"
  by (auto simp: mem_read_def mem_write_def)

lemma mem_read_append: "mem_read m off (n + k) = mem_read m off n @ mem_read m (off + n) k"
  using upt_add_eq_append [of off "off + n" k] by (simp add: mem_read_def ac_simps)

lemma mem_read_write_prefix:
  "length bs \<le> n \<Longrightarrow>
   mem_read (mem_write m off bs) off n = bs @ mem_read m (off + length bs) (n - length bs)"
  using mem_read_append [of "mem_write m off bs" off "length bs" "n - length bs"] by simp

lemma mem_write_outside: "a < off \<or> off + length bs \<le> a \<Longrightarrow> mem_write m off bs a = m a"
  by (auto simp: mem_write_def)

lemma mem_write_byte [simp]: "mem_write m off [b] off = b"
  by (simp add: mem_write_def)

lemma mem_read_cong:
  "(\<And>a. off \<le> a \<Longrightarrow> a < off + n \<Longrightarrow> m' a = m a) \<Longrightarrow> mem_read m' off n = mem_read m off n"
  by (simp add: mem_read_def)

text \<open>Fields of the widths the structures use.\<close>

definition get32 :: "mem \<Rightarrow> nat \<Rightarrow> u32" where
  "get32 m off = le_word (mem_read m off 4)"

definition get64 :: "mem \<Rightarrow> nat \<Rightarrow> u64" where
  "get64 m off = le_word (mem_read m off 8)"

definition put32 :: "mem \<Rightarrow> nat \<Rightarrow> u32 \<Rightarrow> mem" where
  "put32 m off w = mem_write m off (le_bytes 4 w)"

definition put64 :: "mem \<Rightarrow> nat \<Rightarrow> u64 \<Rightarrow> mem" where
  "put64 m off w = mem_write m off (le_bytes 8 w)"

lemma get32_put32 [simp]: "get32 (put32 m off w) off = w"
  by (simp add: get32_def put32_def)

lemma get64_put64 [simp]: "get64 (put64 m off w) off = w"
  by (simp add: get64_def put64_def)

lemma get32_frame [simp]:
  "off + 4 \<le> off' \<or> off' + 4 \<le> off \<Longrightarrow> get32 (put32 m off' w) off = get32 m off"
  "off + 4 \<le> off' \<or> off' + 8 \<le> off \<Longrightarrow> get32 (put64 m off' v) off = get32 m off"
  "off + 4 \<le> off' \<or> off' + length bs \<le> off \<Longrightarrow> get32 (mem_write m off' bs) off = get32 m off"
  by (simp_all add: get32_def put32_def put64_def)

lemma get64_frame [simp]:
  "off + 8 \<le> off' \<or> off' + 4 \<le> off \<Longrightarrow> get64 (put32 m off' w) off = get64 m off"
  "off + 8 \<le> off' \<or> off' + 8 \<le> off \<Longrightarrow> get64 (put64 m off' v) off = get64 m off"
  "off + 8 \<le> off' \<or> off' + length bs \<le> off \<Longrightarrow> get64 (mem_write m off' bs) off = get64 m off"
  by (simp_all add: get64_def put32_def put64_def)

text \<open>Memory that holds only zeros.\<close>

lemma mem_read_zero [simp]: "mem_read (\<lambda>_. 0) off n = replicate n 0"
  by (simp add: mem_read_def map_replicate_const)

lemma le_word_zeros [simp]: "le_word (replicate n 0) = 0"
  by (induction n) simp_all

lemma get_zero_mem [simp]: "get32 (\<lambda>_. 0) off = 0" "get64 (\<lambda>_. 0) off = 0"
  by (simp_all add: get32_def get64_def)

section \<open>C strings\<close>

text \<open>
  A file name is the list of its bytes without the terminator; \<open>cstring\<close> is what
  \<open>strcpy\<close> stores and what a slice of \<open>strlen(s) + 1\<close> bytes covers. Reading one back stops
  at the first NUL; no NUL within the object is an access outside it.
\<close>

definition cstring :: "u8 list \<Rightarrow> u8 list" where
  "cstring s = s @ [0]"

definition is_cstr :: "u8 list \<Rightarrow> bool" where
  "is_cstr s \<longleftrightarrow> 0 \<notin> set s"

fun cstr_of :: "u8 list \<Rightarrow> u8 list option" where
  "cstr_of [] = None"
| "cstr_of (b # bs) = (if b = 0 then Some [] else map_option ((#) b) (cstr_of bs))"

lemma cstr_of_cstring [simp]: "is_cstr s \<Longrightarrow> cstr_of (cstring s @ rest) = Some s"
  by (induction s) (auto simp: cstring_def is_cstr_def)

lemma cstr_of_SomeD:
  "cstr_of bs = Some s \<Longrightarrow> is_cstr s \<and> bs = cstring s @ drop (Suc (length s)) bs"
proof (induction bs arbitrary: s)
  case Nil
  then show ?case by simp
next
  case (Cons b bs)
  then show ?case
    by (cases "b = 0") (auto simp: cstring_def is_cstr_def)
qed

lemma cstr_of_None_iff: "cstr_of bs = None \<longleftrightarrow> 0 \<notin> set bs"
  by (induction bs) auto

lemma length_cstring [simp]: "length (cstring s) = Suc (length s)"
  by (simp add: cstring_def)

lemma cstring_inject [simp]: "cstring s = cstring t \<longleftrightarrow> s = t"
  by (simp add: cstring_def)

lemma cstr_of_mem:
  assumes "mem_read m off (Suc (length f)) = cstring f" "is_cstr f" "Suc (length f) \<le> n"
  shows "cstr_of (mem_read m off n) = Some f"
  using assms mem_read_append [of m off "Suc (length f)" "n - Suc (length f)"] by simp

text \<open>Bytes of a string literal, for concrete file names.\<close>

definition bytes_of :: "string \<Rightarrow> u8 list" where
  "bytes_of s = map (\<lambda>c. of_char c) s"

end
