(* ===== verification/FsTypes.thy ===== *)
theory FsTypes
  imports Prelude
begin

text \<open>
  The data every component shares: inodes, attributes and their constructors
  (\<open>include/common/fs.h\<close>), regions (\<open>include/common/region.h\<close>), and the keys and values of the
  operation log (\<open>include/server/region_and_log.h\<close>) with their memory images on x86-64.
\<close>

section \<open>Inodes and attributes\<close>

definition METAFS_MAX_FNAME_LEN :: nat where "METAFS_MAX_FNAME_LEN = 128"
definition METAFS_MAGIC :: u64 where "METAFS_MAGIC = 0x19990627"
definition METAFS_BLK_SIZE :: u64 where "METAFS_BLK_SIZE = 40960"
definition metafs_inode_size :: nat where "metafs_inode_size = 8"
definition metafs_stat_size :: nat where "metafs_stat_size = 48"

definition fs_root_inode :: u64 where "fs_root_inode = push_bit 63 1"
definition inode_prefix_msb :: u64 where "inode_prefix_msb = push_bit 63 1"
definition inode_prefix_ssb :: u64 where "inode_prefix_ssb = push_bit 62 1"

definition is_directory :: "u64 \<Rightarrow> bool" where
  "is_directory inode \<longleftrightarrow> inode AND inode_prefix_msb \<noteq> 0"

lemma is_directory_bit: "is_directory inode \<longleftrightarrow> bit inode 63"
  using and_exp_eq_0_iff_not_bit [of inode 63] by (simp add: is_directory_def inode_prefix_msb_def push_bit_eq_mult)

lemma is_directory_msb [simp]: "is_directory (inode OR inode_prefix_msb)"
  by (simp add: is_directory_bit bit_simps inode_prefix_msb_def)

record oid_t =
  oid_lo :: u64
  oid_hi :: u64

record metafs_stat_t =
  st_oid :: oid_t
  st_mode :: u32
  st_mtime :: u64
  st_ctime :: u64
  st_atime :: u64

text \<open>
  The constructors read \<open>tv.tv_sec\<close> of a \<open>timeval\<close> that is never filled in (the call of
  \<open>gettimeofday\<close> is commented out), so the times are whatever \<open>tv_sec\<close> held: the argument \<open>tv\<close>.
\<close>

definition stat_of_mode :: "u64 \<Rightarrow> u32 \<Rightarrow> metafs_stat_t" where
  "stat_of_mode tv mode =
     \<lparr>st_oid = \<lparr>oid_lo = 0, oid_hi = 0\<rparr>, st_mode = mode, st_mtime = tv, st_ctime = tv, st_atime = tv\<rparr>"

definition stat_of_oid :: "u64 \<Rightarrow> oid_t \<Rightarrow> u32 \<Rightarrow> metafs_stat_t" where
  "stat_of_oid tv oid mode =
     \<lparr>st_oid = oid, st_mode = mode, st_mtime = tv, st_ctime = tv, st_atime = tv\<rparr>"

text \<open>The 48 bytes of a \<open>metafs_stat_t\<close>; \<open>pad\<close> is the padding after \<open>mode\<close>.\<close>

definition stat_bytes :: "u32 \<Rightarrow> metafs_stat_t \<Rightarrow> u8 list" where
  "stat_bytes pad st =
     le_bytes 8 (oid_lo (st_oid st)) @ le_bytes 8 (oid_hi (st_oid st)) @
     le_bytes 4 (st_mode st) @ le_bytes 4 pad @
     le_bytes 8 (st_mtime st) @ le_bytes 8 (st_ctime st) @ le_bytes 8 (st_atime st)"

definition get_stat :: "mem \<Rightarrow> nat \<Rightarrow> metafs_stat_t" where
  "get_stat m off =
     \<lparr>st_oid = \<lparr>oid_lo = get64 m off, oid_hi = get64 m (off + 8)\<rparr>, st_mode = get32 m (off + 16),
      st_mtime = get64 m (off + 24), st_ctime = get64 m (off + 32), st_atime = get64 m (off + 40)\<rparr>"

definition put_stat :: "mem \<Rightarrow> nat \<Rightarrow> metafs_stat_t \<Rightarrow> mem" where
  "put_stat m off st =
     put64 (put64 (put64 (put32 (put64 (put64 m off (oid_lo (st_oid st)))
       (off + 8) (oid_hi (st_oid st))) (off + 16) (st_mode st))
       (off + 24) (st_mtime st)) (off + 32) (st_ctime st)) (off + 40) (st_atime st)"

lemma length_stat_bytes [simp]: "length (stat_bytes pad st) = 48"
  by (simp add: stat_bytes_def)

lemma get_put_stat [simp]: "get_stat (put_stat m off st) off = st"
  by (simp add: get_stat_def put_stat_def)

lemma put_stat_frame [simp]:
  "o' + 4 \<le> off \<Longrightarrow> get32 (put_stat m off st) o' = get32 m o'"
  "o' + 8 \<le> off \<Longrightarrow> get64 (put_stat m off st) o' = get64 m o'"
  by (simp_all add: put_stat_def)

section \<open>Regions\<close>

definition PINODE_HASH_RANGE :: u32 where "PINODE_HASH_RANGE = 1024"
definition region_split_threshold :: u32 where "region_split_threshold = 200000"

record RegionKey =
  hi :: u64
  low :: u64

text \<open>The two-argument constructor takes the low part first.\<close>

definition mk_RegionKey :: "u64 \<Rightarrow> u64 \<Rightarrow> RegionKey" where
  "mk_RegionKey l h = \<lparr>hi = h, low = l\<rparr>"

datatype RegionStatus = Normal | ToBeSplit | IsSplit | SplitAlmostDone | NotReady

record ServerRegion =
  sr_id :: u32
  left_region_id :: u32
  start_key :: RegionKey
  end_key :: RegionKey
  kv_num :: u32
  log_id :: u32
  region_status :: RegionStatus

definition new_ServerRegion :: "u32 \<Rightarrow> RegionKey \<Rightarrow> RegionKey \<Rightarrow> ServerRegion" where
  "new_ServerRegion rid sk ek =
     \<lparr>sr_id = rid, left_region_id = 0, start_key = sk, end_key = ek, kv_num = 0, log_id = 0,
      region_status = Normal\<rparr>"

record ClientRegion =
  cr_id :: u32
  cr_start :: RegionKey
  cr_end :: RegionKey

definition mk_ClientRegion :: "u32 \<Rightarrow> RegionKey \<Rightarrow> RegionKey \<Rightarrow> ClientRegion" where
  "mk_ClientRegion rid sk ek = \<lparr>cr_id = rid, cr_start = sk, cr_end = ek\<rparr>"

text \<open>A region covers the closed interval between the \<open>hi\<close> parts of its keys.\<close>

definition check_is_blong_to_region :: "ServerRegion \<Rightarrow> u64 \<Rightarrow> bool" where
  "check_is_blong_to_region region inode_hash \<longleftrightarrow>
     hi (start_key region) \<le> inode_hash \<and> inode_hash \<le> hi (end_key region)"

definition region_hashes :: "ServerRegion \<Rightarrow> u64 set" where
  "region_hashes region = {hi (start_key region)..hi (end_key region)}"

lemma check_is_blong_iff: "check_is_blong_to_region r h \<longleftrightarrow> h \<in> region_hashes r"
  by (simp add: check_is_blong_to_region_def region_hashes_def)

text \<open>
  \<open>region->kv_num > region_split_threshold\<close> compares an \<open>int32_t\<close> with a \<open>uint32_t\<close>: the count is
  converted to unsigned, as the comparison of two \<open>32 word\<close>s does.
\<close>

definition over_threshold :: "ServerRegion \<Rightarrow> bool" where
  "over_threshold region \<longleftrightarrow> region_split_threshold < kv_num region"

section \<open>Log keys and values\<close>

text \<open>A key is the raw image of the struct: both numbers little-endian.\<close>

definition log_key_slice :: "u32 \<Rightarrow> u32 \<Rightarrow> u8 list" where
  "log_key_slice region_id lid = le_bytes 4 region_id @ le_bytes 4 lid"

datatype LogStatus = FarToDone | AlmostDone | Done

primrec LogStatus_code :: "LogStatus \<Rightarrow> u32" where
  "LogStatus_code FarToDone = 0"
| "LogStatus_code AlmostDone = 1"
| "LogStatus_code Done = 2"

text \<open>
  The constructors assert that the name fits its 128-byte field. \<open>ToSlice\<close> is the image of the
  struct up to the terminator of the name: \<open>fname\<close> is at offset 65 of a \<open>put_log_val\<close> (after the
  flag \<open>only_update_stat\<close>, which no one sets) and at offset 8 of a \<open>delete_log_val\<close>.
\<close>

definition put_log_val_slice ::
  "u32 \<Rightarrow> u8 \<Rightarrow> u64 \<Rightarrow> u64 \<Rightarrow> u8 list \<Rightarrow> metafs_stat_t \<Rightarrow> crash + u8 list" where
  "put_log_val_slice pad flag pinode inode fname st =
     (if length fname < METAFS_MAX_FNAME_LEN
      then Inr (le_bytes 8 pinode @ le_bytes 8 inode @ stat_bytes pad st @ [flag] @ cstring fname)
      else Inl PAssert)"

definition delete_log_val_slice :: "u64 \<Rightarrow> u8 list \<Rightarrow> crash + u8 list" where
  "delete_log_val_slice pinode fname =
     (if length fname < METAFS_MAX_FNAME_LEN
      then Inr (le_bytes 8 pinode @ cstring fname)
      else Inl PAssert)"

definition sizeof_put_log_val :: nat where "sizeof_put_log_val = 200"
definition sizeof_delete_log_val :: nat where "sizeof_delete_log_val = 136"

lemma put_log_val_bound:
  "put_log_val_slice pad flag pinode inode fname st = Inr v \<Longrightarrow> length v \<le> sizeof_put_log_val"
  by (auto simp: put_log_val_slice_def sizeof_put_log_val_def METAFS_MAX_FNAME_LEN_def split: if_splits)

lemma delete_log_val_bound:
  "delete_log_val_slice pinode fname = Inr v \<Longrightarrow> length v \<le> sizeof_delete_log_val"
  by (auto simp: delete_log_val_slice_def sizeof_delete_log_val_def METAFS_MAX_FNAME_LEN_def
      split: if_splits)

lemma log_key_slice_inject [simp]:
  "log_key_slice r i = log_key_slice r' i' \<longleftrightarrow> r = r' \<and> i = i'"
  by (simp add: log_key_slice_def)

end
