(* ===== verification/Stores.thy ===== *)
theory Stores
  imports FsTypes "HOL-Library.AList"
begin

text \<open>
  The two stores under a server thread, both outside the repository: metakv (directory entries and
  attributes) and the rocksdb instance that holds the operation log. Each is a record of the calls
  the server makes, over an arbitrary type of store contents; the laws a theorem relies on are
  predicates on such a record, and reference instances at the end satisfy them.
\<close>

section \<open>metakv\<close>

text \<open>The statuses the server distinguishes; \<open>OtherStatus\<close> stands for any other value.\<close>

datatype MetaKvStatus =
    OK | INSERT_OK | UPDATE_OK | KEY_ALREADY_EXIST | VALUE_NOT_EQUAL | NEWER_UPDATE
  | KEY_NOT_EXIST | NO_ENOUGH_SPACE | UN_COMPLETED | UNKNOWN_ERR | OtherStatus

text \<open>
  The buffer \<open>ReadDir\<close> allocates: four 64-bit header words (\<open>LogScanHeader\<close>) and the bytes after
  them.
\<close>

record dir_scan =
  new_offset :: u64
  is_uncomplete :: u64
  rel_count :: u64
  rel_len :: u64
  scan_bytes :: "u8 list"

text \<open>
  A slice argument is the list of its bytes. An output parameter is passed its old contents and
  returned with the new ones, since a failing call may leave it untouched.
\<close>

record 'db metakv =
  InsertFileInode :: "'db \<Rightarrow> u64 \<Rightarrow> u8 list \<Rightarrow> u64 \<Rightarrow> MetaKvStatus \<times> 'db"
  GetFileInode :: "'db \<Rightarrow> u64 \<Rightarrow> u8 list \<Rightarrow> u64 \<Rightarrow> MetaKvStatus \<times> u64"
  DeleteFileInode :: "'db \<Rightarrow> u64 \<Rightarrow> u8 list \<Rightarrow> u64 \<Rightarrow> MetaKvStatus \<times> u64 \<times> 'db"
  InsertStat :: "'db \<Rightarrow> u64 \<Rightarrow> metafs_stat_t \<Rightarrow> MetaKvStatus \<times> 'db"
  UpdateStat :: "'db \<Rightarrow> u64 \<Rightarrow> metafs_stat_t \<Rightarrow> MetaKvStatus \<times> 'db"
  GetStat :: "'db \<Rightarrow> u64 \<Rightarrow> metafs_stat_t \<Rightarrow> MetaKvStatus \<times> metafs_stat_t"
  DeleteStat :: "'db \<Rightarrow> u64 \<Rightarrow> MetaKvStatus \<times> 'db"
  ReadDir :: "'db \<Rightarrow> u64 \<Rightarrow> u64 \<Rightarrow> nat \<Rightarrow> MetaKvStatus \<times> dir_scan option"

type_synonym 'db names_view = "'db \<Rightarrow> u64 \<times> u8 list \<rightharpoonup> u64"
type_synonym 'db attrs_view = "'db \<Rightarrow> u64 \<rightharpoonup> metafs_stat_t"

text \<open>
  What metakv documents of the directory table: a key is entered once, an insertion may fail for
  lack of space and then changes nothing, lookups and deletions report a missing key.
\<close>

definition name_laws :: "'db metakv \<Rightarrow> 'db names_view \<Rightarrow> 'db attrs_view \<Rightarrow> bool" where
  "name_laws kv names attrs \<longleftrightarrow>
     (\<forall>db p f i. names db (p, f) = None \<longrightarrow>
        InsertFileInode kv db p f i = (NO_ENOUGH_SPACE, db) \<or>
        (\<exists>db'. InsertFileInode kv db p f i = (INSERT_OK, db') \<and>
           names db' = (names db)((p, f) \<mapsto> i) \<and> attrs db' = attrs db)) \<and>
     (\<forall>db p f i j. names db (p, f) = Some j \<longrightarrow>
        InsertFileInode kv db p f i = (KEY_ALREADY_EXIST, db)) \<and>
     (\<forall>db p f i. GetFileInode kv db p f i =
        (case names db (p, f) of None \<Rightarrow> (KEY_NOT_EXIST, i) | Some j \<Rightarrow> (OK, j))) \<and>
     (\<forall>db p f i. names db (p, f) = None \<longrightarrow> DeleteFileInode kv db p f i = (KEY_NOT_EXIST, i, db)) \<and>
     (\<forall>db p f i j. names db (p, f) = Some j \<longrightarrow>
        (\<exists>db'. DeleteFileInode kv db p f i = (OK, j, db') \<and>
           names db' = (names db)((p, f) := None) \<and> attrs db' = attrs db))"

text \<open>The attribute table.\<close>

definition attr_laws :: "'db metakv \<Rightarrow> 'db names_view \<Rightarrow> 'db attrs_view \<Rightarrow> bool" where
  "attr_laws kv names attrs \<longleftrightarrow>
     (\<forall>db i st. InsertStat kv db i st = (NO_ENOUGH_SPACE, db) \<or>
        (\<exists>db'. InsertStat kv db i st = (INSERT_OK, db') \<and>
           attrs db' = (attrs db)(i \<mapsto> st) \<and> names db' = names db)) \<and>
     (\<forall>db i st. attrs db i = None \<longrightarrow> UpdateStat kv db i st = (KEY_NOT_EXIST, db)) \<and>
     (\<forall>db i st st0. attrs db i = Some st0 \<longrightarrow>
        (\<exists>db'. UpdateStat kv db i st = (UPDATE_OK, db') \<and>
           attrs db' = (attrs db)(i \<mapsto> st) \<and> names db' = names db)) \<and>
     (\<forall>db i st. GetStat kv db i st =
        (case attrs db i of None \<Rightarrow> (KEY_NOT_EXIST, st) | Some st' \<Rightarrow> (OK, st'))) \<and>
     (\<forall>db i. attrs db i = None \<longrightarrow> DeleteStat kv db i = (KEY_NOT_EXIST, db)) \<and>
     (\<forall>db i st0. attrs db i = Some st0 \<longrightarrow>
        (\<exists>db'. DeleteStat kv db i = (OK, db') \<and>
           attrs db' = (attrs db)(i := None) \<and> names db' = names db))"

text \<open>
  Scanning a directory: no buffer when it has no entries, otherwise a buffer whose header counts
  at least one entry and no more than fit the requested number of bytes.
\<close>

definition dir_entries :: "('k \<rightharpoonup> u64) \<Rightarrow> ('k \<Rightarrow> u64) \<Rightarrow> u64 \<Rightarrow> 'k set" where
  "dir_entries ns parent dir = {k \<in> dom ns. parent k = dir}"

definition scan_laws :: "'db metakv \<Rightarrow> 'db names_view \<Rightarrow> bool" where
  "scan_laws kv names \<longleftrightarrow>
     (\<forall>db dir n. 0 < n \<longrightarrow>
        (if dir_entries (names db) fst dir = {}
         then ReadDir kv db dir 0 n = (KEY_NOT_EXIST, None)
         else (\<exists>s. ReadDir kv db dir 0 n = (OK, Some s) \<and> 0 < unat (rel_count s) \<and> unat (rel_count s) \<le> n)))"

lemma scan_laws_empty:
  "scan_laws kv names \<Longrightarrow> 0 < n \<Longrightarrow> dir_entries (names db) fst dir = {} \<Longrightarrow>
     ReadDir kv db dir 0 n = (KEY_NOT_EXIST, None)"
  by (simp add: scan_laws_def)

lemma scan_laws_entries:
  assumes "scan_laws kv names" "0 < n" "dir_entries (names db) fst dir \<noteq> {}"
  obtains s where "ReadDir kv db dir 0 n = (OK, Some s)" "0 < unat (rel_count s)" "unat (rel_count s) \<le> n"
  using assms unfolding scan_laws_def by meson

lemma name_laws_insert:
  assumes "name_laws kv names attrs"
  shows "names db (p, f) = None \<Longrightarrow>
      InsertFileInode kv db p f i = (NO_ENOUGH_SPACE, db) \<or>
      (\<exists>db'. InsertFileInode kv db p f i = (INSERT_OK, db') \<and>
         names db' = (names db)((p, f) \<mapsto> i) \<and> attrs db' = attrs db)"
    and "names db (p, f) = Some j \<Longrightarrow> InsertFileInode kv db p f i = (KEY_ALREADY_EXIST, db)"
  by (insert assms, unfold name_laws_def, elim conjE) simp_all

lemma name_laws_get:
  assumes "name_laws kv names attrs"
  shows "GetFileInode kv db p f i =
     (case names db (p, f) of None \<Rightarrow> (KEY_NOT_EXIST, i) | Some j \<Rightarrow> (OK, j))"
  using assms unfolding name_laws_def by blast

lemma name_laws_delete:
  assumes "name_laws kv names attrs"
  shows "names db (p, f) = None \<Longrightarrow> DeleteFileInode kv db p f i = (KEY_NOT_EXIST, i, db)"
    and "names db (p, f) = Some j \<Longrightarrow>
      \<exists>db'. DeleteFileInode kv db p f i = (OK, j, db') \<and>
        names db' = (names db)((p, f) := None) \<and> attrs db' = attrs db"
  by (insert assms, unfold name_laws_def, elim conjE) simp_all

lemma attr_laws_insert:
  assumes "attr_laws kv names attrs"
  shows "InsertStat kv db i st = (NO_ENOUGH_SPACE, db) \<or>
        (\<exists>db'. InsertStat kv db i st = (INSERT_OK, db') \<and>
           attrs db' = (attrs db)(i \<mapsto> st) \<and> names db' = names db)"
  using assms unfolding attr_laws_def by blast

lemma attr_laws_get:
  assumes "attr_laws kv names attrs"
  shows "GetStat kv db i st = (case attrs db i of None \<Rightarrow> (KEY_NOT_EXIST, st) | Some st' \<Rightarrow> (OK, st'))"
  using assms unfolding attr_laws_def by blast

lemma attr_laws_update:
  assumes "attr_laws kv names attrs"
  shows "attrs db i = None \<Longrightarrow> UpdateStat kv db i st = (KEY_NOT_EXIST, db)"
    and "attrs db i = Some st0 \<Longrightarrow>
      \<exists>db'. UpdateStat kv db i st = (UPDATE_OK, db') \<and>
        attrs db' = (attrs db)(i \<mapsto> st) \<and> names db' = names db"
  by (insert assms, unfold attr_laws_def, elim conjE) simp_all

lemma attr_laws_delete:
  assumes "attr_laws kv names attrs"
  shows "attrs db i = None \<Longrightarrow> DeleteStat kv db i = (KEY_NOT_EXIST, db)"
    and "attrs db i = Some st0 \<Longrightarrow>
      \<exists>db'. DeleteStat kv db i = (OK, db') \<and> attrs db' = (attrs db)(i := None) \<and> names db' = names db"
  by (insert assms, unfold attr_laws_def, elim conjE) simp_all

section \<open>The log store\<close>

text \<open>
  \<open>Put\<close> returns whether the status was ok. An iteration with \<open>Seek\<close>, \<open>Valid\<close> and \<open>Next\<close> yields the
  entries from the first key not below the argument on, in the byte-wise order of the keys.
\<close>

record 'l logdb =
  log_Put :: "'l \<Rightarrow> u8 list \<Rightarrow> u8 list \<Rightarrow> bool \<times> 'l"
  log_Seek :: "'l \<Rightarrow> u8 list \<Rightarrow> (u8 list \<times> u8 list) list"

fun bytewise_le :: "u8 list \<Rightarrow> u8 list \<Rightarrow> bool" where
  "bytewise_le [] ys \<longleftrightarrow> True"
| "bytewise_le (x # xs) [] \<longleftrightarrow> False"
| "bytewise_le (x # xs) (y # ys) \<longleftrightarrow> x < y \<or> x = y \<and> bytewise_le xs ys"

definition log_laws :: "'l logdb \<Rightarrow> ('l \<Rightarrow> bool) \<Rightarrow> ('l \<Rightarrow> u8 list \<rightharpoonup> u8 list) \<Rightarrow> bool" where
  "log_laws ldb ok logs \<longleftrightarrow>
     (\<forall>l k v. ok l \<longrightarrow> fst (log_Put ldb l k v) \<and> ok (snd (log_Put ldb l k v)) \<and>
        logs (snd (log_Put ldb l k v)) = (logs l)(k \<mapsto> v)) \<and>
     (\<forall>l k. ok l \<longrightarrow> set (log_Seek ldb l k) = {(k', v). logs l k' = Some v \<and> bytewise_le k k'} \<and>
        sorted_wrt (\<lambda>a b. bytewise_le (fst a) (fst b)) (log_Seek ldb l k) \<and>
        distinct (map fst (log_Seek ldb l k)))"

lemma bytewise_le_refl [simp]: "bytewise_le xs xs"
  by (induction xs) simp_all

lemma bytewise_le_total: "bytewise_le xs ys \<or> bytewise_le ys xs"
  by (induction xs ys rule: bytewise_le.induct) auto

lemma bytewise_le_antisym: "bytewise_le xs ys \<Longrightarrow> bytewise_le ys xs \<Longrightarrow> xs = ys"
proof (induction xs ys rule: bytewise_le.induct)
  case (1 ys)
  then show ?case by (cases ys) simp_all
qed auto

lemma bytewise_le_trans: "bytewise_le xs ys \<Longrightarrow> bytewise_le ys zs \<Longrightarrow> bytewise_le xs zs"
proof (induction xs ys arbitrary: zs rule: bytewise_le.induct)
  case (3 x xs y ys)
  then show ?case by (cases zs) auto
qed simp_all

section \<open>Reference instances\<close>

record ref_db =
  ref_names :: "((u64 \<times> u8 list) \<times> u64) list"
  ref_attrs :: "(u64 \<times> metafs_stat_t) list"

definition empty_db :: ref_db where "empty_db = \<lparr>ref_names = [], ref_attrs = []\<rparr>"

definition ref_entry_bytes :: "(u64 \<times> u8 list) \<times> u64 \<Rightarrow> u8 list" where
  "ref_entry_bytes e = le_bytes 8 (fst (fst e)) @ snd (fst e) @ le_bytes 8 (snd e)"

definition ref_scan :: "((u64 \<times> u8 list) \<times> u64) list \<Rightarrow> dir_scan" where
  "ref_scan es =
     \<lparr>new_offset = 0, is_uncomplete = 0, rel_count = 1,
      rel_len = of_nat (32 + length (ref_entry_bytes (hd es))), scan_bytes = ref_entry_bytes (hd es)\<rparr>"

definition ref_kv :: "ref_db metakv" where
  "ref_kv =
     \<lparr>InsertFileInode = (\<lambda>db p f i. if map_of (ref_names db) (p, f) = None
        then (INSERT_OK, db\<lparr>ref_names := ((p, f), i) # ref_names db\<rparr>) else (KEY_ALREADY_EXIST, db)),
      GetFileInode = (\<lambda>db p f i. case map_of (ref_names db) (p, f) of
        None \<Rightarrow> (KEY_NOT_EXIST, i) | Some j \<Rightarrow> (OK, j)),
      DeleteFileInode = (\<lambda>db p f i. case map_of (ref_names db) (p, f) of
        None \<Rightarrow> (KEY_NOT_EXIST, i, db)
      | Some j \<Rightarrow> (OK, j, db\<lparr>ref_names := AList.delete (p, f) (ref_names db)\<rparr>)),
      InsertStat = (\<lambda>db i st. (INSERT_OK, db\<lparr>ref_attrs := (i, st) # ref_attrs db\<rparr>)),
      UpdateStat = (\<lambda>db i st. if map_of (ref_attrs db) i = None then (KEY_NOT_EXIST, db)
        else (UPDATE_OK, db\<lparr>ref_attrs := (i, st) # ref_attrs db\<rparr>)),
      GetStat = (\<lambda>db i st. case map_of (ref_attrs db) i of
        None \<Rightarrow> (KEY_NOT_EXIST, st) | Some st' \<Rightarrow> (OK, st')),
      DeleteStat = (\<lambda>db i. if map_of (ref_attrs db) i = None then (KEY_NOT_EXIST, db)
        else (OK, db\<lparr>ref_attrs := AList.delete i (ref_attrs db)\<rparr>)),
      ReadDir = (\<lambda>db dir off n. case filter (\<lambda>e. fst (fst e) = dir) (ref_names db) of
        [] \<Rightarrow> (KEY_NOT_EXIST, None) | es \<Rightarrow> (OK, Some (ref_scan es)))\<rparr>"

abbreviation "ref_names_view db \<equiv> map_of (ref_names db)"
abbreviation "ref_attrs_view db \<equiv> map_of (ref_attrs db)"

lemma ref_kv_name_laws: "name_laws ref_kv ref_names_view ref_attrs_view"
  unfolding name_laws_def by (auto simp: ref_kv_def delete_conv split: option.splits)

lemma ref_kv_attr_laws: "attr_laws ref_kv ref_names_view ref_attrs_view"
  unfolding attr_laws_def by (auto simp: ref_kv_def delete_conv split: option.splits)

lemma ref_kv_scan_laws: "scan_laws ref_kv ref_names_view"
proof -
  have "dir_entries (map_of xs) fst dir = {} \<longleftrightarrow> filter (\<lambda>e. fst (fst e) = dir) xs = []"
    for xs :: "((u64 \<times> u8 list) \<times> u64) list" and dir
    by (force simp: dir_entries_def filter_empty_conv dom_map_of_conv_image_fst)
  then show ?thesis
    unfolding scan_laws_def by (auto simp: ref_kv_def ref_scan_def split: list.splits)
qed

type_synonym ref_log = "(u8 list \<times> u8 list) list"

fun ref_log_put :: "u8 list \<Rightarrow> u8 list \<Rightarrow> ref_log \<Rightarrow> ref_log" where
  "ref_log_put k v [] = [(k, v)]"
| "ref_log_put k v ((k', v') # l) =
     (if k = k' then (k, v) # l
      else if bytewise_le k k' then (k, v) # (k', v') # l
      else (k', v') # ref_log_put k v l)"

definition ref_logdb :: "ref_log logdb" where
  "ref_logdb = \<lparr>log_Put = (\<lambda>l k v. (True, ref_log_put k v l)),
     log_Seek = (\<lambda>l k. filter (\<lambda>e. bytewise_le k (fst e)) l)\<rparr>"

definition ref_log_wf :: "ref_log \<Rightarrow> bool" where
  "ref_log_wf l \<longleftrightarrow> sorted_wrt (\<lambda>a b. bytewise_le (fst a) (fst b)) l \<and> distinct (map fst l)"

lemma set_ref_log_put: "fst ` set (ref_log_put k v l) = insert k (fst ` set l)"
  by (induction k v l rule: ref_log_put.induct) auto

lemma ref_log_put_map_of: "map_of (ref_log_put k v l) = (map_of l)(k \<mapsto> v)"
  by (induction k v l rule: ref_log_put.induct) (auto simp: fun_eq_iff)

lemma ref_log_put_wf: "ref_log_wf l \<Longrightarrow> ref_log_wf (ref_log_put k v l)"
proof (induction k v l rule: ref_log_put.induct)
  case (1 k v)
  then show ?case by (simp add: ref_log_wf_def)
next
  case (2 k v k' v' l)
  have tail: "bytewise_le k' k'' \<and> k' \<noteq> k''" if "k'' \<in> fst ` set l" for k''
    using that 2(2) by (auto simp: ref_log_wf_def)
  show ?case
  proof (cases "k = k' \<or> bytewise_le k k'")
    case True
    have "k \<notin> fst ` set l"
      using True tail bytewise_le_antisym by metis
    moreover have "\<forall>k'' \<in> fst ` set l. bytewise_le k k''"
      using True tail bytewise_le_trans by metis
    ultimately show ?thesis using 2(2) True by (auto simp: ref_log_wf_def)
  next
    case False
    then have "bytewise_le k' k" using bytewise_le_total by blast
    then have "\<forall>k'' \<in> fst ` set (ref_log_put k v l). bytewise_le k' k'' \<and> k' \<noteq> k''"
      using tail False by (auto simp: set_ref_log_put)
    moreover have "ref_log_wf (ref_log_put k v l)"
      using 2 False by (simp add: ref_log_wf_def)
    ultimately show ?thesis using False by (auto simp: ref_log_wf_def)
  qed
qed

lemma ref_log_seek:
  assumes "ref_log_wf l"
  shows "set (filter (\<lambda>e. bytewise_le k (fst e)) l) = {(k', v). map_of l k' = Some v \<and> bytewise_le k k'}"
    and "ref_log_wf (filter (\<lambda>e. bytewise_le k (fst e)) l)"
proof -
  show "set (filter (\<lambda>e. bytewise_le k (fst e)) l) = {(k', v). map_of l k' = Some v \<and> bytewise_le k k'}"
    using assms by (auto simp: ref_log_wf_def map_of_is_SomeI dest: map_of_SomeD)
  have "sorted_wrt P (filter Q l)" if "sorted_wrt P l" for P Q and l :: ref_log
    using that by (induction l) auto
  then show "ref_log_wf (filter (\<lambda>e. bytewise_le k (fst e)) l)"
    using assms by (simp add: ref_log_wf_def distinct_map_filter)
qed

lemma ref_logdb_laws: "log_laws ref_logdb ref_log_wf map_of"
  unfolding log_laws_def using ref_log_seek
  by (simp add: ref_logdb_def ref_log_put_wf ref_log_put_map_of) (simp add: ref_log_wf_def)

end
