(* ===== verification/JumpHash.thy ===== *)
theory JumpHash
  imports Prelude Complex_Main
begin

text \<open>
  \<open>include/util/jump_hash.h\<close>: the jump consistent hash that maps a region id to a server
  session. The C++ code computes with \<open>double\<close>; the model rounds every floating-point
  operation to the nearest binary64 value, ties to even, on exact rationals. The results
  are that the loop ends, that a bucket is in range, and that adding a bucket moves a key
  only into the new bucket.
\<close>

section \<open>Binary64 rounding\<close>

fun ilog2 :: "nat \<Rightarrow> nat" where
  "ilog2 n = (if n < 2 then 0 else Suc (ilog2 (n div 2)))"

declare ilog2.simps [simp del]

definition round_half_even :: "rat \<Rightarrow> int" where
  "round_half_even y =
     (let f = \<lfloor>y\<rfloor>; r = y - of_int f
      in if r < 1 / 2 \<or> (r = 1 / 2 \<and> even f) then f else f + 1)"

text \<open>
  The binary64 value nearest to \<open>x \<ge> 1\<close>: the significand has 53 bits, so the spacing of
  the values around \<open>x\<close> is \<open>2 ^ e / 2 ^ 52\<close> where \<open>2 ^ e \<le> x < 2 ^ (e + 1)\<close>.
\<close>

definition double_round :: "rat \<Rightarrow> rat" where
  "double_round x =
     (let u = 2 ^ ilog2 (nat \<lfloor>x\<rfloor>) / 2 ^ 52 in of_int (round_half_even (x / u)) * u)"

lemma ilog2_le: "0 < n \<Longrightarrow> 2 ^ ilog2 n \<le> n"
proof (induction n rule: ilog2.induct)
  case (1 n)
  show ?case
  proof (cases "n < 2")
    case True
    with "1.prems" show ?thesis by (simp add: ilog2.simps [of n])
  next
    case False
    then have "2 ^ ilog2 (n div 2) \<le> n div 2" using "1.IH" by simp
    then have "2 * 2 ^ ilog2 (n div 2) \<le> n" by linarith
    with False show ?thesis by (simp add: ilog2.simps [of n])
  qed
qed

lemma round_half_even_ge: "of_int k \<le> y \<Longrightarrow> k \<le> round_half_even y"
proof -
  assume "of_int k \<le> y"
  then have "k \<le> \<lfloor>y\<rfloor>" by (simp add: le_floor_iff)
  then show ?thesis by (simp add: round_half_even_def Let_def)
qed

lemma double_round_ge_pow:
  assumes "1 \<le> x"
  shows "2 ^ ilog2 (nat \<lfloor>x\<rfloor>) \<le> double_round x"
proof -
  define e where "e = ilog2 (nat \<lfloor>x\<rfloor>)"
  have pos: "0 < nat \<lfloor>x\<rfloor>" using assms by simp
  have "(2::nat) ^ e \<le> nat \<lfloor>x\<rfloor>" using ilog2_le [OF pos] by (simp add: e_def)
  then have "(of_nat (2 ^ e) :: rat) \<le> of_nat (nat \<lfloor>x\<rfloor>)" by (rule of_nat_mono)
  also have "\<dots> \<le> x" using assms by (simp add: of_nat_nat)
  finally have "(2::rat) ^ e \<le> x" by simp
  then have "of_int (2 ^ 52) \<le> x / (2 ^ e / 2 ^ 52)" by (simp add: field_simps)
  then have "2 ^ 52 \<le> round_half_even (x / (2 ^ e / 2 ^ 52))" by (rule round_half_even_ge)
  then have "(of_int (2 ^ 52) :: rat) \<le> of_int (round_half_even (x / (2 ^ e / 2 ^ 52)))"
    by (simp only: of_int_le_iff)
  then have "(of_int (2 ^ 52) :: rat) * (2 ^ e / 2 ^ 52)
      \<le> of_int (round_half_even (x / (2 ^ e / 2 ^ 52))) * (2 ^ e / 2 ^ 52)"
    by (rule mult_right_mono) simp
  then show ?thesis by (simp add: double_round_def Let_def e_def)
qed

text \<open>Rounding never drops below a representable integer.\<close>

lemma double_round_ge:
  assumes n: "1 \<le> n" "n < 2 ^ 53" and nx: "of_nat n \<le> x"
  shows "of_nat n \<le> double_round x"
proof -
  define e where "e = ilog2 (nat \<lfloor>x\<rfloor>)"
  have "(of_nat 1 :: rat) \<le> of_nat n" using n(1) by (rule of_nat_mono)
  with nx have x1: "1 \<le> x" by simp
  show ?thesis
  proof (cases "n \<le> 2 ^ e")
    case True
    then have "(of_nat n :: rat) \<le> of_nat (2 ^ e)" by (rule of_nat_mono)
    also have "\<dots> = 2 ^ e" by simp
    also have "\<dots> \<le> double_round x" using double_round_ge_pow [OF x1] by (simp add: e_def)
    finally show ?thesis .
  next
    case False
    then have "(2::nat) ^ e < 2 ^ 53" using n(2) by linarith
    then have "e < 53" by (rule power_less_imp_less_exp [rotated]) simp
    then have "e \<le> 52" by simp
    define u :: rat where "u = 2 ^ e / 2 ^ 52"
    define p :: rat where "p = 2 ^ (52 - e)"
    have pu: "p * u = 1"
      using \<open>e \<le> 52\<close> by (simp only: p_def u_def power_diff) simp
    have "0 < u" by (simp add: u_def)
    have "of_nat n * p \<le> x * p"
      using nx by (rule mult_right_mono) (simp add: p_def)
    also have "x * p = x / u"
      using pu \<open>0 < u\<close> by (simp add: field_simps)
    finally have "of_int (int n * 2 ^ (52 - e)) \<le> x / u"
      by (simp add: p_def)
    then have "int n * 2 ^ (52 - e) \<le> round_half_even (x / u)"
      by (rule round_half_even_ge)
    then have "(of_int (int n * 2 ^ (52 - e)) :: rat) \<le> of_int (round_half_even (x / u))"
      by (simp only: of_int_le_iff)
    then have "of_nat n * p * u \<le> of_int (round_half_even (x / u)) * u"
      using \<open>0 < u\<close> by (intro mult_right_mono) (simp_all add: p_def)
    with pu show ?thesis
      by (simp add: double_round_def Let_def u_def [symmetric] e_def [symmetric] mult.assoc
            del: power_numeral)
  qed
qed

section \<open>The hash\<close>

text \<open>\<open>key = key * 2862933555777941757ULL + 1\<close>, in 64 bits.\<close>

definition jump_key :: "u64 \<Rightarrow> u64" where
  "jump_key key = key * 2862933555777941757 + 1"

text \<open>\<open>(b + 1) * (double(1LL << 31) / double((key >> 33) + 1))\<close>, converted to an integer.\<close>

definition jump_next :: "nat \<Rightarrow> u64 \<Rightarrow> nat" where
  "jump_next b key =
     nat \<lfloor>double_round (of_nat (b + 1) *
            double_round (of_nat (2 ^ 31) / of_nat (unat (drop_bit 33 key) + 1)))\<rfloor>"

lemma unat_drop_bit33: "unat (drop_bit 33 (key :: u64)) < 2 ^ 31"
proof -
  have "unat (drop_bit 33 key) = unat key div 2 ^ 33"
    by (simp only: unat_drop_bit_eq) (simp only: drop_bit_eq_div)
  moreover have "unat key < 2 ^ 64" using unsigned_less [of key] by simp
  ultimately show ?thesis by (simp add: div_less_iff_less_mult)
qed

lemma scaled_bucket_greater:
  assumes b: "b < 2 ^ 31" and d: "0 < d" "d \<le> 2 ^ 31"
  shows "b < nat \<lfloor>double_round (of_nat (b + 1) * double_round (of_nat (2 ^ 31) / of_nat d))\<rfloor>"
proof -
  define q where "q = double_round (of_nat (2 ^ 31) / of_nat d)"
  have "(of_nat d :: rat) \<le> of_nat (2 ^ 31)" using d(2) by (rule of_nat_mono)
  then have "(of_nat 1 :: rat) \<le> of_nat (2 ^ 31) / of_nat d"
    using d(1) by (simp add: le_divide_eq)
  then have q: "1 \<le> q"
    using double_round_ge [of 1] by (simp add: q_def)
  have "(of_nat (b + 1) :: rat) * 1 \<le> of_nat (b + 1) * q"
    using q by (rule mult_left_mono) simp
  then have "of_nat (b + 1) \<le> double_round (of_nat (b + 1) * q)"
    using b by (intro double_round_ge) simp_all
  then have "of_int (int (b + 1)) \<le> double_round (of_nat (b + 1) * q)"
    by simp
  then have "int (b + 1) \<le> \<lfloor>double_round (of_nat (b + 1) * q)\<rfloor>"
    by (simp only: le_floor_iff)
  then show ?thesis by (simp add: q_def)
qed

lemma jump_next_greater: "b < 2 ^ 31 \<Longrightarrow> b < jump_next b key"
  unfolding jump_next_def
  by (rule scaled_bucket_greater) (use unat_drop_bit33 [of key] in linarith)+

lemma le_sint32: "int j \<le> sint (n :: u32) \<Longrightarrow> j < 2 ^ 31"
  using sint_lt [of n] by simp

function jump_loop :: "u64 \<Rightarrow> int \<Rightarrow> nat \<Rightarrow> u32 \<Rightarrow> int" where
  "jump_loop key b j num_buckets =
     (if int j < sint num_buckets
      then jump_loop (jump_key key) (int j) (jump_next j (jump_key key)) num_buckets
      else b)"
  by pat_completeness auto
termination
proof (relation "measure (\<lambda>(key, b, j, n). nat (sint n) - j)", goal_cases)
  case (2 key b j n)
  then have "j < jump_next j (jump_key key)"
    using le_sint32 [of j n] by (intro jump_next_greater) simp
  with 2 show ?case by auto
qed simp

declare jump_loop.simps [simp del]

text \<open>\<open>int64_t b = -1, j = 0\<close>; a non-positive number of buckets gives -1.\<close>

definition JumpConsistentHash :: "u64 \<Rightarrow> u32 \<Rightarrow> int" where
  "JumpConsistentHash key num_buckets = jump_loop key (- 1) 0 num_buckets"

lemma jump_loop_range:
  "b < sint n \<Longrightarrow> jump_loop key b j n < sint n \<and> min b (int j) \<le> jump_loop key b j n"
proof (induction key b j n rule: jump_loop.induct)
  case (1 key b j n)
  show ?case
  proof (cases "int j < sint n")
    case True
    then have "j < jump_next j (jump_key key)"
      using le_sint32 [of j n] by (intro jump_next_greater) simp
    with True "1.IH" show ?thesis by (auto simp: jump_loop.simps [of key b j n])
  next
    case False
    with "1.prems" show ?thesis by (simp add: jump_loop.simps [of key b j n])
  qed
qed

lemma jump_loop_add_bucket:
  "sint m = sint n + 1 \<Longrightarrow>
   jump_loop key b j m = jump_loop key b j n \<or> jump_loop key b j m = sint n"
proof (induction key b j n rule: jump_loop.induct)
  case (1 key b j n)
  note [simp] = jump_loop.simps [of key b j n] jump_loop.simps [of key b j m]
  consider "int j < sint n" | "int j = sint n" | "sint n < int j" by linarith
  then show ?case
  proof cases
    case 1
    with "1.IH" "1.prems" show ?thesis by simp
  next
    case 2
    then have "j < jump_next j (jump_key key)"
      using le_sint32 [of j n] by (intro jump_next_greater) simp
    with 2 "1.prems" show ?thesis
      by (simp add: jump_loop.simps [of "jump_key key" "sint n" "jump_next j (jump_key key)" m])
  next
    case 3
    with "1.prems" show ?thesis by simp
  qed
qed

section \<open>Particular keys\<close>

lemma jump_next_key0: "jump_next 0 (jump_key 0) = 2147483648"
  by (simp add: jump_next_def jump_key_def double_round_def ilog2.simps round_half_even_def Let_def)

lemma round_half_even_le: "y \<le> of_int k \<Longrightarrow> round_half_even y \<le> k"
proof -
  assume y: "y \<le> of_int k"
  then have f: "\<lfloor>y\<rfloor> \<le> k" by linarith
  show ?thesis
  proof (cases "\<lfloor>y\<rfloor> = k")
    case True
    then have "y = of_int k" using y of_int_floor_le [of y] by simp
    then show ?thesis by (simp add: round_half_even_def)
  next
    case False
    then show ?thesis using f by (auto simp: round_half_even_def Let_def)
  qed
qed

lemma double_round_le:
  assumes "1 \<le> x" "x \<le> 7 / 4"
  shows "double_round x \<le> 7 / 4"
proof -
  have "\<lfloor>x\<rfloor> = 1" using assms by linarith
  then have d: "double_round x = of_int (round_half_even (x * 2 ^ 52)) / 2 ^ 52"
    by (simp add: double_round_def Let_def ilog2.simps)
  have "x * 2 ^ 52 \<le> 7 / 4 * 2 ^ 52" using assms(2) by (rule mult_right_mono) simp
  then have "round_half_even (x * 2 ^ 52) \<le> 7 * 2 ^ 50" by (intro round_half_even_le) simp
  then have "(of_int (round_half_even (x * 2 ^ 52)) :: rat) \<le> of_int (7 * 2 ^ 50)"
    by (simp only: of_int_le_iff)
  then show ?thesis by (simp add: d)
qed

lemma jump_next_key4: "jump_next 0 (jump_key 4) = 1"
proof -
  have n: "unat (drop_bit 33 (jump_key 4)) = 1333157325"
    by (simp add: jump_key_def)
  let ?x = "2147483648 / 1333157326 :: rat"
  have x: "1 \<le> ?x" "?x \<le> 7 / 4" by simp_all
  have r: "1 \<le> double_round ?x" "double_round ?x \<le> 7 / 4"
    using double_round_ge [of 1 ?x] double_round_le [OF x] by simp_all
  then have rr: "double_round (double_round ?x) \<le> 7 / 4" by (rule double_round_le)
  moreover have "1 \<le> double_round (double_round ?x)"
    using double_round_ge [of 1 "double_round ?x"] r by simp
  ultimately have "\<lfloor>double_round (double_round ?x)\<rfloor> = 1" by linarith
  then show ?thesis by (simp add: jump_next_def n)
qed

lemma jump_loop_first:
  "1 \<le> sint n \<Longrightarrow> JumpConsistentHash key n = jump_loop (jump_key key) 0 (jump_next 0 (jump_key key)) n"
  by (simp add: JumpConsistentHash_def jump_loop.simps [of key])

lemma JumpConsistentHash_key0: "1 \<le> sint n \<Longrightarrow> JumpConsistentHash 0 n = 0"
  using sint_lt [of n] by (simp add: jump_loop_first jump_next_key0 jump_loop.simps)

lemma JumpConsistentHash_key4: "2 \<le> sint n \<Longrightarrow> 0 < JumpConsistentHash 4 n"
proof -
  assume n: "2 \<le> sint n"
  let ?k = "jump_key (jump_key 4)"
  have "JumpConsistentHash 4 n = jump_loop ?k 1 (jump_next 1 ?k) n"
    using n by (simp add: jump_loop_first jump_next_key4 jump_loop.simps [of "jump_key 4" 0])
  moreover have "1 < jump_next 1 ?k" by (rule jump_next_greater) simp
  ultimately show ?thesis
    using jump_loop_range [of 1 n ?k "jump_next 1 ?k"] n by auto
qed

lemma JumpConsistentHash_one: "JumpConsistentHash key 1 = 0"
  using jump_next_greater [of 0 "jump_key key"] by (simp add: jump_loop_first jump_loop.simps)

lemma JumpConsistentHash_1_2: "JumpConsistentHash 1 2 = 0"
proof -
  have n: "unat (drop_bit 33 (jump_key 1)) = 333289331"
    by (simp add: jump_key_def)
  let ?x = "2147483648 / 333289332 :: rat"
  have "2 \<le> double_round ?x" using double_round_ge [of 2 ?x] by simp
  then have "of_int 2 \<le> double_round (double_round ?x)"
    using double_round_ge [of 2 "double_round ?x"] by simp
  then have "2 \<le> \<lfloor>double_round (double_round ?x)\<rfloor>" by (simp only: le_floor_iff)
  then have "2 \<le> nat \<lfloor>double_round (double_round ?x)\<rfloor>" by linarith
  then have "2 \<le> jump_next 0 (jump_key 1)" by (simp only: jump_next_def n) simp
  then show ?thesis by (simp add: jump_loop_first jump_loop.simps)
qed

section \<open>Properties\<close>

text \<open>
  With at least one bucket the hash is a bucket: the session index the code uses to pick a
  server is always inside the session vector.
\<close>

theorem JumpConsistentHash_range:
  assumes "0 < sint num_buckets"
  shows "0 \<le> JumpConsistentHash key num_buckets \<and> JumpConsistentHash key num_buckets < sint num_buckets"
proof -
  let ?k = "jump_key key"
  have "jump_loop key (- 1) 0 num_buckets = jump_loop ?k 0 (jump_next 0 ?k) num_buckets"
    using assms by (subst jump_loop.simps) simp
  with jump_loop_range [of 0 num_buckets ?k "jump_next 0 ?k"] assms show ?thesis
    by (simp add: JumpConsistentHash_def)
qed

theorem JumpConsistentHash_range_witness:
  "0 < sint (2 :: u32) \<and> 0 \<le> JumpConsistentHash 5 2 \<and> JumpConsistentHash 5 2 < 2"
  using JumpConsistentHash_range [of 2 5] by simp

text \<open>
  C20: Consistency: adding one bucket leaves a key where it was or moves it into the new bucket,
  never between two old buckets.
\<close>

theorem JumpConsistentHash_consistent:
  assumes "sint m = sint n + 1"
  shows "JumpConsistentHash key m = JumpConsistentHash key n \<or> JumpConsistentHash key m = sint n"
  using jump_loop_add_bucket [OF assms] by (simp add: JumpConsistentHash_def)

theorem JumpConsistentHash_consistent_witness:
  "sint (3 :: u32) = sint (2 :: u32) + 1 \<and>
   (JumpConsistentHash 5 3 = JumpConsistentHash 5 2 \<or> JumpConsistentHash 5 3 = 2)"
  using JumpConsistentHash_consistent [of 3 2 5] by simp

end
