(* ===== verification/JobQueue.thy ===== *)
theory JobQueue
  imports Prelude
begin

text \<open>
  \<open>include/util/threadsafe_queue.h\<close>: the queue through which server threads hand regions to the split thread. Every
  function holds the mutex from beginning to end, so the operations of several threads are some sequence of these
  functions. What a client of the queue relies on is the locale \<open>fifo\<close>.
\<close>

type_synonym 'a tsq = "'a list"

definition tsq_empty :: "'a tsq \<Rightarrow> bool" where
  "tsq_empty q \<longleftrightarrow> q = []"

definition tsq_push :: "'a \<Rightarrow> 'a tsq \<Rightarrow> 'a tsq" where
  "tsq_push element q = q @ [element]"

text \<open>\<open>pop\<close> leaves \<open>element\<close> as it was when it returns false.\<close>

definition tsq_pop :: "'a \<Rightarrow> 'a tsq \<Rightarrow> bool \<times> 'a \<times> 'a tsq" where
  "tsq_pop element q = (if q \<noteq> [] then (True, hd q, tl q) else (False, element, q))"

lemmas tsq_defs [simp] = tsq_empty_def tsq_push_def tsq_pop_def

locale fifo =
  fixes contents :: "'q \<Rightarrow> 'a list"
    and is_empty :: "'q \<Rightarrow> bool"
    and push :: "'a \<Rightarrow> 'q \<Rightarrow> 'q"
    and pop :: "'a \<Rightarrow> 'q \<Rightarrow> bool \<times> 'a \<times> 'q"
  assumes is_empty_iff: "is_empty q \<longleftrightarrow> contents q = []"
    and contents_push: "contents (push x q) = contents q @ [x]"
    and pop_empty: "contents q = [] \<Longrightarrow> pop y q = (False, y, q)"
    and pop_first: "contents q = x # xs \<Longrightarrow> \<exists>q'. pop y q = (True, x, q') \<and> contents q' = xs"
begin

lemma contents_push_all: "contents (fold push xs q) = contents q @ xs"
  by (induction xs arbitrary: q) (simp_all add: contents_push)

text \<open>A job comes out after exactly the jobs that were in the queue before it.\<close>

lemma pop_after_push:
  assumes "contents q = ys"
  shows "\<exists>q'. pop y (push x q) = (True, hd (ys @ [x]), q') \<and> contents q' = tl (ys @ [x])"
  using pop_first [of "push x q" "hd (ys @ [x])" "tl (ys @ [x])" y] assms by (simp add: contents_push)

end

interpretation tsq: fifo "\<lambda>q. q" tsq_empty tsq_push tsq_pop
  by unfold_locales auto

end
