(* ===== verification/Regions.thy ===== *)
theory Regions
  imports Stores JumpHash JobQueue
begin

text \<open>
  The state of a server thread (\<open>server_context\<close>, \<open>include/server/metafs_server.h\<close>) with the
  process-wide variables beside it, and the region operations of \<open>src/server/region_and_log.cc\<close>
  that the request handlers call: registering the initial region, the status test, the split
  decision and the operation log.
\<close>

section \<open>State\<close>

text \<open>
  The region map holds pointers in the code; no two entries point to the same object, so it is a
  map to the objects. \<open>pinode_table\<close> maps a hash to an ordered set of directory inodes, kept as
  the sorted list the iteration of a \<open>std::set\<close> yields.
\<close>

record ('db, 'l) server_context =
  thread_id :: u64
  global_id :: u64
  alloc_inode :: u64
  metadb :: 'db
  log_db :: 'l
  region_map :: "u32 \<rightharpoonup> ServerRegion"
  pinode_table :: "u64 \<rightharpoonup> u64 list"

text \<open>
  Shared by the threads of one process. The iteration order of \<open>global_region_map\<close> is the order
  of the list.
\<close>

record shared =
  global_region_id :: u32
  global_region_map :: "(u32 \<times> ClientRegion) list"
  shared_split_queue :: "(u64 \<times> u32) tsq"
  num_server_sessions :: u32

text \<open>Contents of memory the code reads before anything is stored there.\<close>

record uninit =
  u_inode :: u64
  u_tv :: u64
  u_pad :: u32
  u_flag :: u8
  u_stat :: metafs_stat_t

text \<open>\<open>insert\<close> of an unordered map keeps an existing entry.\<close>

definition map_insert :: "'k \<Rightarrow> 'v \<Rightarrow> ('k \<rightharpoonup> 'v) \<Rightarrow> ('k \<rightharpoonup> 'v)" where
  "map_insert k v m = (case m k of None \<Rightarrow> m(k \<mapsto> v) | Some _ \<Rightarrow> m)"

definition alist_insert :: "'k \<Rightarrow> 'v \<Rightarrow> ('k \<times> 'v) list \<Rightarrow> ('k \<times> 'v) list" where
  "alist_insert k v xs = (if map_of xs k = None then (k, v) # xs else xs)"

definition upd_region ::
  "u32 \<Rightarrow> (ServerRegion \<Rightarrow> ServerRegion) \<Rightarrow> ('db, 'l) server_context \<Rightarrow> ('db, 'l) server_context" where
  "upd_region rid f c = c\<lparr>region_map := (region_map c)(rid := map_option f (region_map c rid))\<rparr>"

lemma upd_region_simps [simp]:
  "region_map (upd_region rid f c) rid = map_option f (region_map c rid)"
  "rid' \<noteq> rid \<Longrightarrow> region_map (upd_region rid f c) rid' = region_map c rid'"
  "metadb (upd_region rid f c) = metadb c"
  "log_db (upd_region rid f c) = log_db c"
  "alloc_inode (upd_region rid f c) = alloc_inode c"
  "pinode_table (upd_region rid f c) = pinode_table c"
  "thread_id (upd_region rid f c) = thread_id c"
  "global_id (upd_region rid f c) = global_id c"
  by (simp_all add: upd_region_def)

section \<open>Inode numbers\<close>

text \<open>
  \<open>((s_cfg->id << 8) | s_ctx->thread_id) << 40\<close>: the shift of the 32-bit server id is done in 32
  bits and sign-extended, the rest in 64 bits.
\<close>

definition init_alloc_inode :: "u32 \<Rightarrow> u64 \<Rightarrow> u64" where
  "init_alloc_inode server_id tid = push_bit 40 (scast (push_bit 8 server_id) OR tid) + 1"

text \<open>\<open>s_cfg->id * s_cfg->server_fg_threads + thread_id\<close>.\<close>

definition server_global_id :: "u32 \<Rightarrow> u32 \<Rightarrow> u64 \<Rightarrow> u64" where
  "server_global_id server_id fg_threads tid = scast (server_id * fg_threads) + tid"

section \<open>Regions of a thread\<close>

text \<open>
  The initial region of a thread has the thread's global id; its bounds are products of 32-bit
  integers.
\<close>

definition register_region :: "('db, 'l) server_context \<times> shared \<Rightarrow> ('db, 'l) server_context \<times> shared" where
  "register_region = (\<lambda>(c, g).
     let g = g\<lparr>global_region_id := global_region_id g + 1\<rparr>;
         region_id = ucast (global_id c) :: u32;
         skey = mk_RegionKey 0 (scast (region_id * PINODE_HASH_RANGE));
         ekey = mk_RegionKey 0 (scast ((region_id + 1) * PINODE_HASH_RANGE - 1));
         region = new_ServerRegion region_id skey ekey
     in (c\<lparr>region_map := map_insert region_id region (region_map c)\<rparr>,
         g\<lparr>global_region_map :=
             alist_insert region_id (mk_ClientRegion region_id skey ekey) (global_region_map g)\<rparr>))"

definition init_server_context ::
  "u32 \<Rightarrow> u32 \<Rightarrow> u64 \<Rightarrow> 'db \<Rightarrow> 'l \<Rightarrow> shared \<Rightarrow> ('db, 'l) server_context \<times> shared" where
  "init_server_context server_id fg_threads tid db l g =
     register_region
       (\<lparr>thread_id = tid, global_id = server_global_id server_id fg_threads tid,
         alloc_inode = init_alloc_inode server_id tid, metadb = db, log_db = l,
         region_map = Map.empty, pinode_table = Map.empty\<rparr>, g)"

text \<open>Whether a region serves client requests; \<open>ToBeSplit\<close> is not expected.\<close>

fun check_region_status :: "ServerRegion \<Rightarrow> crash + bool" where
  "check_region_status region =
     (case region_status region of
        Normal \<Rightarrow> Inr True
      | NotReady \<Rightarrow> Inr False
      | SplitAlmostDone \<Rightarrow> Inr False
      | IsSplit \<Rightarrow> Inr True
      | ToBeSplit \<Rightarrow> Inl PAssert)"

text \<open>
  The search for an id whose hash is another thread. The hash, an \<open>int32_t\<close>, is compared with the
  \<open>size_t\<close> global id; the counter of ids wraps around.
\<close>

definition session_of :: "u32 \<Rightarrow> u32 \<Rightarrow> u64" where
  "session_of sessions rid = word_of_int (JumpConsistentHash (scast rid) sessions)"

partial_function (option) split_target :: "u32 \<Rightarrow> u64 \<Rightarrow> u32 \<Rightarrow> u32 \<Rightarrow> (u32 \<times> u32) option" where
  "split_target sessions gid rid next_id =
     (if session_of sessions rid = gid then split_target sessions gid next_id (next_id + 1)
      else Some (rid, next_id))"

definition check_region_and_split ::
  "ServerRegion \<Rightarrow> ('db, 'l) server_context \<times> shared \<Rightarrow> crash + ('db, 'l) server_context \<times> shared" where
  "check_region_and_split region = (\<lambda>(c, g).
     if over_threshold region
     then
       let nr_skey = mk_RegionKey 0 (drop_bit 1 (hi (end_key region)) + 1);
           nr_ekey = mk_RegionKey 0 (hi (end_key region));
           first_id = global_region_id g
       in case split_target (num_server_sessions g) (global_id c) first_id (first_id + 1) of
            None \<Rightarrow> Inl Hang
          | Some (nr_region_id, next_id) \<Rightarrow>
              let nr = (new_ServerRegion nr_region_id nr_skey nr_ekey)\<lparr>left_region_id := sr_id region\<rparr>
              in Inr (c\<lparr>region_map := map_insert nr_region_id nr (region_map c)\<rparr>,
                      g\<lparr>global_region_id := next_id,
                        shared_split_queue := tsq_push (thread_id c, nr_region_id) (shared_split_queue g)\<rparr>)
     else Inr (c, g))"

section \<open>The operation log\<close>

text \<open>
  One entry under the region's id and its next log number. A put entry is marked in the second
  highest bit of the parent inode.
\<close>

definition log_value ::
  "uninit \<Rightarrow> bool \<Rightarrow> u64 \<Rightarrow> u8 list \<Rightarrow> metafs_stat_t option \<Rightarrow> u64 \<Rightarrow> crash + u8 list" where
  "log_value u is_delete_op pinode fname stat inode =
     (if is_delete_op then delete_log_val_slice pinode fname
      else case stat of
        None \<Rightarrow> Inl PAssert
      | Some st \<Rightarrow> put_log_val_slice (u_pad u) (u_flag u) (pinode OR inode_prefix_ssb) inode fname st)"

definition log_op ::
  "'l logdb \<Rightarrow> uninit \<Rightarrow> u32 \<Rightarrow> bool \<Rightarrow> u64 \<Rightarrow> u8 list \<Rightarrow> metafs_stat_t option \<Rightarrow> u64 \<Rightarrow>
   ('db, 'l) server_context \<Rightarrow> crash + ('db, 'l) server_context" where
  "log_op ldb u rid is_delete_op pinode fname stat inode c =
     (case region_map c rid of
        None \<Rightarrow> Inl NullDeref
      | Some region \<Rightarrow>
          (let key = log_key_slice (sr_id region) (log_id region);
               c = upd_region rid (\<lambda>r. r\<lparr>log_id := log_id r + 1\<rparr>) c
           in andThen (log_value u is_delete_op pinode fname stat inode) (\<lambda>val.
                case log_Put ldb (log_db c) key val of
                  (ok, l) \<Rightarrow> if ok then Inr (c\<lparr>log_db := l\<rparr>) else Inl PAssert)))"

lemma log_op_InrD:
  assumes "log_op ldb u rid del pinode fname stat inode c = Inr c'"
  shows "\<exists>region val. region_map c rid = Some region \<and>
    log_value u del pinode fname stat inode = Inr val \<and>
    fst (log_Put ldb (log_db c) (log_key_slice (sr_id region) (log_id region)) val) \<and>
    c' = (upd_region rid (\<lambda>r. r\<lparr>log_id := log_id r + 1\<rparr>) c)\<lparr>log_db :=
      snd (log_Put ldb (log_db c) (log_key_slice (sr_id region) (log_id region)) val)\<rparr>"
  using assms
  by (auto simp: log_op_def Let_def case_prod_beta split: option.splits if_splits)

section \<open>Allocated inodes\<close>

lemma init_alloc_inode_nat:
  assumes "s < 256" "t < 256"
  shows "init_alloc_inode (of_nat s) (of_nat t) = of_nat ((256 * s + t) * 2 ^ 40 + 1)"
proof -
  have "(push_bit 8 (of_nat s) :: u32) = of_nat (256 * s)" by (simp add: push_bit_eq_mult ac_simps)
  moreover have "(scast (of_nat (256 * s) :: u32) :: u64) = of_nat (256 * s)"
    using assms by (intro scast_of_nat32) simp
  ultimately show ?thesis using assms or_byte [of t s]
    by (simp add: init_alloc_inode_def push_bit_eq_mult algebra_simps)
qed

text \<open>The \<open>n\<close>-th inode a thread allocates.\<close>

definition nth_inode :: "nat \<Rightarrow> nat \<Rightarrow> nat \<Rightarrow> u64" where
  "nth_inode server_id tid n = init_alloc_inode (of_nat server_id) (of_nat tid) + of_nat n"

lemma unat_nth_inode:
  assumes "s < 256" "t < 256" "n < 2 ^ 40 - 1"
  shows "unat (nth_inode s t n) = (256 * s + t) * 2 ^ 40 + 1 + n"
    and "unat (nth_inode s t n) < 2 ^ 56"
proof -
  have b: "(256 * s + t) * 2 ^ 40 + 1 + n < 2 ^ 56"
    using assms by simp
  have "nth_inode s t n = of_nat ((256 * s + t) * 2 ^ 40 + 1 + n)"
    by (simp add: nth_inode_def init_alloc_inode_nat [OF assms(1,2)])
  then show "unat (nth_inode s t n) = (256 * s + t) * 2 ^ 40 + 1 + n"
    using b by (simp only: unat_of_nat) simp
  with b show "unat (nth_inode s t n) < 2 ^ 56" by simp
qed

lemma nth_inode_not_dir:
  assumes "s < 256" "t < 256" "n < 2 ^ 40 - 1"
  shows "\<not> bit (nth_inode s t n) 63"
proof -
  have "take_bit 63 (unat (nth_inode s t n)) = unat (nth_inode s t n)"
    using unat_nth_inode(2) [OF assms] by (simp add: take_bit_nat_eq_self)
  then have "\<not> bit (unat (nth_inode s t n)) 63" by (metis bit_take_bit_iff less_irrefl)
  then show ?thesis by (simp add: bit_unsigned_iff)
qed

lemma or_msb_inject:
  "\<not> bit a 63 \<Longrightarrow> \<not> bit b 63 \<Longrightarrow> a OR inode_prefix_msb = b OR inode_prefix_msb \<longleftrightarrow> a = b"
  by (metis (no_types) bit_eqI bit_or_iff bit_push_bit_iff inode_prefix_msb_def bit_1_iff diff_is_0_eq le_antisym)

section \<open>The search for a target\<close>

lemma split_key_exists:
  assumes "2 \<le> sint sessions"
  shows "\<exists>k. session_of sessions k \<noteq> gid"
proof (cases "gid = 0")
  case True
  let ?j = "JumpConsistentHash 4 sessions"
  have "0 < ?j" by (rule JumpConsistentHash_key4 [OF assms])
  moreover have "?j < sint sessions"
    using jump_loop_range [of 0 sessions "jump_key 4" "jump_next 0 (jump_key 4)"] assms
    by (simp add: jump_loop_first)
  moreover have "sint sessions < 2 ^ 31" using sint_lt [of sessions] by simp
  ultimately have "(word_of_int ?j :: u64) \<noteq> 0" 
    by (simp add: word_of_int_eq_0_iff dvd_def) (auto simp: zdvd_not_zless)
  then show ?thesis using True by (intro exI [of _ 4]) (simp add: session_of_def)
next
  case False
  then show ?thesis using JumpConsistentHash_key0 [of sessions] assms
    by (intro exI [of _ 0]) (simp add: session_of_def)
qed

lemma split_target_total:
  assumes "session_of sessions k \<noteq> gid"
  shows "\<exists>rid. split_target sessions gid r (r + 1) = Some (rid, rid + 1) \<and> session_of sessions rid \<noteq> gid"
proof (induction "unat (k - r)" arbitrary: r rule: less_induct)
  case less
  show ?case
  proof (cases "session_of sessions r = gid")
    case True
    then have "k - r \<noteq> 0" using assms by auto
    then have "unat (k - (r + 1)) < unat (k - r)"
      by (metis diff_diff_add unat_minus_one unat_gt_0 diff_less zero_less_one)
    from less [OF this] True show ?thesis by (subst split_target.simps) simp
  next
    case False
    then show ?thesis by (subst split_target.simps) simp
  qed
qed

lemma split_target_diverges:
  assumes "\<And>k. session_of sessions k = gid"
  shows "split_target sessions gid r n = None"
proof -
  have "split_target sessions gid r n = Some y \<Longrightarrow> session_of sessions (fst y) \<noteq> gid" for y
    by (erule split_target.raw_induct [where P = "\<lambda>s g r n y. session_of s (fst y) \<noteq> g", rotated])
      (auto split: if_splits)
  then show ?thesis using assms by (cases "split_target sessions gid r n") auto
qed

lemma initial_region:
  assumes "i < 2 ^ 20" "server_global_id server_id fg_threads tid = of_nat i"
  shows "region_map (fst (init_server_context server_id fg_threads tid db l g)) (of_nat i) =
    Some (new_ServerRegion (of_nat i) (mk_RegionKey 0 (of_nat (1024 * i)))
      (mk_RegionKey 0 (of_nat (1024 * i + 1023))))"
proof -
  have id: "(ucast (of_nat i :: u64) :: u32) = of_nat i"
    using assms(1) by (simp add: unsigned_of_nat take_bit_nat_eq_self)
  have "(of_nat i * PINODE_HASH_RANGE :: u32) = of_nat (1024 * i)"
    by (simp add: PINODE_HASH_RANGE_def)
  then have sk: "(scast (of_nat i * PINODE_HASH_RANGE :: u32) :: u64) = of_nat (1024 * i)"
    by (simp only:, intro scast_of_nat32) (use assms(1) in simp)
  have "((of_nat i + 1) * PINODE_HASH_RANGE - 1 :: u32) = of_nat (1024 * i + 1023)"
    by (simp add: PINODE_HASH_RANGE_def algebra_simps)
  then have ek: "(scast ((of_nat i + 1) * PINODE_HASH_RANGE - 1 :: u32) :: u64) = of_nat (1024 * i + 1023)"
    by (simp only:, intro scast_of_nat32) (use assms(1) in simp)
  show ?thesis
    by (simp only: init_server_context_def register_region_def assms(2))
      (simp add: id sk ek Let_def map_insert_def del: of_nat_add of_nat_mult)
qed

lemma unat_initial_bounds:
  assumes "i < 2 ^ 20"
  shows "unat (of_nat (1024 * i) :: u64) = 1024 * i" "unat (of_nat (1024 * i + 1023) :: u64) = 1024 * i + 1023"
  using assms by (simp_all only: unat_of_nat) simp_all

section \<open>Properties\<close>

text \<open>
  C15: No two server threads ever allocate the same inode, with up to 256 servers of up to 256
  threads and fewer than 2^40 - 1 inodes each; file inodes never carry the directory bit, directory
  inodes always do and are as distinct as the counters they come from.
\<close>

theorem inode_numbers_unique:
  assumes "s < 256" "t < 256" "n < 2 ^ 40 - 1" "s' < 256" "t' < 256" "n' < 2 ^ 40 - 1"
  shows "(nth_inode s t n = nth_inode s' t' n' \<longleftrightarrow> s = s' \<and> t = t' \<and> n = n') \<and>
    (nth_inode s t n OR inode_prefix_msb = nth_inode s' t' n' OR inode_prefix_msb \<longleftrightarrow>
       s = s' \<and> t = t' \<and> n = n') \<and>
    \<not> is_directory (nth_inode s t n) \<and> is_directory (nth_inode s' t' n' OR inode_prefix_msb)"
proof -
  have "s = s' \<and> t = t' \<and> n = n'"
    if "(256 * s + t) * 2 ^ 40 + 1 + n = (256 * s' + t') * 2 ^ 40 + 1 + n'"
  proof -
    have "2 ^ 40 * (256 * s + t) + (1 + n) = 2 ^ 40 * (256 * s' + t') + (1 + n')"
      using that by (simp only: mult.commute add.assoc)
    then have "256 * s + t = 256 * s' + t' \<and> 1 + n = 1 + n'"
      using assms(3,6) by (intro mixed_radix [where b = "2 ^ 40"]) simp_all
    then show ?thesis using mixed_radix [of t 256 t' s s'] assms(2,5) by simp
  qed
  then have "nth_inode s t n = nth_inode s' t' n' \<longleftrightarrow> s = s' \<and> t = t' \<and> n = n'"
    using unat_nth_inode(1) [OF assms(1-3)] unat_nth_inode(1) [OF assms(4-6)] by metis
  then show ?thesis
    using nth_inode_not_dir [OF assms(1-3)] nth_inode_not_dir [OF assms(4-6)]
    by (simp add: or_msb_inject is_directory_bit [of "nth_inode s t n"])
qed

theorem inode_numbers_unique_witness:
  "nth_inode 0 1 7 \<noteq> nth_inode 1 0 7 \<and> is_directory (nth_inode 1 0 7 OR inode_prefix_msb)"
  using inode_numbers_unique [of 0 1 7 1 0 7] by simp

text \<open>
  The initial regions partition the hash space in steps of 1024: the region of the thread
  with global id \<open>i\<close> holds exactly the hashes \<open>h\<close> with \<open>h div 1024 = i\<close>. Since the hash of a
  directory is always reduced modulo 1024, every directory belongs to the region of thread 0 and
  none to any other thread.
\<close>

theorem initial_regions:
  assumes "i < 2 ^ 20" "server_global_id server_id fg_threads tid = of_nat i"
  shows "\<exists>r. region_map (fst (init_server_context server_id fg_threads tid db l g)) (of_nat i) = Some r \<and>
     region_status r = Normal \<and>
     (\<forall>h. check_is_blong_to_region r h \<longleftrightarrow> unat h div 1024 = i) \<and>
     (\<forall>h. check_is_blong_to_region r (h mod ucast PINODE_HASH_RANGE) \<longleftrightarrow> i = 0)"
proof -
  have le: "(of_nat (1024 * i) :: u64) \<le> h \<and> h \<le> of_nat (1024 * i + 1023) \<longleftrightarrow> unat h div 1024 = i" for h
    by (simp only: word_le_nat_alt unat_initial_bounds [OF assms(1)]) linarith
  have "unat (h mod ucast PINODE_HASH_RANGE) div 1024 = 0" for h :: u64
    by (simp add: PINODE_HASH_RANGE_def unat_mod_distrib)
  then show ?thesis
    by (auto simp: initial_region [OF assms] check_is_blong_to_region_def new_ServerRegion_def mk_RegionKey_def le
        simp del: of_nat_add of_nat_mult)
qed

definition no_regions :: "u32 \<Rightarrow> shared" where
  "no_regions sessions =
     \<lparr>global_region_id = 0, global_region_map = [], shared_split_queue = [], num_server_sessions = sessions\<rparr>"

theorem initial_regions_witness:
  "\<exists>r. region_map (fst (init_server_context 1 2 1 empty_db ([] :: ref_log) (no_regions 4))) 3 = Some r \<and>
     \<not> check_is_blong_to_region r (77 mod ucast PINODE_HASH_RANGE)"
  using initial_regions [of 3 1 2 1 empty_db "[] :: ref_log" "no_regions 4"]
  by (auto simp: server_global_id_def)


definition full_region :: ServerRegion where
  "full_region = (new_ServerRegion 1 (mk_RegionKey 0 1024) (mk_RegionKey 0 2047))\<lparr>kv_num := 200001\<rparr>"

definition thread1 :: "(ref_db, ref_log) server_context" where
  "thread1 = (fst (init_server_context 1 1 0 empty_db [] (no_regions 2)))
     \<lparr>region_map := Map.empty(1 \<mapsto> full_region)\<rparr>"

definition process1 :: shared where
  "process1 = snd (init_server_context 1 1 0 empty_db ([] :: ref_log) (no_regions 2))"

lemma thread1_simps:
  "global_id thread1 = 1" "thread_id thread1 = 0" "region_map thread1 = [1 \<mapsto> full_region]"
  "global_region_id process1 = 1" "num_server_sessions process1 = 2" "shared_split_queue process1 = []"
  "over_threshold full_region"
  by (simp_all add: thread1_def process1_def full_region_def init_server_context_def
      register_region_def server_global_id_def no_regions_def new_ServerRegion_def Let_def
      over_threshold_def region_split_threshold_def)


text \<open>
  With a single server session every id hashes to thread 0 itself, so the search for another
  thread never ends: a region of the only thread that grows beyond the threshold hangs the thread
  in the handler that tries to split it.
\<close>

theorem split_hangs_with_one_session:
  assumes "num_server_sessions g = 1" "global_id c = 0" "over_threshold region"
  shows "check_region_and_split region (c, g) = Inl Hang"
proof -
  have "session_of 1 k = 0" for k
    by (simp add: session_of_def JumpConsistentHash_one)
  then show ?thesis
    using assms by (simp add: check_region_and_split_def split_target_diverges Let_def)
qed

theorem split_hangs_with_one_session_witness:
  "check_region_and_split full_region
     (fst (init_server_context 0 1 0 empty_db ([] :: ref_log) (no_regions 1)), no_regions 1) = Inl Hang"
  by (rule split_hangs_with_one_session)
    (simp_all add: thread1_simps no_regions_def init_server_context_def register_region_def
      server_global_id_def Let_def)

text \<open>
  Region ids come from a counter of the process that starts at the number of its own threads,
  while initial regions use ids unique across servers. On the second of two single-threaded servers
  the first split picks id 1, the id of the very region being split: the new region is not entered
  at all and the queued job names the old one.
\<close>

theorem split_reuses_own_id:
  "check_region_and_split full_region (thread1, process1) =
     Inr (thread1, process1\<lparr>global_region_id := 2, shared_split_queue := [(0, 1)]\<rparr>)"
proof -
  have "session_of 2 1 = 0" by (simp add: session_of_def JumpConsistentHash_1_2)
  then have "split_target 2 1 1 2 = Some (1, 2)" by (subst split_target.simps) simp
  then show ?thesis
    by (simp add: check_region_and_split_def thread1_simps map_insert_def Let_def)
qed

end
