(* ===== verification/Wire.thy ===== *)
theory Wire
  imports FsTypes
begin

text \<open>
  The messages of \<open>include/rpc/rpc_common.h\<close>. Requests and responses are members of two unions,
  so all of them share the same bytes: a message is raw memory, and a member is read and written
  at the offsets the x86-64 layout gives its fields.
\<close>

definition MSG_ENTEY_MAX_SIZE :: nat where "MSG_ENTEY_MAX_SIZE = 3712"
definition MAX_MSG_BUF_WINDOW :: nat where "MAX_MSG_BUF_WINDOW = 8"

datatype kReqType =
    kFSOpenReq | kFSUnlinkReq | kFSStatReq | kFSMknodReq | kFSReaddirReq | kFSMkdirReq
  | kFSRmdirReq | kFSGetinodeReq | kReadRegionmap | kCreateRegionReq | kSendRegionReq
  | kSendRegionLogReq

datatype RespType =
    kSuccess | kFail | kEXIST | kENOENT | kEIO | kENOTDIR | kEISDIR | kEBUSY | kUpdateRegionMap

primrec RespType_code :: "RespType \<Rightarrow> u32" where
  "RespType_code kSuccess = 0"
| "RespType_code kFail = 1"
| "RespType_code kEXIST = 2"
| "RespType_code kENOENT = 3"
| "RespType_code kEIO = 4"
| "RespType_code kENOTDIR = 5"
| "RespType_code kEISDIR = 6"
| "RespType_code kEBUSY = 7"
| "RespType_code kUpdateRegionMap = 8"

lemma RespType_code_inject [simp]: "RespType_code a = RespType_code b \<longleftrightarrow> a = b"
  by (cases a; cases b) simp_all

section \<open>Requests\<close>

text \<open>
  Six of the client requests carry the same fields, at offsets that depend on what precedes
  \<open>fname\<close>; the record holds what a handler reads of them. \<open>rq_fname\<close> is the whole 128-byte array.
\<close>

record fs_req =
  rq_region_id :: u32
  rq_pinode :: u64
  rq_pinode_hash :: u64
  rq_fname :: "u8 list"

record fs_mode_req = fs_req +
  rq_mode :: u32

record fs_mknod_req = fs_mode_req +
  rq_oid :: oid_t

record fs_readdir_req =
  rd_region_id :: u32
  rd_inode :: u64
  rd_inode_hash :: u64
  rd_offset :: u64

definition get_fname_req :: "mem \<Rightarrow> fs_req" where
  "get_fname_req m =
     \<lparr>rq_region_id = get32 m 0, rq_pinode = get64 m 8, rq_pinode_hash = get64 m 16,
      rq_fname = mem_read m 24 METAFS_MAX_FNAME_LEN\<rparr>"

definition get_mode_req :: "mem \<Rightarrow> fs_mode_req" where
  "get_mode_req m =
     \<lparr>rq_region_id = get32 m 0, rq_pinode = get64 m 8, rq_pinode_hash = get64 m 16,
      rq_fname = mem_read m 28 METAFS_MAX_FNAME_LEN, rq_mode = get32 m 24\<rparr>"

definition FSGetinodeReq :: "mem \<Rightarrow> fs_req" where "FSGetinodeReq m = get_fname_req m"
definition FSUnlinkReq :: "mem \<Rightarrow> fs_req" where "FSUnlinkReq m = get_fname_req m"
definition FSStatReq :: "mem \<Rightarrow> fs_req" where "FSStatReq m = get_fname_req m"
definition FSRmdirReq :: "mem \<Rightarrow> fs_req" where "FSRmdirReq m = get_fname_req m"
definition FSOpenReq :: "mem \<Rightarrow> fs_mode_req" where "FSOpenReq m = get_mode_req m"
definition FSMkdirReq :: "mem \<Rightarrow> fs_mode_req" where "FSMkdirReq m = get_mode_req m"

definition FSMknodReq :: "mem \<Rightarrow> fs_mknod_req" where
  "FSMknodReq m =
     \<lparr>rq_region_id = get32 m 0, rq_pinode = get64 m 24, rq_pinode_hash = get64 m 32,
      rq_fname = mem_read m 44 METAFS_MAX_FNAME_LEN, rq_mode = get32 m 40,
      rq_oid = \<lparr>oid_lo = get64 m 8, oid_hi = get64 m 16\<rparr>\<rparr>"

definition FSReaddirReq :: "mem \<Rightarrow> fs_readdir_req" where
  "FSReaddirReq m =
     \<lparr>rd_region_id = get32 m 0, rd_inode = get64 m 8, rd_inode_hash = get64 m 16,
      rd_offset = get64 m 24\<rparr>"

definition FSGetinodeReq_size :: nat where "FSGetinodeReq_size = 152"
definition FSOpenReq_size :: nat where "FSOpenReq_size = 160"
definition FSUnlinkReq_size :: nat where "FSUnlinkReq_size = 152"
definition FSStatReq_size :: nat where "FSStatReq_size = 152"
definition FSMknodReq_size :: nat where "FSMknodReq_size = 176"
definition FSReaddirReq_size :: nat where "FSReaddirReq_size = 32"
definition FSMkdirReq_size :: nat where "FSMkdirReq_size = 160"
definition FSRmdirReq_size :: nat where "FSRmdirReq_size = 152"

lemmas req_sizes [layout_simps] = FSGetinodeReq_size_def FSOpenReq_size_def FSUnlinkReq_size_def
  FSStatReq_size_def FSMknodReq_size_def FSReaddirReq_size_def FSMkdirReq_size_def FSRmdirReq_size_def

lemmas req_decoders [layout_simps] = FSGetinodeReq_def FSUnlinkReq_def FSStatReq_def FSRmdirReq_def
  FSOpenReq_def FSMkdirReq_def FSMknodReq_def FSReaddirReq_def get_fname_req_def get_mode_req_def

text \<open>The server-to-server requests.\<close>

record create_region_req =
  cq_region_id :: u32
  cq_start_key :: RegionKey
  cq_end_key :: RegionKey

record send_region_req =
  sq_region_id :: u32
  sq_is_uncomplete :: u64
  sq_num_result :: u64
  sq_entries_len :: u64
  sq_pinode_hash :: u64
  sq_pinode :: u64
  sq_offset :: u64
  sq_entries :: "u8 list"

record send_log_req =
  lq_region_id :: u32
  lq_log_status :: u32
  lq_next_log_id :: u32
  lq_num_logs :: u32
  lq_entries_len :: u32
  lq_entries :: "u8 list"

section \<open>Responses\<close>

text \<open>
  The responses of \<open>open\<close>, \<open>stat\<close>, \<open>mknod\<close>, \<open>mkdir\<close>, \<open>unlink\<close>, \<open>rmdir\<close> and \<open>getinode\<close> are prefixes
  of one layout: the type at offset 0, the inode at 8 and the attributes at 16. A handler sets
  some of the fields of the preallocated buffer, so the others keep what an earlier response left.
\<close>

record fs_resp =
  rs_type :: RespType
  rs_inode :: u64
  rs_stat :: metafs_stat_t

record readdir_resp =
  rr_type :: RespType
  rr_is_uncomplete :: u32
  rr_num_result :: u32
  rr_entries_len :: u32
  rr_next_offset :: u64
  rr_entries :: "u8 list"

record regionmap_resp =
  rm_type :: RespType
  rm_num_entries :: u32
  rm_entries :: "ClientRegion list"

record create_region_resp =
  cs_type :: RespType
  cs_region_id :: u32

record send_region_resp =
  ss_type :: RespType
  ss_is_uncomplete :: u32
  ss_region_id :: u32
  ss_pinode_hash :: u64
  ss_pinode :: u64
  ss_offset :: u64

record send_log_resp =
  ls_type :: RespType
  ls_log_status :: u32
  ls_region_id :: u32
  ls_next_log_id :: u32

definition put_fs_resp :: "mem \<Rightarrow> fs_resp \<Rightarrow> mem" where
  "put_fs_resp m r = put_stat (put64 (put32 m 0 (RespType_code (rs_type r))) 8 (rs_inode r)) 16 (rs_stat r)"

definition resp_type :: "mem \<Rightarrow> u32" where "resp_type m = get32 m 0"
definition resp_inode :: "mem \<Rightarrow> u64" where "resp_inode m = get64 m 8"
definition resp_stat :: "mem \<Rightarrow> metafs_stat_t" where "resp_stat m = get_stat m 16"

lemma read_fs_resp [simp]:
  "resp_type (put_fs_resp m r) = RespType_code (rs_type r)"
  "resp_inode (put_fs_resp m r) = rs_inode r"
  "resp_stat (put_fs_resp m r) = rs_stat r"
  by (simp_all add: resp_type_def resp_inode_def resp_stat_def put_fs_resp_def)

text \<open>The readdir response: counts at 4, 8 and 12, the next offset at 16, the entries from 24 on.\<close>

definition put_readdir_resp :: "mem \<Rightarrow> readdir_resp \<Rightarrow> mem" where
  "put_readdir_resp m r =
     mem_write
       (put64 (put32 (put32 (put32 (put32 m 0 (RespType_code (rr_type r))) 4 (rr_is_uncomplete r))
         8 (rr_num_result r)) 12 (rr_entries_len r)) 16 (rr_next_offset r))
       24 (rr_entries r)"

definition rdresp_is_uncomplete :: "mem \<Rightarrow> u32" where "rdresp_is_uncomplete m = get32 m 4"
definition rdresp_num_result :: "mem \<Rightarrow> u32" where "rdresp_num_result m = get32 m 8"
definition rdresp_entries_len :: "mem \<Rightarrow> u32" where "rdresp_entries_len m = get32 m 12"
definition rdresp_next_offset :: "mem \<Rightarrow> u64" where "rdresp_next_offset m = get64 m 16"
definition rdresp_entries :: "mem \<Rightarrow> u8 list" where
  "rdresp_entries m = mem_read m 24 MSG_ENTEY_MAX_SIZE"

lemma read_readdir_resp [simp]:
  "resp_type (put_readdir_resp m r) = RespType_code (rr_type r)"
  "rdresp_is_uncomplete (put_readdir_resp m r) = rr_is_uncomplete r"
  "rdresp_num_result (put_readdir_resp m r) = rr_num_result r"
  "rdresp_entries_len (put_readdir_resp m r) = rr_entries_len r"
  "rdresp_next_offset (put_readdir_resp m r) = rr_next_offset r"
  "length (rr_entries r) = MSG_ENTEY_MAX_SIZE \<Longrightarrow> rdresp_entries (put_readdir_resp m r) = rr_entries r"
  by (simp_all add: resp_type_def rdresp_is_uncomplete_def rdresp_num_result_def
      rdresp_entries_len_def rdresp_next_offset_def rdresp_entries_def put_readdir_resp_def)

text \<open>
  A \<open>ClientRegion\<close> takes 40 bytes (the id, padding, and two keys of \<open>hi\<close> and \<open>low\<close>); the array of
  the region-map response starts at offset 8 and has room for 92 of them.
\<close>

definition sizeof_ClientRegion :: nat where "sizeof_ClientRegion = 40"

definition regionmap_capacity :: nat where
  "regionmap_capacity = MSG_ENTEY_MAX_SIZE div sizeof_ClientRegion"

definition put_ClientRegion :: "mem \<Rightarrow> nat \<Rightarrow> ClientRegion \<Rightarrow> mem" where
  "put_ClientRegion m off r =
     put64 (put64 (put64 (put64 (put32 m off (cr_id r)) (off + 8) (hi (cr_start r)))
       (off + 16) (low (cr_start r))) (off + 24) (hi (cr_end r))) (off + 32) (low (cr_end r))"

definition get_ClientRegion :: "mem \<Rightarrow> nat \<Rightarrow> ClientRegion" where
  "get_ClientRegion m off =
     \<lparr>cr_id = get32 m off, cr_start = \<lparr>hi = get64 m (off + 8), low = get64 m (off + 16)\<rparr>,
      cr_end = \<lparr>hi = get64 m (off + 24), low = get64 m (off + 32)\<rparr>\<rparr>"

primrec put_ClientRegions :: "mem \<Rightarrow> nat \<Rightarrow> ClientRegion list \<Rightarrow> mem" where
  "put_ClientRegions m off [] = m"
| "put_ClientRegions m off (r # rs) = put_ClientRegions (put_ClientRegion m off r) (off + 40) rs"

definition get_ClientRegions :: "mem \<Rightarrow> nat \<Rightarrow> nat \<Rightarrow> ClientRegion list" where
  "get_ClientRegions m off n = map (\<lambda>i. get_ClientRegion m (off + 40 * i)) [0..<n]"

definition put_regionmap_resp :: "mem \<Rightarrow> regionmap_resp \<Rightarrow> mem" where
  "put_regionmap_resp m r =
     put_ClientRegions (put32 (put32 m 0 (RespType_code (rm_type r))) 4 (rm_num_entries r)) 8 (rm_entries r)"

definition regionmap_num_entries :: "mem \<Rightarrow> u32" where "regionmap_num_entries m = get32 m 4"

lemma get_put_ClientRegion [simp]: "get_ClientRegion (put_ClientRegion m off r) off = r"
  by (simp add: get_ClientRegion_def put_ClientRegion_def)

lemma put_ClientRegion_frame:
  "o' + 40 \<le> off \<Longrightarrow> get_ClientRegion (put_ClientRegion m off r) o' = get_ClientRegion m o'"
  "o' + 4 \<le> off \<Longrightarrow> get32 (put_ClientRegion m off r) o' = get32 m o'"
  by (simp_all add: get_ClientRegion_def put_ClientRegion_def)

lemma put_ClientRegions_frame:
  "o' + 40 \<le> off \<Longrightarrow> get_ClientRegion (put_ClientRegions m off rs) o' = get_ClientRegion m o'"
  "o' + 4 \<le> off \<Longrightarrow> get32 (put_ClientRegions m off rs) o' = get32 m o'"
  by (induction rs arbitrary: m off) (simp_all add: put_ClientRegion_frame)

lemma get_put_ClientRegions:
  "get_ClientRegions (put_ClientRegions m off rs) off (length rs) = rs"
proof (induction rs arbitrary: m off)
  case Nil
  then show ?case by (simp add: get_ClientRegions_def)
next
  case (Cons r rs)
  have "get_ClientRegions (put_ClientRegions m off (r # rs)) off (Suc (length rs)) =
      get_ClientRegion (put_ClientRegions m off (r # rs)) off #
      get_ClientRegions (put_ClientRegions m off (r # rs)) (off + 40) (length rs)"
    unfolding get_ClientRegions_def upt_conv_Cons [OF zero_less_Suc] list.map map_Suc_upt [symmetric]
    by (simp add: algebra_simps comp_def)
  then show ?case using Cons.IH by (simp add: put_ClientRegions_frame)
qed

lemma read_regionmap_resp:
  "resp_type (put_regionmap_resp m r) = RespType_code (rm_type r)"
  "regionmap_num_entries (put_regionmap_resp m r) = rm_num_entries r"
  "get_ClientRegions (put_regionmap_resp m r) 8 (length (rm_entries r)) = rm_entries r"
  by (simp_all add: resp_type_def regionmap_num_entries_def put_regionmap_resp_def
      put_ClientRegions_frame get_put_ClientRegions)

end
