(* ===== verification/Handlers.thy ===== *)
theory Handlers
  imports Regions Wire
begin

text \<open>
  The client request handlers of \<open>src/server/server_handler.cc\<close>. A handler reads its request,
  works on the preallocated response buffer (whose old contents it may leave in place), and hands
  the buffer to the transport each time it calls \<open>enqueue_response\<close>: its result is the new state and
  the list of the buffer's contents at those calls. Each handler runs as one step.
\<close>

section \<open>Status and results\<close>

definition check_status_ok :: "MetaKvStatus \<Rightarrow> bool" where
  "check_status_ok status \<longleftrightarrow> status = OK \<or> status = INSERT_OK \<or> status = UPDATE_OK"

primrec convert_status_to_resptype :: "MetaKvStatus \<Rightarrow> crash + RespType" where
  "convert_status_to_resptype OK = Inr kSuccess"
| "convert_status_to_resptype INSERT_OK = Inr kSuccess"
| "convert_status_to_resptype UPDATE_OK = Inr kSuccess"
| "convert_status_to_resptype KEY_ALREADY_EXIST = Inr kEXIST"
| "convert_status_to_resptype VALUE_NOT_EQUAL = Inr kENOENT"
| "convert_status_to_resptype NEWER_UPDATE = Inr kENOENT"
| "convert_status_to_resptype KEY_NOT_EXIST = Inr kENOENT"
| "convert_status_to_resptype NO_ENOUGH_SPACE = Inr kENOENT"
| "convert_status_to_resptype UN_COMPLETED = Inr kENOENT"
| "convert_status_to_resptype UNKNOWN_ERR = Inr kENOENT"
| "convert_status_to_resptype OtherStatus = Inl PAssert"

type_synonym ('db, 'l) server_state = "('db, 'l) server_context \<times> shared"

section \<open>What the handlers share\<close>

text \<open>
  The region is looked up with \<open>region_map[region_id]\<close>: an unknown id yields a null pointer, which
  the next test dereferences. When the hash is not the region's the handler enqueues a response and
  goes on. A region that does not serve requests is answered with \<open>kUpdateRegionMap\<close> or \<open>kEBUSY\<close>.
\<close>

definition with_region ::
  "(RespType \<Rightarrow> 'r \<Rightarrow> 'r) \<Rightarrow> u32 \<Rightarrow> u64 \<Rightarrow> 'r \<Rightarrow>
   (('db, 'l) server_state \<Rightarrow> 'r \<Rightarrow> crash + ('db, 'l) server_state \<times> 'r) \<Rightarrow>
   ('db, 'l) server_state \<Rightarrow> crash + ('db, 'l) server_state \<times> 'r list" where
  "with_region set_type region_id hash resp body s =
     (case region_map (fst s) region_id of
        None \<Rightarrow> Inl NullDeref
      | Some region \<Rightarrow>
          (let foreign = \<not> check_is_blong_to_region region hash;
               resp = (if foreign then set_type kUpdateRegionMap resp else resp);
               sent = (if foreign then [resp] else [])
           in andThen (check_region_status region) (\<lambda>serve.
                if serve
                then andThen (body s resp) (\<lambda>(s, resp). Inr (s, sent @ [resp]))
                else
                  let resp = set_type
                        (if region_status region = SplitAlmostDone then kUpdateRegionMap else kEBUSY) resp
                  in Inr (s, sent @ [resp]))))"

abbreviation set_rs_type :: "RespType \<Rightarrow> fs_resp \<Rightarrow> fs_resp" where
  "set_rs_type t r \<equiv> r\<lparr>rs_type := t\<rparr>"

text \<open>\<open>c_resp->resp_type = convert_status_to_resptype(status)\<close>.\<close>

definition finish_resp ::
  "MetaKvStatus \<Rightarrow> ('db, 'l) server_state \<Rightarrow> fs_resp \<Rightarrow> crash + ('db, 'l) server_state \<times> fs_resp" where
  "finish_resp status s resp =
     andThen (convert_status_to_resptype status) (\<lambda>t. Inr (s, resp\<lparr>rs_type := t\<rparr>))"

text \<open>
  \<open>SliceInit(&fname_slice, strlen(c_req->fname) + 1, ...)\<close>: the name up to its terminator. A name
  field without terminator makes \<open>strlen\<close> run past it.
\<close>

definition with_fname :: "u8 list \<Rightarrow> (u8 list \<Rightarrow> crash + 'a) \<Rightarrow> crash + 'a" where
  "with_fname field f = (case cstr_of field of None \<Rightarrow> Inl OutOfBounds | Some fname \<Rightarrow> f fname)"

definition set_metadb :: "'db \<Rightarrow> ('db, 'l) server_state \<Rightarrow> ('db, 'l) server_state" where
  "set_metadb db s = ((fst s)\<lparr>metadb := db\<rparr>, snd s)"

definition add_kv_num :: "u32 \<Rightarrow> u32 \<Rightarrow> ('db, 'l) server_state \<Rightarrow> ('db, 'l) server_state" where
  "add_kv_num rid n s = (upd_region rid (\<lambda>r. r\<lparr>kv_num := kv_num r + n\<rparr>) (fst s), snd s)"

text \<open>
  After an insertion: above the threshold, a compare-and-swap from \<open>Normal\<close> to \<open>IsSplit\<close> decides who
  splits; while a split is going on (or almost done) the operation is logged.
\<close>

definition maybe_split :: "u32 \<Rightarrow> ('db, 'l) server_state \<Rightarrow> crash + ('db, 'l) server_state" where
  "maybe_split rid s =
     (case region_map (fst s) rid of
        None \<Rightarrow> Inl NullDeref
      | Some region \<Rightarrow>
          if over_threshold region \<and> region_status region = Normal
          then
            let region = region\<lparr>region_status := IsSplit\<rparr>;
                c = upd_region rid (\<lambda>r. r\<lparr>region_status := IsSplit\<rparr>) (fst s)
            in check_region_and_split region (c, snd s)
          else Inr s)"

definition maybe_log ::
  "'l logdb \<Rightarrow> uninit \<Rightarrow> u32 \<Rightarrow> bool \<Rightarrow> u64 \<Rightarrow> u8 list \<Rightarrow> metafs_stat_t option \<Rightarrow> u64 \<Rightarrow>
   ('db, 'l) server_state \<Rightarrow> crash + ('db, 'l) server_state" where
  "maybe_log ldb u rid is_delete_op pinode fname stat inode s =
     (case region_map (fst s) rid of
        None \<Rightarrow> Inl NullDeref
      | Some region \<Rightarrow>
          if region_status region = IsSplit \<or> region_status region = SplitAlmostDone
          then andThen (log_op ldb u rid is_delete_op pinode fname stat inode (fst s))
                 (\<lambda>c. Inr (c, snd s))
          else Inr s)"

section \<open>Handlers that only read\<close>

definition fs_getinode_handler ::
  "'db metakv \<Rightarrow> uninit \<Rightarrow> fs_req \<Rightarrow> fs_resp \<Rightarrow> ('db, 'l) server_state \<Rightarrow>
   crash + ('db, 'l) server_state \<times> fs_resp list" where
  "fs_getinode_handler kv u req resp =
     with_region set_rs_type (rq_region_id req) (rq_pinode_hash req) resp (\<lambda>s resp.
       with_fname (rq_fname req) (\<lambda>fname.
         case GetFileInode kv (metadb (fst s)) (rq_pinode req) (cstring fname) (u_inode u) of
           (status, inode) \<Rightarrow>
             finish_resp status s (if check_status_ok status then resp\<lparr>rs_inode := inode\<rparr> else resp)))"

definition fs_stat_handler ::
  "'db metakv \<Rightarrow> uninit \<Rightarrow> fs_req \<Rightarrow> fs_resp \<Rightarrow> ('db, 'l) server_state \<Rightarrow>
   crash + ('db, 'l) server_state \<times> fs_resp list" where
  "fs_stat_handler kv u req resp =
     with_region set_rs_type (rq_region_id req) (rq_pinode_hash req) resp (\<lambda>s resp.
       with_fname (rq_fname req) (\<lambda>fname.
         case GetFileInode kv (metadb (fst s)) (rq_pinode req) (cstring fname) (u_inode u) of
           (status, inode) \<Rightarrow>
             if check_status_ok status
             then case GetStat kv (metadb (fst s)) inode (rs_stat resp) of
               (status, stat) \<Rightarrow> finish_resp status s (resp\<lparr>rs_stat := stat, rs_inode := inode\<rparr>)
             else finish_resp status s resp))"

text \<open>
  Opening for writing refreshes the modification and access times, with the \<open>now\<close> of
  \<open>gettimeofday\<close>. The inode is stored in the response even when the lookup failed.
\<close>

definition wants_write :: "u32 \<Rightarrow> bool" where
  "wants_write mode \<longleftrightarrow> mode AND 3 = 1 \<or> mode AND 3 = 2"

definition fs_open_handler ::
  "'db metakv \<Rightarrow> uninit \<Rightarrow> u64 \<Rightarrow> fs_mode_req \<Rightarrow> fs_resp \<Rightarrow> ('db, 'l) server_state \<Rightarrow>
   crash + ('db, 'l) server_state \<times> fs_resp list" where
  "fs_open_handler kv u now req resp =
     with_region set_rs_type (rq_region_id req) (rq_pinode_hash req) resp (\<lambda>s resp.
       with_fname (rq_fname req) (\<lambda>fname.
         case GetFileInode kv (metadb (fst s)) (rq_pinode req) (cstring fname) (u_inode u) of
           (status, inode) \<Rightarrow>
             if check_status_ok status
             then case GetStat kv (metadb (fst s)) inode (rs_stat resp) of
               (status, stat) \<Rightarrow>
                 if check_status_ok status \<and> wants_write (rq_mode req)
                 then
                   let stat = stat\<lparr>st_mtime := now, st_atime := now\<rparr>
                   in case UpdateStat kv (metadb (fst s)) inode stat of
                        (status, db) \<Rightarrow>
                          finish_resp status (set_metadb db s) (resp\<lparr>rs_stat := stat, rs_inode := inode\<rparr>)
                 else finish_resp status s (resp\<lparr>rs_stat := stat, rs_inode := inode\<rparr>)
             else finish_resp status s (resp\<lparr>rs_inode := inode\<rparr>)))"

section \<open>Creating and removing\<close>

text \<open>An inode number is taken in any case; the attributes stay on the server.\<close>

definition fs_mknod_handler ::
  "'db metakv \<Rightarrow> 'l logdb \<Rightarrow> uninit \<Rightarrow> fs_mknod_req \<Rightarrow> fs_resp \<Rightarrow> ('db, 'l) server_state \<Rightarrow>
   crash + ('db, 'l) server_state \<times> fs_resp list" where
  "fs_mknod_handler kv ldb u req resp =
     with_region set_rs_type (rq_region_id req) (rq_pinode_hash req) resp (\<lambda>s resp.
       let inode = alloc_inode (fst s);
           s = ((fst s)\<lparr>alloc_inode := inode + 1\<rparr>, snd s);
           stat = stat_of_oid (u_tv u) (rq_oid req) (rq_mode req)
       in with_fname (rq_fname req) (\<lambda>fname.
         case InsertFileInode kv (metadb (fst s)) (rq_pinode req) (cstring fname) inode of
           (status, db) \<Rightarrow>
             (case (if check_status_ok status
                    then case InsertStat kv db inode stat of
                      (status, db) \<Rightarrow>
                        (status, add_kv_num (rq_region_id req) 1 (set_metadb db s),
                         resp\<lparr>rs_inode := inode\<rparr>)
                    else (status, set_metadb db s, resp)) of
                (status, s, resp) \<Rightarrow>
                  andThen (maybe_split (rq_region_id req) s) (\<lambda>s.
                  andThen (maybe_log ldb u (rq_region_id req) False (rq_pinode req) fname (Some stat) inode s)
                    (\<lambda>s. finish_resp status s resp)))))"

text \<open>
  A new directory is also entered in the table of directories the region may have to migrate,
  unless a split is going on. \<open>xxh\<close> is \<open>XXH3_64bits\<close> of the inode's eight bytes.
\<close>

definition add_pinode :: "u64 \<Rightarrow> u64 \<Rightarrow> (u64 \<rightharpoonup> u64 list) \<Rightarrow> (u64 \<rightharpoonup> u64 list)" where
  "add_pinode h inode t =
     t(h \<mapsto> insort_insert inode (case t h of None \<Rightarrow> [] | Some is \<Rightarrow> is))"

definition fs_mkdir_handler ::
  "'db metakv \<Rightarrow> 'l logdb \<Rightarrow> (u64 \<Rightarrow> u64) \<Rightarrow> uninit \<Rightarrow> fs_mode_req \<Rightarrow> fs_resp \<Rightarrow> ('db, 'l) server_state \<Rightarrow>
   crash + ('db, 'l) server_state \<times> fs_resp list" where
  "fs_mkdir_handler kv ldb xxh u req resp =
     with_region set_rs_type (rq_region_id req) (rq_pinode_hash req) resp (\<lambda>s resp.
       let inode = alloc_inode (fst s) OR inode_prefix_msb;
           s = ((fst s)\<lparr>alloc_inode := alloc_inode (fst s) + 1\<rparr>, snd s);
           stat = stat_of_mode (u_tv u) (rq_mode req)
       in with_fname (rq_fname req) (\<lambda>fname.
         case InsertFileInode kv (metadb (fst s)) (rq_pinode req) (cstring fname) inode of
           (status, db) \<Rightarrow>
             (case (if check_status_ok status
                    then case InsertStat kv db inode stat of
                      (status, db) \<Rightarrow>
                        (let s = add_kv_num (rq_region_id req) 1 (set_metadb db s);
                             quiet = (case region_map (fst s) (rq_region_id req) of
                                        None \<Rightarrow> False
                                      | Some r \<Rightarrow> region_status r = Normal \<or> region_status r = ToBeSplit);
                             h = xxh inode mod ucast PINODE_HASH_RANGE;
                             s = (if quiet
                                  then ((fst s)\<lparr>pinode_table := add_pinode h inode (pinode_table (fst s))\<rparr>, snd s)
                                  else s)
                         in (status, s, resp\<lparr>rs_inode := inode\<rparr>))
                    else (status, set_metadb db s, resp)) of
                (status, s, resp) \<Rightarrow>
                  andThen (maybe_split (rq_region_id req) s) (\<lambda>s.
                  andThen (maybe_log ldb u (rq_region_id req) False (rq_pinode req) fname (Some stat) inode s)
                    (\<lambda>s. finish_resp status s resp)))))"

definition fs_unlink_handler ::
  "'db metakv \<Rightarrow> 'l logdb \<Rightarrow> uninit \<Rightarrow> fs_req \<Rightarrow> fs_resp \<Rightarrow> ('db, 'l) server_state \<Rightarrow>
   crash + ('db, 'l) server_state \<times> fs_resp list" where
  "fs_unlink_handler kv ldb u req resp =
     with_region set_rs_type (rq_region_id req) (rq_pinode_hash req) resp (\<lambda>s resp.
       with_fname (rq_fname req) (\<lambda>fname.
         case DeleteFileInode kv (metadb (fst s)) (rq_pinode req) (cstring fname) (u_inode u) of
           (status, inode, db) \<Rightarrow>
             (case (if check_status_ok status
                    then case DeleteStat kv db inode of
                      (status, db) \<Rightarrow> (status, add_kv_num (rq_region_id req) (- 1) (set_metadb db s))
                    else (status, set_metadb db s)) of
                (status, s) \<Rightarrow>
                  andThen (maybe_log ldb u (rq_region_id req) True (rq_pinode req) fname None 0 s)
                    (\<lambda>s. finish_resp status s resp))))"

text \<open>
  \<open>has_files\<close> is computed as the comparison of the entry count with zero. The count of the region
  goes down whenever the deletion was attempted.
\<close>

definition fs_rmdir_handler ::
  "'db metakv \<Rightarrow> 'l logdb \<Rightarrow> uninit \<Rightarrow> fs_req \<Rightarrow> fs_resp \<Rightarrow> ('db, 'l) server_state \<Rightarrow>
   crash + ('db, 'l) server_state \<times> fs_resp list" where
  "fs_rmdir_handler kv ldb u req resp =
     with_region set_rs_type (rq_region_id req) (rq_pinode_hash req) resp (\<lambda>s resp.
       with_fname (rq_fname req) (\<lambda>fname.
         case GetFileInode kv (metadb (fst s)) (rq_pinode req) (cstring fname) (u_inode u) of
           (status, inode) \<Rightarrow>
             if \<not> is_directory inode then finish_resp KEY_NOT_EXIST s resp
             else if \<not> check_status_ok status then finish_resp status s resp
             else
               case ReadDir kv (metadb (fst s)) inode 0 256 of
                 (status, res) \<Rightarrow>
                   (case (case res of
                            None \<Rightarrow> (OK, False)
                          | Some scan \<Rightarrow> (status, rel_count scan = 0)) of
                      (status, has_files) \<Rightarrow>
                        if check_status_ok status \<and> \<not> has_files
                        then
                          case DeleteFileInode kv (metadb (fst s)) (rq_pinode req) (cstring fname) inode of
                            (status, inode, db) \<Rightarrow>
                              (case (if check_status_ok status then DeleteStat kv db inode else (status, db)) of
                                 (status, db) \<Rightarrow>
                                   andThen (maybe_log ldb u (rq_region_id req) True (rq_pinode req) fname None 0
                                       (add_kv_num (rq_region_id req) (- 1) (set_metadb db s)))
                                     (\<lambda>s. finish_resp status s resp))
                        else finish_resp status s resp)))"

section \<open>Reading a directory\<close>

text \<open>
  The header's length counts the 32 bytes of the header itself. The copy into the 3712-byte array
  must stay inside it and inside the buffer.
\<close>

definition copy_entries :: "u32 \<Rightarrow> u8 list \<Rightarrow> u8 list \<Rightarrow> crash + u8 list" where
  "copy_entries len src old =
     (if 0 \<le> sint len \<and> unat len \<le> MSG_ENTEY_MAX_SIZE \<and> unat len \<le> length src
      then Inr (take (unat len) src @ drop (unat len) old) else Inl OutOfBounds)"

definition fs_readdir_handler ::
  "'db metakv \<Rightarrow> fs_readdir_req \<Rightarrow> readdir_resp \<Rightarrow> ('db, 'l) server_state \<Rightarrow>
   crash + ('db, 'l) server_state \<times> readdir_resp list" where
  "fs_readdir_handler kv req resp =
     with_region (\<lambda>t r. r\<lparr>rr_type := t\<rparr>) (rd_region_id req) (rd_inode_hash req) resp (\<lambda>s resp.
       case ReadDir kv (metadb (fst s)) (rd_inode req) (rd_offset req) MSG_ENTEY_MAX_SIZE of
         (status, res) \<Rightarrow>
           andThen
             (if check_status_ok status
              then case res of
                None \<Rightarrow> Inl NullDeref
              | Some scan \<Rightarrow>
                  if \<not> sint (rel_count scan) \<le> int MSG_ENTEY_MAX_SIZE then Inl AssertFail
                  else
                    andThen (copy_entries (ucast (rel_len scan - 32)) (scan_bytes scan) (rr_entries resp))
                      (\<lambda>bytes. Inr (resp\<lparr>rr_next_offset := new_offset scan,
                         rr_is_uncomplete := ucast (is_uncomplete scan),
                         rr_num_result := ucast (rel_count scan),
                         rr_entries_len := ucast (rel_len scan - 32), rr_entries := bytes\<rparr>))
              else Inr resp)
             (\<lambda>resp.
                case (if res = None then (OK, resp\<lparr>rr_num_result := 0\<rparr>) else (status, resp)) of
                  (status, resp) \<Rightarrow>
                    andThen (convert_status_to_resptype status) (\<lambda>t. Inr (s, resp\<lparr>rr_type := t\<rparr>))))"

section \<open>Reading the region map\<close>

text \<open>One entry per region, without regard to the 92 the array has room for.\<close>

definition read_region_map_handler ::
  "regionmap_resp \<Rightarrow> ('db, 'l) server_state \<Rightarrow> crash + ('db, 'l) server_state \<times> regionmap_resp list" where
  "read_region_map_handler resp s =
     (let entries = map snd (global_region_map (snd s))
      in if length entries \<le> regionmap_capacity
         then Inr (s, [resp\<lparr>rm_entries := entries, rm_type := kSuccess,
                          rm_num_entries := of_nat (length entries)\<rparr>])
         else Inl OutOfBounds)"

section \<open>Dispatch\<close>

text \<open>
  What the handlers take from outside: the two stores, the hash, uninitialised memory and the
  clock.
\<close>

record ('db, 'l) env =
  e_kv :: "'db metakv"
  e_log :: "'l logdb"
  e_xxh :: "u64 \<Rightarrow> u64"
  e_uninit :: uninit
  e_now :: u64

text \<open>The preallocated response buffer as the handlers' members see it.\<close>

definition RespType_of :: "u32 \<Rightarrow> RespType" where
  "RespType_of w =
     (if w = 0 then kSuccess else if w = 1 then kFail else if w = 2 then kEXIST
      else if w = 3 then kENOENT else if w = 4 then kEIO else if w = 5 then kENOTDIR
      else if w = 6 then kEISDIR else if w = 7 then kEBUSY else if w = 8 then kUpdateRegionMap
      else kFail)"

definition get_fs_resp :: "mem \<Rightarrow> fs_resp" where
  "get_fs_resp m = \<lparr>rs_type = RespType_of (resp_type m), rs_inode = resp_inode m, rs_stat = resp_stat m\<rparr>"

definition get_readdir_resp :: "mem \<Rightarrow> readdir_resp" where
  "get_readdir_resp m =
     \<lparr>rr_type = RespType_of (resp_type m), rr_is_uncomplete = rdresp_is_uncomplete m,
      rr_num_result = rdresp_num_result m, rr_entries_len = rdresp_entries_len m,
      rr_next_offset = rdresp_next_offset m, rr_entries = rdresp_entries m\<rparr>"

definition send_all :: "('r \<Rightarrow> mem) \<Rightarrow> crash + 's \<times> 'r list \<Rightarrow> crash + 's \<times> mem list" where
  "send_all put res = andThen res (\<lambda>(s, rs). Inr (s, map put rs))"

text \<open>
  The request functions \<open>init_and_start_loop\<close> registers for the clients' request types; the others
  are those of the migration. \<open>req\<close> is the request message and \<open>pre\<close> the response buffer.
\<close>

definition fs_dispatch ::
  "('db, 'l) env \<Rightarrow> kReqType \<Rightarrow> mem \<Rightarrow> mem \<Rightarrow> ('db, 'l) server_state \<Rightarrow>
   crash + ('db, 'l) server_state \<times> mem list" where
  "fs_dispatch e t req pre s =
     (let fs = send_all (put_fs_resp pre); resp = get_fs_resp pre; u = e_uninit e
      in case t of
        kFSOpenReq \<Rightarrow> fs (fs_open_handler (e_kv e) u (e_now e) (FSOpenReq req) resp s)
      | kFSUnlinkReq \<Rightarrow> fs (fs_unlink_handler (e_kv e) (e_log e) u (FSUnlinkReq req) resp s)
      | kFSStatReq \<Rightarrow> fs (fs_stat_handler (e_kv e) u (FSStatReq req) resp s)
      | kFSMknodReq \<Rightarrow> fs (fs_mknod_handler (e_kv e) (e_log e) u (FSMknodReq req) resp s)
      | kFSMkdirReq \<Rightarrow> fs (fs_mkdir_handler (e_kv e) (e_log e) (e_xxh e) u (FSMkdirReq req) resp s)
      | kFSRmdirReq \<Rightarrow> fs (fs_rmdir_handler (e_kv e) (e_log e) u (FSRmdirReq req) resp s)
      | kFSReaddirReq \<Rightarrow>
          send_all (put_readdir_resp pre)
            (fs_readdir_handler (e_kv e) (FSReaddirReq req) (get_readdir_resp pre) s)
      | kFSGetinodeReq \<Rightarrow> fs (fs_getinode_handler (e_kv e) u (FSGetinodeReq req) resp s)
      | kReadRegionmap \<Rightarrow>
          send_all (put_regionmap_resp pre)
            (read_region_map_handler \<lparr>rm_type = RespType_of (resp_type pre),
               rm_num_entries = regionmap_num_entries pre, rm_entries = []\<rparr> s)
      | _ \<Rightarrow> Inl Uncaught)"

text \<open>The eight requests on files and directories, and the region id and hash they carry.\<close>

definition is_fs_request :: "kReqType \<Rightarrow> bool" where
  "is_fs_request t \<longleftrightarrow> t \<in> {kFSOpenReq, kFSUnlinkReq, kFSStatReq, kFSMknodReq, kFSReaddirReq,
     kFSMkdirReq, kFSRmdirReq, kFSGetinodeReq}"

definition req_region :: "mem \<Rightarrow> u32" where "req_region m = get32 m 0"

definition req_hash :: "kReqType \<Rightarrow> mem \<Rightarrow> u64" where
  "req_hash t m = (if t = kFSMknodReq then get64 m 32 else get64 m 16)"

section \<open>The contract of a guarded handler\<close>

text \<open>
  Every request handler is its region guard around a body. What follows from the guard alone is
  proved once.
\<close>

locale guarded_handler =
  fixes handler :: "'q \<Rightarrow> 'r \<Rightarrow> ('db, 'l) server_state \<Rightarrow> crash + ('db, 'l) server_state \<times> 'r list"
    and set_type :: "RespType \<Rightarrow> 'r \<Rightarrow> 'r"
    and rid :: "'q \<Rightarrow> u32"
    and hash :: "'q \<Rightarrow> u64"
  assumes guarded: "\<exists>body. \<forall>r s. handler q r s = with_region set_type (rid q) (hash q) r body s"
begin

lemma unknown_region:
  assumes "region_map (fst s) (rid q) = None"
  shows "handler q r s = Inl NullDeref"
proof -
  from guarded [of q] obtain body where
    "\<forall>r s. handler q r s = with_region set_type (rid q) (hash q) r body s" ..
  note b = this [rule_format]
  show ?thesis unfolding b using assms by (simp add: with_region_def)
qed

lemma response_count:
  assumes "handler q r s = Inr (s', rs)"
  shows "\<exists>region. region_map (fst s) (rid q) = Some region \<and>
    length rs = (if check_is_blong_to_region region (hash q) then 1 else 2)"
proof -
  from guarded [of q] obtain body where
    "\<forall>r s. handler q r s = with_region set_type (rid q) (hash q) r body s" ..
  note b = this [rule_format]
  from assms show ?thesis
    unfolding b by (auto simp: with_region_def Let_def split: option.splits if_splits)
qed

lemma not_serving:
  assumes "region_map (fst s) (rid q) = Some region" "region_status region \<in> {SplitAlmostDone, NotReady}"
  shows "handler q r s =
    (let busy = set_type (if region_status region = SplitAlmostDone then kUpdateRegionMap else kEBUSY)
     in Inr (s, if check_is_blong_to_region region (hash q) then [busy r]
                else [set_type kUpdateRegionMap r, busy (set_type kUpdateRegionMap r)]))"
proof -
  from guarded [of q] obtain body where
    "\<forall>r s. handler q r s = with_region set_type (rid q) (hash q) r body s" ..
  note b = this [rule_format]
  from assms(2) show ?thesis
    unfolding b by (elim insertE emptyE) (simp_all add: with_region_def assms(1) Let_def)
qed

lemma foreign_runs_anyway:
  assumes "region_map (fst s) (rid q) = Some region" "\<not> check_is_blong_to_region region (hash q)"
    and "handler q r s = Inr (s', rs)"
  shows "\<exists>r2. rs = [set_type kUpdateRegionMap r, r2]"
proof -
  from guarded [of q] obtain body where
    "\<forall>r s. handler q r s = with_region set_type (rid q) (hash q) r body s" ..
  note b = this [rule_format]
  from assms show ?thesis
    unfolding b by (auto simp: with_region_def Let_def split: if_splits)
qed

end

interpretation getinode: guarded_handler "fs_getinode_handler kv u" set_rs_type rq_region_id rq_pinode_hash
  by unfold_locales (auto simp: fs_getinode_handler_def)

interpretation fsstat: guarded_handler "fs_stat_handler kv u" set_rs_type rq_region_id rq_pinode_hash
  by unfold_locales (auto simp: fs_stat_handler_def)

interpretation fsopen: guarded_handler "fs_open_handler kv u now" set_rs_type rq_region_id rq_pinode_hash
  by unfold_locales (auto simp: fs_open_handler_def)

interpretation mknod: guarded_handler "fs_mknod_handler kv ldb u" set_rs_type rq_region_id rq_pinode_hash
  by unfold_locales (auto simp: fs_mknod_handler_def)

interpretation mkdir: guarded_handler "fs_mkdir_handler kv ldb xxh u" set_rs_type rq_region_id rq_pinode_hash
  by unfold_locales (auto simp: fs_mkdir_handler_def)

interpretation unlink: guarded_handler "fs_unlink_handler kv ldb u" set_rs_type rq_region_id rq_pinode_hash
  by unfold_locales (auto simp: fs_unlink_handler_def)

interpretation rmdir: guarded_handler "fs_rmdir_handler kv ldb u" set_rs_type rq_region_id rq_pinode_hash
  by unfold_locales (auto simp: fs_rmdir_handler_def)

interpretation readdir: guarded_handler "fs_readdir_handler kv" "\<lambda>t r. r\<lparr>rr_type := t\<rparr>" rd_region_id
  rd_inode_hash
  by unfold_locales (auto simp: fs_readdir_handler_def)

lemma req_fields:
  "rq_region_id (FSOpenReq m) = req_region m" "rq_pinode_hash (FSOpenReq m) = req_hash kFSOpenReq m"
  "rq_region_id (FSUnlinkReq m) = req_region m" "rq_pinode_hash (FSUnlinkReq m) = req_hash kFSUnlinkReq m"
  "rq_region_id (FSStatReq m) = req_region m" "rq_pinode_hash (FSStatReq m) = req_hash kFSStatReq m"
  "rq_region_id (FSMknodReq m) = req_region m" "rq_pinode_hash (FSMknodReq m) = req_hash kFSMknodReq m"
  "rq_region_id (FSMkdirReq m) = req_region m" "rq_pinode_hash (FSMkdirReq m) = req_hash kFSMkdirReq m"
  "rq_region_id (FSRmdirReq m) = req_region m" "rq_pinode_hash (FSRmdirReq m) = req_hash kFSRmdirReq m"
  "rq_region_id (FSGetinodeReq m) = req_region m"
  "rq_pinode_hash (FSGetinodeReq m) = req_hash kFSGetinodeReq m"
  "rd_region_id (FSReaddirReq m) = req_region m" "rd_inode_hash (FSReaddirReq m) = req_hash kFSReaddirReq m"
  by (simp_all add: layout_simps req_region_def req_hash_def)

lemma send_all_Inr: "send_all put res = Inr (s', rs) \<longleftrightarrow> (\<exists>rs0. res = Inr (s', rs0) \<and> rs = map put rs0)"
  by (auto simp: send_all_def)

lemmas dispatch_simps = fs_dispatch_def send_all_Inr Let_def

end
