(* ===== verification/HandlerProps.thy ===== *)
theory HandlerProps
  imports Handlers
begin

text \<open>
  What the request handlers do on a region that serves the request: each of them refines an
  operation of an abstract namespace, under the laws of the stores; what they log, what they leave
  unchanged, and where they depart from what a client expects.
\<close>

section \<open>Served requests\<close>

text \<open>The region named by a request serves it: right hash, and a status that accepts requests.\<close>

definition serves :: "('db, 'l) server_state \<Rightarrow> u32 \<Rightarrow> u64 \<Rightarrow> bool" where
  "serves s rid hash \<longleftrightarrow>
     (case region_map (fst s) rid of
        None \<Rightarrow> False
      | Some r \<Rightarrow> check_is_blong_to_region r hash \<and> (region_status r = Normal \<or> region_status r = IsSplit))"

lemma with_region_serves:
  assumes "serves s rid hash"
  shows "with_region set_type rid hash resp body s = andThen (body s resp) (\<lambda>(s, resp). Inr (s, [resp]))"
  using assms by (auto simp: serves_def with_region_def Let_def split: option.splits)

text \<open>What a step leaves of the state besides the two stores: the clients of a region see the same regions.\<close>

definition same_service :: "('db, 'l) server_state \<Rightarrow> ('db, 'l) server_state \<Rightarrow> bool" where
  "same_service s s' \<longleftrightarrow> (\<forall>rid hash. serves s rid hash \<longrightarrow> serves s' rid hash)"

lemma same_service_refl [simp]: "same_service s s"
  by (simp add: same_service_def)

lemma same_service_trans: "same_service a b \<Longrightarrow> same_service b c \<Longrightarrow> same_service a c"
  by (simp add: same_service_def)

lemma same_service_upd:
  assumes "\<And>r. start_key (f r) = start_key r \<and> end_key (f r) = end_key r"
    and "\<And>r. region_status r = Normal \<or> region_status r = IsSplit \<Longrightarrow>
           region_status (f r) = Normal \<or> region_status (f r) = IsSplit"
  shows "same_service (c, g) (upd_region rid f c, g')"
  using assms by (auto simp: same_service_def serves_def upd_region_def check_is_blong_to_region_def
      split: option.splits)

lemma same_service_regions:
  "region_map (fst s') = region_map (fst s) \<Longrightarrow> same_service s s'"
  by (simp add: same_service_def serves_def)

lemma same_service_insert:
  "region_map (fst s') = map_insert rid r (region_map (fst s)) \<Longrightarrow> same_service s s'"
  by (auto simp: same_service_def serves_def map_insert_def split: option.splits)

lemma check_region_and_split_frame:
  assumes "check_region_and_split region s = Inr s'"
  shows "metadb (fst s') = metadb (fst s) \<and> log_db (fst s') = log_db (fst s) \<and>
    alloc_inode (fst s') = alloc_inode (fst s) \<and> same_service s s'"
proof -
  obtain c g where s: "s = (c, g)" by (cases s)
  show ?thesis
    using assms
    by (auto simp: s check_region_and_split_def Let_def split: if_splits option.splits prod.splits
        intro: same_service_insert)
qed

lemma maybe_split_frame:
  assumes "maybe_split rid s = Inr s'"
  shows "metadb (fst s') = metadb (fst s) \<and> log_db (fst s') = log_db (fst s) \<and>
    alloc_inode (fst s') = alloc_inode (fst s) \<and> same_service s s'"
proof -
  obtain c g where s: "s = (c, g)" by (cases s)
  let ?c = "upd_region rid (\<lambda>r. r\<lparr>region_status := IsSplit\<rparr>) c"
  have upd: "same_service (c, g) (?c, g)"
    by (rule same_service_upd) auto
  from assms obtain region where
    "s' = s \<or> check_region_and_split (region\<lparr>region_status := IsSplit\<rparr>) (?c, g) = Inr s'"
    by (auto simp: s maybe_split_def Let_def split: if_splits option.splits)
  then show ?thesis
  proof
    assume "check_region_and_split (region\<lparr>region_status := IsSplit\<rparr>) (?c, g) = Inr s'"
    from check_region_and_split_frame [OF this] upd show ?thesis
      by (auto simp: s intro: same_service_trans)
  qed simp
qed

lemma maybe_log_frame:
  assumes "maybe_log ldb u rid del pinode fname st inode s = Inr s'"
  shows "metadb (fst s') = metadb (fst s) \<and> alloc_inode (fst s') = alloc_inode (fst s) \<and>
    same_service s s'"
proof -
  obtain c g where s: "s = (c, g)" by (cases s)
  have upd: "same_service (c, g) (upd_region rid (\<lambda>r. r\<lparr>log_id := log_id r + 1\<rparr>) c\<lparr>log_db := l\<rparr>, g)" for l
    by (rule same_service_trans [OF same_service_upd [of "\<lambda>r. r\<lparr>log_id := log_id r + 1\<rparr>"]])
      (auto intro: same_service_regions)
  from assms consider "s' = s" | c' where "log_op ldb u rid del pinode fname st inode c = Inr c'" "s' = (c', g)"
    by (auto simp: s maybe_log_def split: if_splits option.splits)
  then show ?thesis
  proof cases
    case 2
    from log_op_InrD [OF 2(1)] 2(2) upd show ?thesis by (auto simp: s)
  qed simp
qed

lemma finish_resp_Inr:
  "finish_resp status s resp = Inr (s', r) \<longleftrightarrow>
     s' = s \<and> (\<exists>t. convert_status_to_resptype status = Inr t \<and> r = resp\<lparr>rs_type := t\<rparr>)"
  by (auto simp: finish_resp_def)

lemma set_metadb_frame [simp]:
  "metadb (fst (set_metadb db s)) = db" "snd (set_metadb db s) = snd s"
  "alloc_inode (fst (set_metadb db s)) = alloc_inode (fst s)"
  "region_map (fst (set_metadb db s)) = region_map (fst s)"
  by (simp_all add: set_metadb_def)

lemma add_kv_num_frame [simp]:
  "metadb (fst (add_kv_num rid n s)) = metadb (fst s)" "snd (add_kv_num rid n s) = snd s"
  "alloc_inode (fst (add_kv_num rid n s)) = alloc_inode (fst s)"
  by (simp_all add: add_kv_num_def)

lemma same_service_store [simp]:
  "same_service s (set_metadb db s)"
  "same_service s (add_kv_num rid n s)"
  "same_service s ((fst s)\<lparr>alloc_inode := i\<rparr>, g)"
proof -
  show "same_service s (add_kv_num rid n s)"
    using same_service_upd [of "\<lambda>r. r\<lparr>kv_num := kv_num r + n\<rparr>" "fst s" "snd s" rid "snd s"]
    by (simp add: add_kv_num_def)
qed (auto intro: same_service_regions)

lemmas frames = maybe_split_frame maybe_log_frame

text \<open>The tail of a creating handler: split, log, answer.\<close>

lemma create_tail:
  assumes "andThen (maybe_split rid s1) (\<lambda>s. andThen (maybe_log ldb u rid del p f st i s)
      (\<lambda>s. finish_resp status s resp)) = Inr (s', r)"
  shows "metadb (fst s') = metadb (fst s1) \<and> alloc_inode (fst s') = alloc_inode (fst s1) \<and>
    same_service s1 s' \<and> (\<exists>t. convert_status_to_resptype status = Inr t \<and> r = resp\<lparr>rs_type := t\<rparr>)"
proof -
  from assms obtain s2 where "maybe_split rid s1 = Inr s2" "maybe_log ldb u rid del p f st i s2 = Inr s'"
    "\<exists>t. convert_status_to_resptype status = Inr t \<and> r = resp\<lparr>rs_type := t\<rparr>"
    by (auto simp: finish_resp_Inr)
  then show ?thesis using frames(1) [of rid s1 s2] frames(2) [of ldb u rid del p f st i s2 s']
    by (auto intro: same_service_trans)
qed

lemma same_service_created:
  "same_service s (add_kv_num rid n (set_metadb db ((fst s)\<lparr>alloc_inode := i\<rparr>, g)))"
  "same_service s (set_metadb db ((fst s)\<lparr>alloc_inode := i\<rparr>, g))"
  "same_service s (add_kv_num rid n (set_metadb db s))"
  by (auto simp: same_service_def serves_def add_kv_num_def upd_region_def set_metadb_def
      check_is_blong_to_region_def split: option.splits if_splits)

lemma mknod_run_ok:
  assumes "serves s (rq_region_id req) (rq_pinode_hash req)" "cstr_of (rq_fname req) = Some f"
    and "fs_mknod_handler kv ldb u req resp s = Inr (s', rs)"
    and "InsertFileInode kv (metadb (fst s)) (rq_pinode req) (cstring f) (alloc_inode (fst s)) = (st1, db1)"
    and "check_status_ok st1"
    and "InsertStat kv db1 (alloc_inode (fst s)) (stat_of_oid (u_tv u) (rq_oid req) (rq_mode req)) = (st2, db2)"
  shows "alloc_inode (fst s') = alloc_inode (fst s) + 1 \<and> same_service s s' \<and> metadb (fst s') = db2 \<and>
    (\<exists>t. convert_status_to_resptype st2 = Inr t \<and> rs = [resp\<lparr>rs_inode := alloc_inode (fst s), rs_type := t\<rparr>])"
proof -
  from assms(3) obtain r where rs: "rs = [r]" and run:
    "andThen (maybe_split (rq_region_id req)
        (add_kv_num (rq_region_id req) 1
          (set_metadb db2 ((fst s)\<lparr>alloc_inode := alloc_inode (fst s) + 1\<rparr>, snd s)))) (\<lambda>s1.
       andThen (maybe_log ldb u (rq_region_id req) False (rq_pinode req) f
           (Some (stat_of_oid (u_tv u) (rq_oid req) (rq_mode req))) (alloc_inode (fst s)) s1)
         (\<lambda>s1. finish_resp st2 s1 (resp\<lparr>rs_inode := alloc_inode (fst s)\<rparr>))) = Inr (s', r)"
    by (auto simp: fs_mknod_handler_def with_region_serves [OF assms(1)] with_fname_def assms(2,4-) Let_def)
  from create_tail [OF run] show ?thesis
    by (auto simp: rs intro: same_service_trans [OF same_service_created(1)])
qed

lemma mknod_run_fail:
  assumes "serves s (rq_region_id req) (rq_pinode_hash req)" "cstr_of (rq_fname req) = Some f"
    and "fs_mknod_handler kv ldb u req resp s = Inr (s', rs)"
    and "InsertFileInode kv (metadb (fst s)) (rq_pinode req) (cstring f) (alloc_inode (fst s)) = (st1, db1)"
    and "\<not> check_status_ok st1"
  shows "alloc_inode (fst s') = alloc_inode (fst s) + 1 \<and> same_service s s' \<and> metadb (fst s') = db1 \<and>
    (\<exists>t. convert_status_to_resptype st1 = Inr t \<and> rs = [resp\<lparr>rs_type := t\<rparr>])"
proof -
  from assms(3) obtain r where rs: "rs = [r]" and run:
    "andThen (maybe_split (rq_region_id req)
        (set_metadb db1 ((fst s)\<lparr>alloc_inode := alloc_inode (fst s) + 1\<rparr>, snd s))) (\<lambda>s1.
       andThen (maybe_log ldb u (rq_region_id req) False (rq_pinode req) f
           (Some (stat_of_oid (u_tv u) (rq_oid req) (rq_mode req))) (alloc_inode (fst s)) s1)
         (\<lambda>s1. finish_resp st1 s1 resp)) = Inr (s', r)"
    by (auto simp: fs_mknod_handler_def with_region_serves [OF assms(1)] with_fname_def assms(2,4-) Let_def)
  from create_tail [OF run] show ?thesis
    by (auto simp: rs intro: same_service_trans [OF same_service_created(2)])
qed

lemma stat_run:
  assumes "serves s (rq_region_id req) (rq_pinode_hash req)" "cstr_of (rq_fname req) = Some f"
    and "name_laws kv names attrs" "attr_laws kv names attrs"
  shows "fs_stat_handler kv u req resp s =
    (case names (metadb (fst s)) (rq_pinode req, cstring f) of
       None \<Rightarrow> Inr (s, [resp\<lparr>rs_type := kENOENT\<rparr>])
     | Some i \<Rightarrow> (case attrs (metadb (fst s)) i of
         None \<Rightarrow> Inr (s, [resp\<lparr>rs_inode := i, rs_type := kENOENT\<rparr>])
       | Some st \<Rightarrow> Inr (s, [resp\<lparr>rs_stat := st, rs_inode := i, rs_type := kSuccess\<rparr>])))"
  by (auto simp: fs_stat_handler_def with_region_serves [OF assms(1)] with_fname_def assms(2)
      name_laws_get [OF assms(3)] attr_laws_get [OF assms(4)] check_status_ok_def finish_resp_def
      split: option.splits)

lemma getinode_run:
  assumes "serves s (rq_region_id req) (rq_pinode_hash req)" "cstr_of (rq_fname req) = Some f"
    and "name_laws kv names attrs"
  shows "fs_getinode_handler kv u req resp s =
    (case names (metadb (fst s)) (rq_pinode req, cstring f) of
       None \<Rightarrow> Inr (s, [resp\<lparr>rs_type := kENOENT\<rparr>])
     | Some i \<Rightarrow> Inr (s, [resp\<lparr>rs_inode := i, rs_type := kSuccess\<rparr>]))"
  by (auto simp: fs_getinode_handler_def with_region_serves [OF assms(1)] with_fname_def assms(2)
      name_laws_get [OF assms(3)] check_status_ok_def finish_resp_def split: option.splits)

lemma mkdir_run_ok:
  assumes "serves s (rq_region_id req) (rq_pinode_hash req)" "cstr_of (rq_fname req) = Some f"
    and "fs_mkdir_handler kv ldb xxh u req resp s = Inr (s', rs)"
    and "InsertFileInode kv (metadb (fst s)) (rq_pinode req) (cstring f)
           (alloc_inode (fst s) OR inode_prefix_msb) = (st1, db1)"
    and "check_status_ok st1"
    and "InsertStat kv db1 (alloc_inode (fst s) OR inode_prefix_msb) (stat_of_mode (u_tv u) (rq_mode req)) = (st2, db2)"
  shows "alloc_inode (fst s') = alloc_inode (fst s) + 1 \<and> same_service s s' \<and> metadb (fst s') = db2 \<and>
    (\<exists>t. convert_status_to_resptype st2 = Inr t \<and>
       rs = [resp\<lparr>rs_inode := alloc_inode (fst s) OR inode_prefix_msb, rs_type := t\<rparr>])"
proof -
  let ?i = "alloc_inode (fst s) OR inode_prefix_msb"
  let ?s1 = "add_kv_num (rq_region_id req) 1
    (set_metadb db2 ((fst s)\<lparr>alloc_inode := alloc_inode (fst s) + 1\<rparr>, snd s))"
  define s2 where "s2 = (if case region_map (fst ?s1) (rq_region_id req) of
        None \<Rightarrow> False | Some r \<Rightarrow> region_status r = Normal \<or> region_status r = ToBeSplit
      then ((fst ?s1)\<lparr>pinode_table := add_pinode (xxh ?i mod ucast PINODE_HASH_RANGE) ?i
              (pinode_table (fst ?s1))\<rparr>, snd ?s1)
      else ?s1)"
  have fr: "metadb (fst s2) = db2" "alloc_inode (fst s2) = alloc_inode (fst s) + 1"
    by (simp_all add: s2_def)
  have "same_service ?s1 s2"
    by (rule same_service_regions) (simp add: s2_def)
  then have serv: "same_service s s2"
    by (rule same_service_trans [OF same_service_created(1)])
  from assms(3) obtain r where rs: "rs = [r]" and run:
    "andThen (maybe_split (rq_region_id req) s2) (\<lambda>s1.
       andThen (maybe_log ldb u (rq_region_id req) False (rq_pinode req) f
           (Some (stat_of_mode (u_tv u) (rq_mode req))) ?i s1)
         (\<lambda>s1. finish_resp st2 s1 (resp\<lparr>rs_inode := ?i\<rparr>))) = Inr (s', r)"
    by (auto simp: fs_mkdir_handler_def with_region_serves [OF assms(1)] with_fname_def assms(2,4-) Let_def
        simp flip: s2_def)
  from create_tail [OF run] fr serv show ?thesis
    by (auto simp: rs intro: same_service_trans)
qed

lemma mkdir_run_fail:
  assumes "serves s (rq_region_id req) (rq_pinode_hash req)" "cstr_of (rq_fname req) = Some f"
    and "fs_mkdir_handler kv ldb xxh u req resp s = Inr (s', rs)"
    and "InsertFileInode kv (metadb (fst s)) (rq_pinode req) (cstring f)
           (alloc_inode (fst s) OR inode_prefix_msb) = (st1, db1)"
    and "\<not> check_status_ok st1"
  shows "alloc_inode (fst s') = alloc_inode (fst s) + 1 \<and> same_service s s' \<and> metadb (fst s') = db1 \<and>
    (\<exists>t. convert_status_to_resptype st1 = Inr t \<and> rs = [resp\<lparr>rs_type := t\<rparr>])"
proof -
  from assms(3) obtain r where rs: "rs = [r]" and run:
    "andThen (maybe_split (rq_region_id req)
        (set_metadb db1 ((fst s)\<lparr>alloc_inode := alloc_inode (fst s) + 1\<rparr>, snd s))) (\<lambda>s1.
       andThen (maybe_log ldb u (rq_region_id req) False (rq_pinode req) f
           (Some (stat_of_mode (u_tv u) (rq_mode req))) (alloc_inode (fst s) OR inode_prefix_msb) s1)
         (\<lambda>s1. finish_resp st1 s1 resp)) = Inr (s', r)"
    by (auto simp: fs_mkdir_handler_def with_region_serves [OF assms(1)] with_fname_def assms(2,4-) Let_def)
  from create_tail [OF run] show ?thesis
    by (auto simp: rs intro: same_service_trans [OF same_service_created(2)])
qed

lemma unlink_run:
  assumes "serves s (rq_region_id req) (rq_pinode_hash req)" "cstr_of (rq_fname req) = Some f"
    and "fs_unlink_handler kv ldb u req resp s = Inr (s', rs)"
    and "DeleteFileInode kv (metadb (fst s)) (rq_pinode req) (cstring f) (u_inode u) = (st1, i, db1)"
  shows "alloc_inode (fst s') = alloc_inode (fst s) \<and> same_service s s' \<and>
    (if check_status_ok st1
     then metadb (fst s') = snd (DeleteStat kv db1 i) \<and>
       (\<exists>t. convert_status_to_resptype (fst (DeleteStat kv db1 i)) = Inr t \<and> rs = [resp\<lparr>rs_type := t\<rparr>])
     else metadb (fst s') = db1 \<and>
       (\<exists>t. convert_status_to_resptype st1 = Inr t \<and> rs = [resp\<lparr>rs_type := t\<rparr>]))"
proof -
  obtain st2 db2 where d2: "DeleteStat kv db1 i = (st2, db2)" by fastforce
  define s1 where "s1 = (if check_status_ok st1 then add_kv_num (rq_region_id req) (- 1) (set_metadb db2 s)
    else set_metadb db1 s)"
  define st where "st = (if check_status_ok st1 then st2 else st1)"
  have serv: "same_service s s1"
    by (simp add: s1_def same_service_created)
  from assms(3) obtain r where rs: "rs = [r]" and
    "andThen (maybe_log ldb u (rq_region_id req) True (rq_pinode req) f None 0 s1)
       (\<lambda>s. finish_resp st s resp) = Inr (s', r)"
    by (auto simp: fs_unlink_handler_def with_region_serves [OF assms(1)] with_fname_def assms(2,4) d2
        s1_def st_def split: if_splits)
  then have l: "maybe_log ldb u (rq_region_id req) True (rq_pinode req) f None 0 s1 = Inr s'"
    and "\<exists>t. convert_status_to_resptype st = Inr t \<and> r = resp\<lparr>rs_type := t\<rparr>"
    by (auto simp: finish_resp_Inr)
  then show ?thesis using maybe_log_frame [OF l] serv
    by (auto simp: rs d2 s1_def st_def intro: same_service_trans)
qed

section \<open>The namespace the handlers implement\<close>

text \<open>
  Abstractly a server thread holds directory entries and attributes. Creating an entry fails when it
  exists; it may fail for lack of space, which in the second table leaves the entry without
  attributes. Removing deletes the entry and then the attributes, if there are any.
\<close>

type_synonym namespace = "(u64 \<times> u8 list \<rightharpoonup> u64) \<times> (u64 \<rightharpoonup> metafs_stat_t)"

inductive create_spec ::
  "namespace \<Rightarrow> u64 \<times> u8 list \<Rightarrow> u64 \<Rightarrow> metafs_stat_t \<Rightarrow> RespType \<Rightarrow> namespace \<Rightarrow> bool" where
  create_exists: "N k = Some j \<Longrightarrow> create_spec (N, A) k i st kEXIST (N, A)"
| create_no_space: "N k = None \<Longrightarrow> create_spec (N, A) k i st kENOENT (N, A)"
| create_no_attrs: "N k = None \<Longrightarrow> create_spec (N, A) k i st kENOENT (N(k \<mapsto> i), A)"
| create_done: "N k = None \<Longrightarrow> create_spec (N, A) k i st kSuccess (N(k \<mapsto> i), A(i \<mapsto> st))"

inductive remove_spec :: "namespace \<Rightarrow> u64 \<times> u8 list \<Rightarrow> RespType \<Rightarrow> namespace \<Rightarrow> bool" where
  remove_missing: "N k = None \<Longrightarrow> remove_spec (N, A) k kENOENT (N, A)"
| remove_no_attrs: "N k = Some i \<Longrightarrow> A i = None \<Longrightarrow> remove_spec (N, A) k kENOENT (N(k := None), A)"
| remove_done: "N k = Some i \<Longrightarrow> A i = Some st \<Longrightarrow> remove_spec (N, A) k kSuccess (N(k := None), A(i := None))"

inductive_cases create_success: "create_spec NA k i st kSuccess NA'"
inductive_cases remove_success: "remove_spec NA k kSuccess NA'"

definition ns_of :: "'db names_view \<Rightarrow> 'db attrs_view \<Rightarrow> ('db, 'l) server_state \<Rightarrow> namespace" where
  "ns_of names attrs s = (names (metadb (fst s)), attrs (metadb (fst s)))"

lemma create_spec_by_laws:
  assumes laws: "name_laws kv names attrs" "attr_laws kv names attrs"
    and ins: "InsertFileInode kv db p f i = (st1, db1)" "InsertStat kv db1 i st = (st2, db2)"
  shows "if check_status_ok st1
    then \<exists>t. convert_status_to_resptype st2 = Inr t \<and>
      create_spec (names db, attrs db) (p, f) i st t (names db2, attrs db2)
    else \<exists>t. convert_status_to_resptype st1 = Inr t \<and> t \<noteq> kSuccess \<and>
      create_spec (names db, attrs db) (p, f) i st t (names db1, attrs db1)"
proof (cases "names db (p, f)")
  case None
  from name_laws_insert(1) [OF laws(1) None, of i] ins(1)
  consider "st1 = NO_ENOUGH_SPACE" "db1 = db"
    | "st1 = INSERT_OK" "names db1 = (names db)((p, f) \<mapsto> i)" "attrs db1 = attrs db"
    by auto
  then show ?thesis
  proof cases
    case 1
    then show ?thesis using None by (auto simp: check_status_ok_def intro: create_spec.intros)
  next
    case 2
    from attr_laws_insert [OF laws(2), of db1 i st] ins(2)
    have "st2 = NO_ENOUGH_SPACE \<and> db2 = db1 \<or>
        st2 = INSERT_OK \<and> attrs db2 = (attrs db)(i \<mapsto> st) \<and> names db2 = (names db)((p, f) \<mapsto> i)"
      using 2 by auto
    then show ?thesis using 2 None by (auto simp: check_status_ok_def intro: create_spec.intros)
  qed
next
  case (Some j)
  then show ?thesis using name_laws_insert(2) [OF laws(1) Some, of i] ins(1)
    by (auto simp: check_status_ok_def intro: create_spec.intros)
qed

lemma mknod_create_spec:
  assumes "name_laws kv names attrs" "attr_laws kv names attrs"
    and "serves s (rq_region_id req) (rq_pinode_hash req)" "cstr_of (rq_fname req) = Some f"
    and "fs_mknod_handler kv ldb u req resp s = Inr (s', rs)"
  shows "\<exists>r. rs = [r] \<and>
    create_spec (ns_of names attrs s) (rq_pinode req, cstring f) (alloc_inode (fst s))
      (stat_of_oid (u_tv u) (rq_oid req) (rq_mode req)) (rs_type r) (ns_of names attrs s') \<and>
    (rs_type r = kSuccess \<longrightarrow> rs_inode r = alloc_inode (fst s)) \<and>
    alloc_inode (fst s') = alloc_inode (fst s) + 1 \<and> same_service s s'"
proof -
  obtain st1 db1 where i1: "InsertFileInode kv (metadb (fst s)) (rq_pinode req) (cstring f)
      (alloc_inode (fst s)) = (st1, db1)" by fastforce
  obtain st2 db2 where i2: "InsertStat kv db1 (alloc_inode (fst s))
      (stat_of_oid (u_tv u) (rq_oid req) (rq_mode req)) = (st2, db2)" by fastforce
  note spec = create_spec_by_laws [OF assms(1,2) i1 i2]
  show ?thesis
  proof (cases "check_status_ok st1")
    case True
    with spec mknod_run_ok [OF assms(3-5) i1 True i2] show ?thesis by (auto simp: ns_of_def)
  next
    case False
    with spec mknod_run_fail [OF assms(3-5) i1 False] show ?thesis by (auto simp: ns_of_def)
  qed
qed

lemma mkdir_create_spec:
  assumes "name_laws kv names attrs" "attr_laws kv names attrs"
    and "serves s (rq_region_id req) (rq_pinode_hash req)" "cstr_of (rq_fname req) = Some f"
    and "fs_mkdir_handler kv ldb xxh u req resp s = Inr (s', rs)"
  shows "\<exists>r. rs = [r] \<and>
    create_spec (ns_of names attrs s) (rq_pinode req, cstring f) (alloc_inode (fst s) OR inode_prefix_msb)
      (stat_of_mode (u_tv u) (rq_mode req)) (rs_type r) (ns_of names attrs s') \<and>
    (rs_type r = kSuccess \<longrightarrow> rs_inode r = alloc_inode (fst s) OR inode_prefix_msb \<and> is_directory (rs_inode r)) \<and>
    alloc_inode (fst s') = alloc_inode (fst s) + 1 \<and> same_service s s'"
proof -
  obtain st1 db1 where i1: "InsertFileInode kv (metadb (fst s)) (rq_pinode req) (cstring f)
      (alloc_inode (fst s) OR inode_prefix_msb) = (st1, db1)" by fastforce
  obtain st2 db2 where i2: "InsertStat kv db1 (alloc_inode (fst s) OR inode_prefix_msb)
      (stat_of_mode (u_tv u) (rq_mode req)) = (st2, db2)" by fastforce
  note spec = create_spec_by_laws [OF assms(1,2) i1 i2]
  show ?thesis
  proof (cases "check_status_ok st1")
    case True
    with spec mkdir_run_ok [OF assms(3-5) i1 True i2] show ?thesis by (auto simp: ns_of_def)
  next
    case False
    with spec mkdir_run_fail [OF assms(3-5) i1 False] show ?thesis by (auto simp: ns_of_def)
  qed
qed

lemma unlink_remove_spec:
  assumes "name_laws kv names attrs" "attr_laws kv names attrs"
    and "serves s (rq_region_id req) (rq_pinode_hash req)" "cstr_of (rq_fname req) = Some f"
    and "fs_unlink_handler kv ldb u req resp s = Inr (s', rs)"
  shows "\<exists>r. rs = [r] \<and>
    remove_spec (ns_of names attrs s) (rq_pinode req, cstring f) (rs_type r) (ns_of names attrs s') \<and>
    same_service s s'"
proof -
  obtain st1 i db1 where d1: "DeleteFileInode kv (metadb (fst s)) (rq_pinode req) (cstring f) (u_inode u) =
      (st1, i, db1)" by (metis prod_cases3)
  note run = unlink_run [OF assms(3-5) d1]
  show ?thesis
  proof (cases "names (metadb (fst s)) (rq_pinode req, cstring f)")
    case None
    with name_laws_delete(1) [OF assms(1) None, of "u_inode u"] d1 run show ?thesis
      by (auto simp: ns_of_def check_status_ok_def intro: remove_spec.intros)
  next
    case (Some j)
    with name_laws_delete(2) [OF assms(1) Some, of "u_inode u"] d1
    have d: "st1 = OK" "i = j" "names db1 = (names (metadb (fst s)))((rq_pinode req, cstring f) := None)"
      "attrs db1 = attrs (metadb (fst s))" by auto
    show ?thesis
    proof (cases "attrs db1 j")
      case None
      with attr_laws_delete(1) [OF assms(2) None] d run Some show ?thesis
        by (auto simp: ns_of_def check_status_ok_def intro: remove_spec.intros)
    next
      case a: (Some st)
      with attr_laws_delete(2) [OF assms(2) a] d run Some show ?thesis
        by (auto simp: ns_of_def check_status_ok_def intro: remove_spec.intros)
    qed
  qed
qed

text \<open>State changes of the reading handlers.\<close>

lemma with_region_keeps:
  assumes "with_region set_type rid hash resp body s = Inr (s', rs)"
    and "\<And>resp s1 r. body s resp = Inr (s1, r) \<Longrightarrow> s1 = s"
  shows "s' = s"
  using assms by (fastforce simp: with_region_def Let_def split: option.splits if_splits)

lemma negative_over_threshold:
  assumes "sint (kv_num region) < 0"
  shows "over_threshold region"
proof (rule ccontr)
  assume "\<not> over_threshold region"
  then have "unat (kv_num region) \<le> unat region_split_threshold"
    by (simp add: over_threshold_def word_le_nat_alt [symmetric])
  then have "unat (kv_num region) < 2 ^ 31" by (simp add: region_split_threshold_def)
  from sint_of_nat32 [OF this] assms show False by simp
qed

section \<open>Concrete states\<close>

definition demo_state :: "(ref_db, ref_log) server_state" where
  "demo_state = init_server_context 0 1 0 empty_db [] (no_regions 2)"

definition demo_uninit :: uninit where
  "demo_uninit = \<lparr>u_inode = 0xdead, u_tv = 12, u_pad = 0, u_flag = 1, u_stat = stat_of_mode 0 0\<rparr>"

definition demo_resp :: fs_resp where
  "demo_resp = \<lparr>rs_type = kFail, rs_inode = 0, rs_stat = stat_of_mode 0 0\<rparr>"

definition demo_fname :: "u8 list" where
  "demo_fname = cstring [97] @ replicate 126 0"

definition demo_mknod :: fs_mknod_req where
  "demo_mknod = \<lparr>rq_region_id = 0, rq_pinode = fs_root_inode, rq_pinode_hash = 5, rq_fname = demo_fname,
     rq_mode = 0x81a4, rq_oid = \<lparr>oid_lo = 3, oid_hi = 4\<rparr>\<rparr>"

lemma demo_fname_cstr: "cstr_of demo_fname = Some [97]"
  by (simp add: demo_fname_def is_cstr_def)

lemma demo_state_eq:
  "demo_state = (\<lparr>thread_id = 0, global_id = 0, alloc_inode = 1, metadb = empty_db, log_db = [],
     region_map = [0 \<mapsto> new_ServerRegion 0 (mk_RegionKey 0 0) (mk_RegionKey 0 1023)],
     pinode_table = Map.empty\<rparr>,
    \<lparr>global_region_id = 1, global_region_map = [(0, mk_ClientRegion 0 (mk_RegionKey 0 0) (mk_RegionKey 0 1023))],
     shared_split_queue = [], num_server_sessions = 2\<rparr>)"
  by (simp add: demo_state_def init_server_context_def register_region_def no_regions_def
      server_global_id_def init_alloc_inode_def PINODE_HASH_RANGE_def map_insert_def alist_insert_def Let_def)

lemma demo_serves: "serves demo_state 0 5"
  by (simp add: serves_def demo_state_eq new_ServerRegion_def mk_RegionKey_def check_is_blong_to_region_def)

lemma demo_mknod_runs:
  "\<exists>s'. fs_mknod_handler ref_kv ref_logdb demo_uninit demo_mknod demo_resp demo_state =
     Inr (s', [demo_resp\<lparr>rs_inode := 1, rs_type := kSuccess\<rparr>])"
  by (simp add: fs_mknod_handler_def demo_mknod_def with_region_serves [OF demo_serves] with_fname_def demo_fname_cstr)
    (simp add: demo_state_eq ref_kv_def empty_db_def
      check_status_ok_def add_kv_num_def upd_region_def set_metadb_def maybe_split_def maybe_log_def finish_resp_def
      new_ServerRegion_def over_threshold_def region_split_threshold_def Let_def)

definition demo_mkdir :: fs_mode_req where
  "demo_mkdir = \<lparr>rq_region_id = 0, rq_pinode = fs_root_inode, rq_pinode_hash = 5, rq_fname = demo_fname,
     rq_mode = 0x41ed\<rparr>"

definition demo_name :: fs_req where
  "demo_name = \<lparr>rq_region_id = 0, rq_pinode = fs_root_inode, rq_pinode_hash = 5, rq_fname = demo_fname\<rparr>"

lemma demo_mkdir_runs:
  "\<exists>s' r. fs_mkdir_handler ref_kv ref_logdb id demo_uninit demo_mkdir demo_resp demo_state = Inr (s', [r])"
  by (simp add: fs_mkdir_handler_def demo_mkdir_def with_region_serves [OF demo_serves] with_fname_def
      demo_fname_cstr)
    (simp add: demo_state_eq ref_kv_def empty_db_def check_status_ok_def add_kv_num_def upd_region_def
      set_metadb_def maybe_split_def maybe_log_def finish_resp_def new_ServerRegion_def
      over_threshold_def region_split_threshold_def Let_def)

definition with_db :: "ref_db \<Rightarrow> (ref_db, ref_log) server_state" where
  "with_db db = set_metadb db demo_state"

definition demo_file_state :: "(ref_db, ref_log) server_state" where
  "demo_file_state = with_db \<lparr>ref_names = [((fs_root_inode, [97, 0]), 1)], ref_attrs = [(1, stat_of_mode 0 0)]\<rparr>"

lemma demo_file_serves: "serves demo_file_state 0 5"
  using demo_serves by (simp add: demo_file_state_def with_db_def serves_def)

lemma demo_unlink_runs:
  "\<exists>s'. fs_unlink_handler ref_kv ref_logdb demo_uninit demo_name demo_resp demo_file_state =
     Inr (s', [demo_resp\<lparr>rs_type := kSuccess\<rparr>])"
  by (simp add: fs_unlink_handler_def demo_name_def with_region_serves [OF demo_file_serves] with_fname_def
      demo_fname_cstr cstring_def)
    (simp add: demo_file_state_def with_db_def demo_state_eq ref_kv_def check_status_ok_def
      add_kv_num_def upd_region_def set_metadb_def maybe_log_def finish_resp_def new_ServerRegion_def)

definition demo_dir_state :: "(ref_db, ref_log) server_state" where
  "demo_dir_state = with_db
     \<lparr>ref_names = [((fs_root_inode, [97, 0]), 0x8000000000000001), ((0x8000000000000001, [98, 0]), 2)],
      ref_attrs = [(0x8000000000000001, stat_of_mode 0 0)]\<rparr>"

lemma demo_dir_region:
  "region_map (fst demo_dir_state) (rq_region_id demo_name) =
     Some (new_ServerRegion 0 (mk_RegionKey 0 0) (mk_RegionKey 0 1023))"
  by (simp add: demo_dir_state_def with_db_def demo_state_eq demo_name_def)

lemma demo_dir_facts:
  "region_status (new_ServerRegion 0 (mk_RegionKey 0 0) (mk_RegionKey 0 1023)) = Normal"
  "check_is_blong_to_region (new_ServerRegion 0 (mk_RegionKey 0 0) (mk_RegionKey 0 1023)) 5"
  "is_directory 0x8000000000000001"
  "ref_names_view (metadb (fst demo_dir_state)) =
     [(fs_root_inode, [97, 0]) \<mapsto> 0x8000000000000001, (0x8000000000000001, [98, 0]) \<mapsto> 2]"
  "ref_attrs_view (metadb (fst demo_dir_state)) = [0x8000000000000001 \<mapsto> stat_of_mode 0 0]"
  "cstring [97] = [97, 0]"
  "dir_entries [(fs_root_inode, [97, 0]) \<mapsto> 0x8000000000000001, (0x8000000000000001, [98, 0]) \<mapsto> 2]
     fst 0x8000000000000001 \<noteq> {}"
  by (auto simp: new_ServerRegion_def mk_RegionKey_def check_is_blong_to_region_def is_directory_def
      inode_prefix_msb_def demo_dir_state_def with_db_def dir_entries_def fs_root_inode_def cstring_def fun_eq_iff)

definition demo_split_region :: ServerRegion where
  "demo_split_region =
     (new_ServerRegion 0 (mk_RegionKey 0 0) (mk_RegionKey 0 1023))\<lparr>region_status := IsSplit, log_id := 7\<rparr>"

definition demo_split_state :: "(ref_db, ref_log) server_state" where
  "demo_split_state = (upd_region 0 (\<lambda>r. r\<lparr>region_status := IsSplit, log_id := 7\<rparr>) (fst demo_state), snd demo_state)"

lemma demo_split_facts:
  "serves demo_split_state 0 5"
  "region_map (fst demo_split_state) 0 = Some demo_split_region"
  "region_status demo_split_region = IsSplit"
  "log_db (fst demo_split_state) = []" "sr_id demo_split_region = 0" "log_id demo_split_region = 7"
  by (simp_all add: serves_def demo_split_region_def demo_split_state_def demo_state_eq new_ServerRegion_def mk_RegionKey_def
      check_is_blong_to_region_def)

lemma demo_split_runs:
  "\<exists>s' rs. fs_mknod_handler ref_kv ref_logdb demo_uninit demo_mknod demo_resp demo_split_state = Inr (s', rs)"
  by (simp add: fs_mknod_handler_def demo_mknod_def with_region_serves [OF demo_split_facts(1)] with_fname_def
      demo_fname_cstr)
    (simp add: demo_split_state_def demo_state_eq ref_kv_def empty_db_def ref_logdb_def
      check_status_ok_def add_kv_num_def upd_region_def set_metadb_def maybe_split_def maybe_log_def
      log_op_def log_value_def put_log_val_slice_def METAFS_MAX_FNAME_LEN_def
      finish_resp_def new_ServerRegion_def over_threshold_def region_split_threshold_def Let_def)

definition demo_negative_region :: ServerRegion where
  "demo_negative_region = (new_ServerRegion 0 (mk_RegionKey 0 0) (mk_RegionKey 0 1023))\<lparr>kv_num := - 2\<rparr>"

definition demo_negative_state :: "(ref_db, ref_log) server_state" where
  "demo_negative_state = ((fst demo_state)\<lparr>region_map := [0 \<mapsto> demo_negative_region]\<rparr>, snd demo_state)"

definition demo_busy_region :: ServerRegion where
  "demo_busy_region = (new_ServerRegion 0 (mk_RegionKey 0 0) (mk_RegionKey 0 1023))\<lparr>region_status := NotReady\<rparr>"

definition demo_busy_state :: "(ref_db, ref_log) server_state" where
  "demo_busy_state = ((fst demo_state)\<lparr>region_map := [0 \<mapsto> demo_busy_region]\<rparr>, snd demo_state)"

definition demo_env :: "(ref_db, ref_log) env" where
  "demo_env = \<lparr>e_kv = ref_kv, e_log = ref_logdb, e_xxh = id, e_uninit = demo_uninit, e_now = 99\<rparr>"

lemma demo_busy_facts:
  "region_map (fst demo_busy_state) (req_region (\<lambda>_. 0)) = Some demo_busy_region"
  "region_status demo_busy_region = NotReady"
  by (simp_all add: demo_busy_state_def demo_busy_region_def req_region_def)

definition demo_foreign_req :: mem where
  "demo_foreign_req = put64 (\<lambda>_. 0) 16 2000"

lemma demo_foreign_facts:
  "req_region demo_foreign_req = 0" "req_hash kFSStatReq demo_foreign_req = 2000"
  "\<not> check_is_blong_to_region (new_ServerRegion 0 (mk_RegionKey 0 0) (mk_RegionKey 0 1023)) 2000"
  "cstr_of (rq_fname (FSStatReq demo_foreign_req)) = Some []"
proof -
  have "cstr_of (replicate 128 0) = Some []" by (simp add: numeral_eq_Suc)
  then show "cstr_of (rq_fname (FSStatReq demo_foreign_req)) = Some []"
    by (simp add: demo_foreign_req_def layout_simps METAFS_MAX_FNAME_LEN_def put64_def)
qed (simp_all add: demo_foreign_req_def req_region_def req_hash_def new_ServerRegion_def mk_RegionKey_def
    check_is_blong_to_region_def)

lemma demo_foreign_runs:
  "\<exists>s' rs. fs_dispatch demo_env kFSStatReq demo_foreign_req (\<lambda>_. 0) demo_state = Inr (s', rs)"
  using demo_foreign_facts
  by (simp add: dispatch_simps req_fields fs_stat_handler_def with_region_def with_fname_def)
    (simp add: demo_env_def demo_state_eq ref_kv_def empty_db_def new_ServerRegion_def
      check_status_ok_def finish_resp_def)

section \<open>Properties\<close>



text \<open>
  C1: Creating a file refines the abstract creation: exactly one response, whose type says whether the
  entry existed, space was missing, or the entry and its attributes are now there under the next
  inode number; that number is used up in every case, and every region goes on serving.
\<close>

theorem mknod_refines:
  assumes "name_laws kv names attrs" "attr_laws kv names attrs"
    and "serves s (rq_region_id req) (rq_pinode_hash req)" "cstr_of (rq_fname req) = Some f"
    and "fs_mknod_handler kv ldb u req resp s = Inr (s', rs)"
  shows "\<exists>r. rs = [r] \<and>
    create_spec (ns_of names attrs s) (rq_pinode req, cstring f) (alloc_inode (fst s))
      (stat_of_oid (u_tv u) (rq_oid req) (rq_mode req)) (rs_type r) (ns_of names attrs s') \<and>
    (rs_type r = kSuccess \<longrightarrow> rs_inode r = alloc_inode (fst s)) \<and>
    alloc_inode (fst s') = alloc_inode (fst s) + 1 \<and> same_service s s'"
  by (rule mknod_create_spec [OF assms])

theorem mknod_refines_witness:
  "\<exists>s' r. fs_mknod_handler ref_kv ref_logdb demo_uninit demo_mknod demo_resp demo_state = Inr (s', [r]) \<and>
     create_spec (ns_of ref_names_view ref_attrs_view demo_state) (fs_root_inode, cstring [97]) 1
       (stat_of_oid 12 \<lparr>oid_lo = 3, oid_hi = 4\<rparr> 0x81a4) (rs_type r)
       (ns_of ref_names_view ref_attrs_view s')"
proof -
  obtain s' where "fs_mknod_handler ref_kv ref_logdb demo_uninit demo_mknod demo_resp demo_state =
      Inr (s', [demo_resp\<lparr>rs_inode := 1, rs_type := kSuccess\<rparr>])"
    using demo_mknod_runs by blast
  from mknod_refines [OF ref_kv_name_laws ref_kv_attr_laws _ _ this] demo_serves demo_fname_cstr this
  show ?thesis by (auto simp: demo_mknod_def demo_uninit_def demo_state_eq)
qed

text \<open>
  C2: Creating a directory refines the same abstract creation with an inode that carries the
  directory bit, and the response of a successful creation names that inode.
\<close>

theorem mkdir_refines:
  assumes "name_laws kv names attrs" "attr_laws kv names attrs"
    and "serves s (rq_region_id req) (rq_pinode_hash req)" "cstr_of (rq_fname req) = Some f"
    and "fs_mkdir_handler kv ldb xxh u req resp s = Inr (s', rs)"
  shows "\<exists>r. rs = [r] \<and>
    create_spec (ns_of names attrs s) (rq_pinode req, cstring f) (alloc_inode (fst s) OR inode_prefix_msb)
      (stat_of_mode (u_tv u) (rq_mode req)) (rs_type r) (ns_of names attrs s') \<and>
    (rs_type r = kSuccess \<longrightarrow> rs_inode r = alloc_inode (fst s) OR inode_prefix_msb \<and> is_directory (rs_inode r)) \<and>
    alloc_inode (fst s') = alloc_inode (fst s) + 1 \<and> same_service s s'"
  by (rule mkdir_create_spec [OF assms])

theorem mkdir_refines_witness:
  "\<exists>s' r. fs_mkdir_handler ref_kv ref_logdb id demo_uninit demo_mkdir demo_resp demo_state = Inr (s', [r]) \<and>
     create_spec (ns_of ref_names_view ref_attrs_view demo_state) (fs_root_inode, cstring [97])
       (1 OR inode_prefix_msb) (stat_of_mode 12 0x41ed) (rs_type r) (ns_of ref_names_view ref_attrs_view s')"
proof -
  obtain s' r where "fs_mkdir_handler ref_kv ref_logdb id demo_uninit demo_mkdir demo_resp demo_state =
      Inr (s', [r])"
    using demo_mkdir_runs by blast
  from mkdir_refines [OF ref_kv_name_laws ref_kv_attr_laws _ _ this] demo_serves demo_fname_cstr this
  show ?thesis by (auto simp: demo_mkdir_def demo_uninit_def demo_state_eq)
qed

text \<open>
  C3: Removing a file refines the abstract removal: one response; a missing entry changes nothing; an
  existing one is gone together with its attributes.
\<close>

theorem unlink_refines:
  assumes "name_laws kv names attrs" "attr_laws kv names attrs"
    and "serves s (rq_region_id req) (rq_pinode_hash req)" "cstr_of (rq_fname req) = Some f"
    and "fs_unlink_handler kv ldb u req resp s = Inr (s', rs)"
  shows "\<exists>r. rs = [r] \<and>
    remove_spec (ns_of names attrs s) (rq_pinode req, cstring f) (rs_type r) (ns_of names attrs s') \<and>
    same_service s s'"
  by (rule unlink_remove_spec [OF assms])

theorem unlink_refines_witness:
  "\<exists>s' r. fs_unlink_handler ref_kv ref_logdb demo_uninit demo_name demo_resp demo_file_state = Inr (s', [r]) \<and>
     remove_spec (ns_of ref_names_view ref_attrs_view demo_file_state) (fs_root_inode, cstring [97])
       (rs_type r) (ns_of ref_names_view ref_attrs_view s')"
proof -
  obtain s' where "fs_unlink_handler ref_kv ref_logdb demo_uninit demo_name demo_resp demo_file_state =
      Inr (s', [demo_resp\<lparr>rs_type := kSuccess\<rparr>])"
    using demo_unlink_runs by blast
  from unlink_refines [OF ref_kv_name_laws ref_kv_attr_laws _ _ this] demo_file_serves demo_fname_cstr this
  show ?thesis by (auto simp: demo_name_def)
qed

text \<open>
  C16: A file that was created can be looked up: after a successful \<open>mknod\<close>, \<open>stat\<close> of the same name
  succeeds with the inode the creation answered and the mode and object id it was given.
\<close>

theorem mknod_then_stat:
  assumes "name_laws kv names attrs" "attr_laws kv names attrs"
    and "serves s (rq_region_id req) (rq_pinode_hash req)" "cstr_of (rq_fname req) = Some f"
    and "fs_mknod_handler kv ldb u req resp s = Inr (s', [r])" "rs_type r = kSuccess"
    and "rq_region_id req' = rq_region_id req" "rq_pinode_hash req' = rq_pinode_hash req"
    and "rq_pinode req' = rq_pinode req" "cstr_of (rq_fname req') = Some f"
  shows "fs_stat_handler kv u' req' resp' s' =
    Inr (s', [resp'\<lparr>rs_stat := stat_of_oid (u_tv u) (rq_oid req) (rq_mode req), rs_inode := rs_inode r,
                rs_type := kSuccess\<rparr>])"
proof -
  from mknod_create_spec [OF assms(1-5)] assms(6)
  have spec: "create_spec (ns_of names attrs s) (rq_pinode req, cstring f) (alloc_inode (fst s))
      (stat_of_oid (u_tv u) (rq_oid req) (rq_mode req)) kSuccess (ns_of names attrs s')"
    and i: "rs_inode r = alloc_inode (fst s)" and serv: "same_service s s'"
    by auto
  from spec have n: "names (metadb (fst s')) (rq_pinode req, cstring f) = Some (rs_inode r)"
    and a: "attrs (metadb (fst s')) (rs_inode r) = Some (stat_of_oid (u_tv u) (rq_oid req) (rq_mode req))"
    by (auto simp: ns_of_def i elim!: create_success)
  have "serves s' (rq_region_id req') (rq_pinode_hash req')"
    using serv assms(3,7,8) by (simp add: same_service_def)
  from stat_run [OF this assms(10) assms(1,2)] n a assms(9) show ?thesis by simp
qed

theorem mknod_then_stat_witness:
  "\<exists>s' r. fs_mknod_handler ref_kv ref_logdb demo_uninit demo_mknod demo_resp demo_state = Inr (s', [r]) \<and>
     fs_stat_handler ref_kv demo_uninit demo_name demo_resp s' =
       Inr (s', [demo_resp\<lparr>rs_stat := stat_of_oid 12 \<lparr>oid_lo = 3, oid_hi = 4\<rparr> 0x81a4,
         rs_inode := rs_inode r, rs_type := kSuccess\<rparr>])"
proof -
  obtain s' where "fs_mknod_handler ref_kv ref_logdb demo_uninit demo_mknod demo_resp demo_state =
      Inr (s', [demo_resp\<lparr>rs_inode := 1, rs_type := kSuccess\<rparr>])"
    using demo_mknod_runs by blast
  from mknod_then_stat [OF ref_kv_name_laws ref_kv_attr_laws _ _ this, of "[97]" demo_name]
    demo_serves demo_fname_cstr this
  show ?thesis by (auto simp: demo_mknod_def demo_name_def demo_uninit_def)
qed

text \<open>
  C17: A file that was removed cannot be found: after a successful \<open>unlink\<close>, \<open>getinode\<close> of the same
  name answers that there is no such file.
\<close>

theorem unlink_then_getinode:
  assumes "name_laws kv names attrs" "attr_laws kv names attrs"
    and "serves s (rq_region_id req) (rq_pinode_hash req)" "cstr_of (rq_fname req) = Some f"
    and "fs_unlink_handler kv ldb u req resp s = Inr (s', [r])" "rs_type r = kSuccess"
  shows "fs_getinode_handler kv u' req resp' s' = Inr (s', [resp'\<lparr>rs_type := kENOENT\<rparr>])"
proof -
  from unlink_remove_spec [OF assms(1-5)] assms(6)
  have spec: "remove_spec (ns_of names attrs s) (rq_pinode req, cstring f) kSuccess (ns_of names attrs s')"
    and serv: "same_service s s'" by auto
  from spec have n: "names (metadb (fst s')) (rq_pinode req, cstring f) = None"
    by (auto simp: ns_of_def elim!: remove_success)
  have "serves s' (rq_region_id req) (rq_pinode_hash req)"
    using serv assms(3) by (simp add: same_service_def)
  from getinode_run [OF this assms(4) assms(1)] n show ?thesis by simp
qed

theorem unlink_then_getinode_witness:
  "\<exists>s' r. fs_unlink_handler ref_kv ref_logdb demo_uninit demo_name demo_resp demo_file_state = Inr (s', [r]) \<and>
     fs_getinode_handler ref_kv demo_uninit demo_name demo_resp s' =
       Inr (s', [demo_resp\<lparr>rs_type := kENOENT\<rparr>])"
proof -
  obtain s' where "fs_unlink_handler ref_kv ref_logdb demo_uninit demo_name demo_resp demo_file_state =
      Inr (s', [demo_resp\<lparr>rs_type := kSuccess\<rparr>])"
    using demo_unlink_runs by blast
  from unlink_then_getinode [OF ref_kv_name_laws ref_kv_attr_laws _ _ this, of "[97]"]
    demo_file_serves demo_fname_cstr this
  show ?thesis by (auto simp: demo_name_def)
qed

text \<open>
  C22: \<open>getinode\<close>, \<open>stat\<close>, \<open>readdir\<close> and \<open>open\<close> for reading leave the whole state of the thread as it
  was: stores, log, regions, counters and queue.
\<close>

theorem readers_keep_state:
  "(fs_getinode_handler kv u req resp s = Inr (s', rs) \<longrightarrow> s' = s) \<and>
   (fs_stat_handler kv u req resp s = Inr (s', rs) \<longrightarrow> s' = s) \<and>
   (fs_open_handler kv u now oreq resp s = Inr (s', rs) \<and> \<not> wants_write (rq_mode oreq) \<longrightarrow> s' = s) \<and>
   (fs_readdir_handler kv rreq rresp s = Inr (s', rrs) \<longrightarrow> s' = s)"
proof (intro conjI impI; (elim conjE)?)
  assume "fs_getinode_handler kv u req resp s = Inr (s', rs)"
  then show "s' = s"
    unfolding fs_getinode_handler_def by (rule with_region_keeps)
      (auto simp: with_fname_def finish_resp_Inr split: option.splits prod.splits)
next
  assume "fs_stat_handler kv u req resp s = Inr (s', rs)"
  then show "s' = s"
    unfolding fs_stat_handler_def by (rule with_region_keeps)
      (auto simp: with_fname_def finish_resp_Inr split: option.splits prod.splits if_splits)
next
  assume "fs_open_handler kv u now oreq resp s = Inr (s', rs)" and nw: "\<not> wants_write (rq_mode oreq)"
  from this(1) show "s' = s"
    unfolding fs_open_handler_def by (rule with_region_keeps)
      (auto simp: with_fname_def finish_resp_Inr nw split: option.splits prod.splits if_splits)
next
  assume "fs_readdir_handler kv rreq rresp s = Inr (s', rrs)"
  then show "s' = s"
    unfolding fs_readdir_handler_def by (rule with_region_keeps)
      (auto split: option.splits prod.splits if_splits)
qed

theorem readers_keep_state_witness:
  "fs_getinode_handler ref_kv demo_uninit demo_name demo_resp demo_state =
     Inr (demo_state, [demo_resp\<lparr>rs_type := kENOENT\<rparr>])"
proof -
  obtain s' where "fs_getinode_handler ref_kv demo_uninit demo_name demo_resp demo_state =
      Inr (s', [demo_resp\<lparr>rs_type := kENOENT\<rparr>])"
    using getinode_run [OF _ _ ref_kv_name_laws, of demo_state demo_name "[97]"] demo_serves demo_fname_cstr
    by (simp add: demo_name_def demo_state_eq empty_db_def)
  with readers_keep_state [of ref_kv demo_uninit demo_name demo_resp demo_state s'
      "[demo_resp\<lparr>rs_type := kENOENT\<rparr>]"]
  show ?thesis by blast
qed

lemma rmdir_run:
  assumes "name_laws kv names attrs" "attr_laws kv names attrs" "scan_laws kv names"
    and "region_map (fst s) (rq_region_id req) = Some region" "region_status region = Normal"
    and "check_is_blong_to_region region (rq_pinode_hash req)" "cstr_of (rq_fname req) = Some f"
    and "names (metadb (fst s)) (rq_pinode req, cstring f) = Some dir" "is_directory dir"
    and "attrs (metadb (fst s)) dir = Some st"
    and "dir_entries (names (metadb (fst s))) fst dir \<noteq> {}"
  shows "\<exists>s'. fs_rmdir_handler kv ldb u req resp s = Inr (s', [resp\<lparr>rs_type := kSuccess\<rparr>]) \<and>
    ns_of names attrs s' = ((names (metadb (fst s)))((rq_pinode req, cstring f) := None),
      (attrs (metadb (fst s)))(dir := None))"
proof -
  have serv: "serves s (rq_region_id req) (rq_pinode_hash req)"
    using assms(4-6) by (simp add: serves_def)
  obtain scan where rd: "ReadDir kv (metadb (fst s)) dir 0 256 = (OK, Some scan)" "rel_count scan \<noteq> 0"
    by (rule scan_laws_entries [OF assms(3) _ assms(11), of 256]) (auto simp: unat_gt_0)
  obtain db1 where d1: "DeleteFileInode kv (metadb (fst s)) (rq_pinode req) (cstring f) dir = (OK, dir, db1)"
    "names db1 = (names (metadb (fst s)))((rq_pinode req, cstring f) := None)"
    "attrs db1 = attrs (metadb (fst s))"
    using name_laws_delete(2) [OF assms(1,8), of dir] by blast
  have "attrs db1 dir = Some st" using assms(10) d1(3) by simp
  from attr_laws_delete(2) [OF assms(2) this] d1 obtain db2 where d2: "DeleteStat kv db1 dir = (OK, db2)"
    "attrs db2 = (attrs (metadb (fst s)))(dir := None)"
    "names db2 = (names (metadb (fst s)))((rq_pinode req, cstring f) := None)"
    by auto
  let ?s = "add_kv_num (rq_region_id req) (- 1) (set_metadb db2 s)"
  have "maybe_log ldb u (rq_region_id req) True (rq_pinode req) f None 0 ?s = Inr ?s"
    using assms(4,5) by (simp add: maybe_log_def add_kv_num_def)
  then have "fs_rmdir_handler kv ldb u req resp s = Inr (?s, [resp\<lparr>rs_type := kSuccess\<rparr>])"
    using assms(7-9) rd d1(1) d2(1)
    by (simp add: fs_rmdir_handler_def with_region_serves [OF serv] with_fname_def
        name_laws_get [OF assms(1)] check_status_ok_def finish_resp_def)
  then show ?thesis using d2 by (auto simp: ns_of_def)
qed

text \<open>
  C27: \<open>rmdir\<close> removes a directory that still has entries: the test for entries has the comparison the
  wrong way round, so the handler answers success, deletes the directory's entry and attributes, and
  leaves the entries below it in the store.
\<close>

theorem rmdir_removes_nonempty:
  assumes "name_laws kv names attrs" "attr_laws kv names attrs" "scan_laws kv names"
    and "region_map (fst s) (rq_region_id req) = Some region" "region_status region = Normal"
    and "check_is_blong_to_region region (rq_pinode_hash req)" "cstr_of (rq_fname req) = Some f"
    and "names (metadb (fst s)) (rq_pinode req, cstring f) = Some dir" "is_directory dir"
    and "attrs (metadb (fst s)) dir = Some st"
    and "dir_entries (names (metadb (fst s))) fst dir \<noteq> {}"
  shows "\<exists>s'. fs_rmdir_handler kv ldb u req resp s = Inr (s', [resp\<lparr>rs_type := kSuccess\<rparr>]) \<and>
    ns_of names attrs s' = ((names (metadb (fst s)))((rq_pinode req, cstring f) := None),
      (attrs (metadb (fst s)))(dir := None))"
  by (rule rmdir_run [OF assms])

theorem rmdir_removes_nonempty_witness:
  "\<exists>s'. fs_rmdir_handler ref_kv ref_logdb demo_uninit demo_name demo_resp demo_dir_state =
     Inr (s', [demo_resp\<lparr>rs_type := kSuccess\<rparr>]) \<and>
   fst (ns_of ref_names_view ref_attrs_view s') (0x8000000000000001, [98, 0]) = Some 2"
proof -
  have "\<exists>s'. fs_rmdir_handler ref_kv ref_logdb demo_uninit demo_name demo_resp demo_dir_state =
      Inr (s', [demo_resp\<lparr>rs_type := kSuccess\<rparr>]) \<and>
    ns_of ref_names_view ref_attrs_view s' =
      ((ref_names_view (metadb (fst demo_dir_state)))((rq_pinode demo_name, cstring [97]) := None),
       (ref_attrs_view (metadb (fst demo_dir_state)))(0x8000000000000001 := None))"
    by (rule rmdir_removes_nonempty [OF ref_kv_name_laws ref_kv_attr_laws ref_kv_scan_laws demo_dir_region])
      (simp_all add: demo_dir_facts demo_fname_cstr demo_name_def)
  then show ?thesis by (auto simp: demo_dir_facts demo_name_def)
qed

text \<open>
  While its region is being split, every \<open>mknod\<close> that answers writes exactly one log entry, under
  the region's id and its next log number, which goes up by one; it queues no second split. The entry
  is written whatever the outcome of the creation was.
\<close>

theorem split_logs_every_mknod:
  assumes "serves s (rq_region_id req) (rq_pinode_hash req)" "cstr_of (rq_fname req) = Some f"
    and "region_map (fst s) (rq_region_id req) = Some region" "region_status region = IsSplit"
    and "fs_mknod_handler kv ldb u req resp s = Inr (s', rs)"
  shows "\<exists>val region'. log_value u False (rq_pinode req) f
      (Some (stat_of_oid (u_tv u) (rq_oid req) (rq_mode req))) (alloc_inode (fst s)) = Inr val \<and>
    log_db (fst s') = snd (log_Put ldb (log_db (fst s)) (log_key_slice (sr_id region) (log_id region)) val) \<and>
    region_map (fst s') (rq_region_id req) = Some region' \<and> log_id region' = log_id region + 1 \<and>
    shared_split_queue (snd s') = shared_split_queue (snd s)"
proof -
  let ?i = "alloc_inode (fst s)" and ?st = "stat_of_oid (u_tv u) (rq_oid req) (rq_mode req)"
  obtain s1 status resp1 where
    s1: "log_db (fst s1) = log_db (fst s)" "snd s1 = snd s"
      "\<exists>n. region_map (fst s1) (rq_region_id req) = Some (region\<lparr>kv_num := n\<rparr>)"
    and "andThen (maybe_split (rq_region_id req) s1) (\<lambda>s1.
       andThen (maybe_log ldb u (rq_region_id req) False (rq_pinode req) f (Some ?st) ?i s1)
         (\<lambda>s1. finish_resp status s1 resp1)) = Inr (s', hd rs)"
  proof -
    obtain st1 db1 where i1: "InsertFileInode kv (metadb (fst s)) (rq_pinode req) (cstring f) ?i = (st1, db1)"
      by fastforce
    obtain st2 db2 where i2: "InsertStat kv db1 ?i ?st = (st2, db2)" by fastforce
    let ?s0 = "((fst s)\<lparr>alloc_inode := ?i + 1\<rparr>, snd s)"
    show thesis
    proof (cases "check_status_ok st1")
      case True
      show thesis
        by (rule that [of "add_kv_num (rq_region_id req) 1 (set_metadb db2 ?s0)" st2 "resp\<lparr>rs_inode := ?i\<rparr>"])
          (use assms True i1 i2 in \<open>auto simp: fs_mknod_handler_def with_region_serves [OF assms(1)]
            with_fname_def Let_def add_kv_num_def set_metadb_def upd_region_def\<close>)
    next
      case False
      show thesis
        by (rule that [of "set_metadb db1 ?s0" st1 resp])
          (use assms False i1 in \<open>auto simp: fs_mknod_handler_def with_region_serves [OF assms(1)]
            with_fname_def Let_def set_metadb_def intro!: exI [of _ "kv_num region"]\<close>)
    qed
  qed
  moreover have "maybe_split (rq_region_id req) s1 = Inr s1"
    using s1(3) assms(4) by (auto simp: maybe_split_def)
  ultimately obtain c' where "log_op ldb u (rq_region_id req) False (rq_pinode req) f (Some ?st) ?i (fst s1) = Inr c'"
    "s' = (c', snd s1)"
    using s1(3) assms(4) by (auto simp: maybe_log_def finish_resp_Inr)
  with log_op_InrD [OF this(1)] s1 show ?thesis by auto
qed

theorem split_logs_every_mknod_witness:
  "\<exists>s' rs. fs_mknod_handler ref_kv ref_logdb demo_uninit demo_mknod demo_resp demo_split_state = Inr (s', rs) \<and>
     map fst (log_db (fst s')) = [log_key_slice 0 7]"
proof -
  obtain s' rs where run: "fs_mknod_handler ref_kv ref_logdb demo_uninit demo_mknod demo_resp demo_split_state =
      Inr (s', rs)"
    using demo_split_runs by blast
  have "\<exists>val region'. log_value demo_uninit False (rq_pinode demo_mknod) [97]
      (Some (stat_of_oid (u_tv demo_uninit) (rq_oid demo_mknod) (rq_mode demo_mknod)))
      (alloc_inode (fst demo_split_state)) = Inr val \<and>
    log_db (fst s') = snd (log_Put ref_logdb (log_db (fst demo_split_state))
      (log_key_slice (sr_id demo_split_region) (log_id demo_split_region)) val) \<and>
    region_map (fst s') (rq_region_id demo_mknod) = Some region' \<and>
    log_id region' = log_id demo_split_region + 1 \<and>
    shared_split_queue (snd s') = shared_split_queue (snd demo_split_state)"
    by (rule split_logs_every_mknod [OF _ _ _ _ run])
      (simp_all add: demo_split_facts demo_fname_cstr demo_mknod_def)
  then show ?thesis using run by (auto simp: demo_split_facts ref_logdb_def)
qed

text \<open>
  A region whose count of entries is negative counts as too full: the comparison with the threshold
  is unsigned, so the next creation in it starts a split.
\<close>

theorem negative_count_splits:
  assumes "region_map (fst s) rid = Some region" "region_status region = Normal" "sint (kv_num region) < 0"
  shows "maybe_split rid s =
    check_region_and_split (region\<lparr>region_status := IsSplit\<rparr>)
      (upd_region rid (\<lambda>r. r\<lparr>region_status := IsSplit\<rparr>) (fst s), snd s)"
  using negative_over_threshold [OF assms(3)] assms by (simp add: maybe_split_def Let_def)

theorem negative_count_splits_witness:
  "maybe_split 0 demo_negative_state =
     check_region_and_split (demo_negative_region\<lparr>region_status := IsSplit\<rparr>)
       (upd_region 0 (\<lambda>r. r\<lparr>region_status := IsSplit\<rparr>) (fst demo_negative_state), snd demo_negative_state)"
  by (rule negative_count_splits)
    (simp_all add: demo_negative_state_def demo_negative_region_def new_ServerRegion_def)

text \<open>
  A request to a region that is about to be handed over or not ready yet changes nothing and is told
  to refresh its region map or to try again, whichever of the eight request types it is.
\<close>

theorem unserved_requests_wait:
  assumes "is_fs_request t" "region_map (fst s) (req_region req) = Some region"
    and "region_status region = SplitAlmostDone \<or> region_status region = NotReady"
  shows "\<exists>rs. fs_dispatch e t req pre s = Inr (s, rs) \<and>
    resp_type (last rs) =
      RespType_code (if region_status region = SplitAlmostDone then kUpdateRegionMap else kEBUSY)"
proof -
  have st: "region_status region \<in> {SplitAlmostDone, NotReady}" using assms(3) by simp
  note ns = fsopen.not_serving unlink.not_serving fsstat.not_serving mknod.not_serving
    readdir.not_serving mkdir.not_serving rmdir.not_serving getinode.not_serving
  show ?thesis
    using assms(1,2) st
    by (cases t) (simp_all add: is_fs_request_def fs_dispatch_def ns req_fields send_all_def Let_def)
qed

theorem unserved_requests_wait_witness:
  "\<exists>rs. fs_dispatch demo_env kFSStatReq (\<lambda>_. 0) (\<lambda>_. 0) demo_busy_state = Inr (demo_busy_state, rs) \<and>
     resp_type (last rs) = RespType_code kEBUSY"
  using unserved_requests_wait [of kFSStatReq demo_busy_state "\<lambda>_. 0" demo_busy_region demo_env "\<lambda>_. 0"]
  by (simp add: is_fs_request_def demo_busy_facts)

end
