(* ===== verification/Migration.thy ===== *)
theory Migration
  imports HandlerProps
begin

text \<open>
  Moving a region to another server thread: the split thread's side
  (\<open>rpc_create_region\<close>, \<open>rpc_send_region\<close>, \<open>rpc_send_region_log\<close> in \<open>src/server/region_and_log.cc\<close>,
  driven by \<open>split_region_thread\<close> in \<open>src/server/metafs_server.cc\<close>) and the receiving handlers
  \<open>s2s_...\<close> of \<open>src/server/server_handler.cc\<close>.
\<close>

section \<open>The receiving side\<close>

definition s2s_create_region_handler ::
  "create_region_req \<Rightarrow> create_region_resp \<Rightarrow> ('db, 'l) server_state \<Rightarrow>
   ('db, 'l) server_state \<times> create_region_resp" where
  "s2s_create_region_handler req resp s =
     (let region = (new_ServerRegion (cq_region_id req) (cq_start_key req) (cq_end_key req))
                     \<lparr>region_status := NotReady\<rparr>;
          c = (fst s)\<lparr>region_map := map_insert (cq_region_id req) region (region_map (fst s))\<rparr>
      in ((c, snd s), resp\<lparr>cs_region_id := cq_region_id req, cs_type := kSuccess\<rparr>))"

text \<open>
  \<open>(metafs_inode_t)*buf\<close> reads the one byte \<open>buf\<close> points to; the pointer then moves by eight. The
  buffer is the rest of the entries array, and reading at its end is an access outside it.
\<close>

definition read_inode :: "u8 list \<Rightarrow> crash + u64 \<times> u8 list" where
  "read_inode buf = (case buf of [] \<Rightarrow> Inl OutOfBounds | b # _ \<Rightarrow> Inr (ucast b, drop metafs_inode_size buf))"

definition read_fname :: "u8 list \<Rightarrow> crash + u8 list \<times> u8 list" where
  "read_fname buf = (case cstr_of buf of
     None \<Rightarrow> Inl OutOfBounds | Some fname \<Rightarrow> Inr (fname, drop (length fname + 1) buf))"

primrec build_region :: "'db metakv \<Rightarrow> uninit \<Rightarrow> nat \<Rightarrow> u8 list \<Rightarrow> 'db \<Rightarrow> crash + 'db" where
  "build_region kv u 0 buf db = Inr db"
| "build_region kv u (Suc num_result) buf db =
     andThen (read_inode buf) (\<lambda>(pinode, buf).
     andThen (read_fname buf) (\<lambda>(fname, buf).
     andThen (read_inode buf) (\<lambda>(inode, buf).
       case InsertFileInode kv db pinode (cstring fname) inode of
         (status, db) \<Rightarrow>
           build_region kv u num_result buf
             (if check_status_ok status then snd (InsertStat kv db inode (u_stat u)) else db))))"

definition s2s_send_region_handler ::
  "'db metakv \<Rightarrow> uninit \<Rightarrow> send_region_req \<Rightarrow> send_region_resp \<Rightarrow> ('db, 'l) server_state \<Rightarrow>
   crash + ('db, 'l) server_state \<times> send_region_resp" where
  "s2s_send_region_handler kv u req resp s =
     (let num_result = ucast (sq_num_result req) :: u32
      in andThen (build_region kv u (unat num_result) (sq_entries req) (metadb (fst s))) (\<lambda>db.
         let s = set_metadb db s
         in case region_map (fst s) (sq_region_id req) of
              None \<Rightarrow> Inl NullDeref
            | Some _ \<Rightarrow>
                Inr (add_kv_num (sq_region_id req) num_result s,
                     resp\<lparr>ss_type := kSuccess, ss_is_uncomplete := ucast (sq_is_uncomplete req),
                       ss_region_id := sq_region_id req, ss_pinode_hash := sq_pinode_hash req,
                       ss_pinode := sq_pinode req, ss_offset := sq_offset req\<rparr>)))"

text \<open>One log entry: an operation on the store and the change of the region's count.\<close>

definition replay_entry :: "'db metakv \<Rightarrow> uninit \<Rightarrow> u8 list \<Rightarrow> 'db \<Rightarrow> crash + u32 \<times> 'db \<times> u8 list" where
  "replay_entry kv u buf db =
     andThen (read_inode buf) (\<lambda>(pinode, buf).
       let is_delete_op = (pinode AND inode_prefix_ssb = 0);
           pinode = pinode AND NOT inode_prefix_ssb
       in if is_delete_op
          then
            andThen (read_fname buf) (\<lambda>(fname, buf).
              case DeleteFileInode kv db pinode (cstring fname) (u_inode u) of
                (status, inode, db) \<Rightarrow>
                  Inr (- 1, if check_status_ok status then snd (DeleteStat kv db inode) else db, buf))
          else
            andThen (read_inode buf) (\<lambda>(inode, buf).
              let stat = get_stat (mem_write (\<lambda>_. 0) 0 (take metafs_stat_size buf)) 0;
                  buf = drop metafs_stat_size buf
              in andThen (read_fname buf) (\<lambda>(fname, buf).
                   case InsertFileInode kv db pinode (cstring fname) inode of
                     (status, db) \<Rightarrow>
                       Inr (1, if check_status_ok status then snd (InsertStat kv db inode stat) else db, buf))))"

primrec replay_logs :: "'db metakv \<Rightarrow> uninit \<Rightarrow> nat \<Rightarrow> u8 list \<Rightarrow> u32 \<times> 'db \<Rightarrow> crash + u32 \<times> 'db" where
  "replay_logs kv u 0 buf nd = Inr nd"
| "replay_logs kv u (Suc num_logs) buf nd =
     andThen (replay_entry kv u buf (snd nd)) (\<lambda>(d, db, buf).
       replay_logs kv u num_logs buf (fst nd + d, db))"

text \<open>
  The region is looked up first but only used inside the loop and at the end; a null pointer is
  dereferenced only when there is an entry or the log is done.
\<close>

definition s2s_send_region_log_handler ::
  "'db metakv \<Rightarrow> uninit \<Rightarrow> send_log_req \<Rightarrow> send_log_resp \<Rightarrow> ('db, 'l) server_state \<Rightarrow>
   crash + ('db, 'l) server_state \<times> send_log_resp" where
  "s2s_send_region_log_handler kv u req resp s =
     (let rid = lq_region_id req;
          is_done = (lq_log_status req = LogStatus_code Done)
      in if region_map (fst s) rid = None \<and> (lq_num_logs req \<noteq> 0 \<or> is_done) then Inl NullDeref
         else
           andThen (replay_logs kv u (unat (lq_num_logs req)) (lq_entries req) (0, metadb (fst s))) (\<lambda>(n, db).
             let s = add_kv_num rid n (set_metadb db s);
                 s = (if is_done then (upd_region rid (\<lambda>r. r\<lparr>region_status := Normal\<rparr>) (fst s), snd s) else s)
             in Inr (s, resp\<lparr>ls_type := kSuccess, ls_log_status := lq_log_status req, ls_region_id := rid,
                          ls_next_log_id := lq_next_log_id req\<rparr>)))"

section \<open>The sending side\<close>

text \<open>
  The calls the split thread makes on a session and waits for, over an arbitrary state of the rest
  of the cluster.
\<close>

record 'w s2s_net =
  call_create :: "u64 \<Rightarrow> create_region_req \<Rightarrow> 'w \<Rightarrow> 'w \<times> create_region_resp"
  call_send :: "u64 \<Rightarrow> send_region_req \<Rightarrow> 'w \<Rightarrow> 'w \<times> send_region_resp"
  call_log :: "u64 \<Rightarrow> send_log_req \<Rightarrow> 'w \<Rightarrow> 'w \<times> send_log_resp"

text \<open>\<open>region_id < num_server_sessions ? region_id : JumpConsistentHash(...)\<close>.\<close>

definition server_session_id :: "u32 \<Rightarrow> u32 \<Rightarrow> u64" where
  "server_session_id sessions rid =
     (if rid <s sessions then scast rid else session_of sessions rid)"

type_synonym ('db, 'l, 'w) cluster = "('db, 'l) server_state \<times> 'w"

text \<open>
  One directory. \<open>ReadDir\<close> is repeated from the returned offset until the scan is complete. The
  debugging loop asserts false on the first entry it prints, so any entry ends the process.
\<close>

definition region_entry_max_size :: nat where
  "region_entry_max_size = metafs_inode_size + METAFS_MAX_FNAME_LEN + metafs_inode_size + metafs_stat_size"

definition send_scan ::
  "'w s2s_net \<Rightarrow> ServerRegion \<Rightarrow> u64 \<Rightarrow> u64 \<Rightarrow> dir_scan \<Rightarrow> ('db, 'l, 'w) cluster \<Rightarrow>
   crash + ('db, 'l, 'w) cluster" where
  "send_scan net region pinode_hash pinode scan = (\<lambda>((c, g), w).
     if \<not> sint (rel_len scan) \<le> int MSG_ENTEY_MAX_SIZE then Inl PAssert
     else if sint (rel_len scan) < 0 \<or> length (scan_bytes scan) < unat (rel_len scan) then Inl OutOfBounds
     else if (ucast (rel_count scan) :: u32) \<noteq> 0 then Inl PAssert
     else
       case region_map c (left_region_id region) of
         None \<Rightarrow> Inl PAssert
       | Some left_region \<Rightarrow>
           let c = upd_region (left_region_id region) (\<lambda>r. r\<lparr>kv_num := kv_num r - ucast (rel_count scan)\<rparr>) c
           in case call_send net (server_session_id (num_server_sessions g) (sr_id region))
                     \<lparr>sq_region_id = sr_id region, sq_is_uncomplete = is_uncomplete scan,
                      sq_num_result = rel_count scan, sq_entries_len = rel_len scan,
                      sq_pinode_hash = pinode_hash, sq_pinode = pinode, sq_offset = new_offset scan,
                      sq_entries = take (unat (rel_len scan)) (scan_bytes scan)\<rparr> w of
                (w, resp) \<Rightarrow> if ss_type resp = kSuccess then Inr ((c, g), w) else Inl AssertFail)"

partial_function (option) send_dir ::
  "'db metakv \<Rightarrow> 'w s2s_net \<Rightarrow> ServerRegion \<Rightarrow> u64 \<Rightarrow> u64 \<Rightarrow> u64 \<Rightarrow> ('db, 'l, 'w) cluster \<Rightarrow>
   (crash + ('db, 'l, 'w) cluster) option" where
  "send_dir kv net region pinode_hash pinode next_offset cl =
     (case snd (ReadDir kv (metadb (fst (fst cl))) pinode next_offset MSG_ENTEY_MAX_SIZE) of
        None \<Rightarrow> Some (Inr cl)
      | Some scan \<Rightarrow>
          (case send_scan net region pinode_hash pinode scan cl of
             Inl e \<Rightarrow> Some (Inl e)
           | Inr cl \<Rightarrow>
               if is_uncomplete scan = 0 then Some (Inr cl)
               else send_dir kv net region pinode_hash pinode (new_offset scan) cl))"

primrec send_dirs ::
  "'db metakv \<Rightarrow> 'w s2s_net \<Rightarrow> ServerRegion \<Rightarrow> u64 \<Rightarrow> u64 list \<Rightarrow> ('db, 'l, 'w) cluster \<Rightarrow>
   crash + ('db, 'l, 'w) cluster" where
  "send_dirs kv net region pinode_hash [] cl = Inr cl"
| "send_dirs kv net region pinode_hash (pinode # pinodes) cl =
     andThen (case send_dir kv net region pinode_hash pinode 0 cl of None \<Rightarrow> Inl Hang | Some res \<Rightarrow> res)
       (send_dirs kv net region pinode_hash pinodes)"

text \<open>
  The hashes of the region in ascending order; the loop's counter wraps around, so it never ends on
  a region that reaches up to the largest 64-bit hash.
\<close>

function send_hashes ::
  "'db metakv \<Rightarrow> 'w s2s_net \<Rightarrow> ServerRegion \<Rightarrow> u64 \<Rightarrow> ('db, 'l, 'w) cluster \<Rightarrow>
   crash + ('db, 'l, 'w) cluster" where
  "send_hashes kv net region pinode_hash cl =
     (if pinode_hash \<le> hi (end_key region)
      then
        andThen
          (case pinode_table (fst (fst cl)) pinode_hash of
             None \<Rightarrow> Inr cl
           | Some pinodes \<Rightarrow> send_dirs kv net region pinode_hash pinodes cl)
          (\<lambda>cl. if pinode_hash = - 1 then Inl Hang
                else send_hashes kv net region (pinode_hash + 1) cl)
      else Inr cl)"
  by pat_completeness auto
termination
proof (relation "measure (\<lambda>(kv, net, region, h, cl). Suc (unat (hi (end_key region))) - unat h)", goal_cases)
  case (2 kv net region h cl cl')
  then have "1 + h \<noteq> 0" by (metis add_eq_0_iff minus_minus)
  then have "unat (h + 1) = Suc (unat h)" by (simp add: unatSuc add.commute)
  then show ?case using 2 by (simp add: word_le_nat_alt)
qed simp

declare send_hashes.simps [simp del]

text \<open>The log entries one request carries: values are copied while the used length is below the limit.\<close>

definition region_log_max_size :: nat where
  "region_log_max_size = max sizeof_delete_log_val sizeof_put_log_val"

definition log_almost_done_threshold :: u32 where "log_almost_done_threshold = 30"

fun fill_batch :: "(u8 list \<times> u8 list) list \<Rightarrow> nat \<times> u8 list \<Rightarrow> nat \<times> u8 list" where
  "fill_batch [] acc = acc"
| "fill_batch ((key, val) # logs) (nums_logs, entries) =
     (if length entries < MSG_ENTEY_MAX_SIZE - region_log_max_size
      then fill_batch logs (nums_logs + 1, entries @ val) else (nums_logs, entries))"

definition log_status_of :: "u32 \<Rightarrow> LogStatus" where
  "log_status_of log_left_nums =
     (if log_left_nums \<le>s 0 then Done
      else if log_left_nums <s log_almost_done_threshold then AlmostDone else FarToDone)"

text \<open>
  The switch-over: the old region leaves the global map, its local range is halved, and both parts
  are entered; from now on the old region does not serve.
\<close>

definition publish_split ::
  "ServerRegion \<Rightarrow> u32 \<Rightarrow> ('db, 'l) server_state \<Rightarrow> crash + ('db, 'l) server_state" where
  "publish_split region left_id = (\<lambda>(c, g).
     case region_map c left_id of
       None \<Rightarrow> Inl PAssert
     | Some left_region \<Rightarrow>
         if map_of (global_region_map g) (sr_id left_region) = None then Inl PAssert
         else
           let left_end = (end_key left_region)\<lparr>hi := drop_bit 1 (hi (end_key left_region))\<rparr>
           in if hi left_end = 0 then Inl PAssert
              else
                let r1 = mk_ClientRegion (sr_id region) (start_key region) (end_key region);
                    r2 = mk_ClientRegion (sr_id left_region) (start_key left_region) left_end;
                    m = filter (\<lambda>e. fst e \<noteq> sr_id left_region) (global_region_map g)
                in Inr (upd_region left_id (\<lambda>r. r\<lparr>end_key := left_end, region_status := SplitAlmostDone\<rparr>) c,
                        g\<lparr>global_region_map :=
                            alist_insert (cr_id r2) r2 (alist_insert (cr_id r1) r1 m)\<rparr>))"

text \<open>
  One turn of the loop of \<open>rpc_send_region_log\<close>: the next log number to continue with, or None when
  the migration is over.
\<close>

definition log_round ::
  "'l logdb \<Rightarrow> 'w s2s_net \<Rightarrow> ServerRegion \<Rightarrow> u32 \<Rightarrow> ('db, 'l, 'w) cluster \<Rightarrow>
   crash + u32 option \<times> ('db, 'l, 'w) cluster" where
  "log_round ldb net region next_log_id = (\<lambda>((c, g), w).
     let left_id = left_region_id region
     in case region_map c left_id of
          None \<Rightarrow> Inl PAssert
        | Some left_region \<Rightarrow>
            let (nums_logs, entries) =
                  fill_batch (log_Seek ldb (log_db c) (log_key_slice (sr_id left_region) next_log_id)) (0, []);
                next_id = next_log_id + of_nat nums_logs;
                status = log_status_of (log_id left_region - next_id)
            in andThen
                 (if status \<noteq> FarToDone \<and> region_status left_region \<noteq> SplitAlmostDone
                  then publish_split region left_id (c, g) else Inr (c, g)) (\<lambda>(c, g).
               case call_log net (server_session_id (num_server_sessions g) (sr_id region))
                      \<lparr>lq_region_id = sr_id region, lq_log_status = LogStatus_code status,
                       lq_next_log_id = next_id, lq_num_logs = of_nat nums_logs,
                       lq_entries_len = of_nat (length entries), lq_entries = entries\<rparr> w of
                 (w, resp) \<Rightarrow>
                   if ls_type resp \<noteq> kSuccess then Inl AssertFail
                   else if ls_log_status resp = LogStatus_code Done
                   then
                     let c = c\<lparr>region_map := (region_map c)(sr_id region := None)\<rparr>;
                         c = upd_region left_id (\<lambda>r. r\<lparr>log_id := 0, region_status := Normal\<rparr>) c
                     in Inr (None, ((c, g), w))
                   else Inr (Some (ls_next_log_id resp), ((c, g), w))))"

partial_function (option) rpc_send_region_log ::
  "'l logdb \<Rightarrow> 'w s2s_net \<Rightarrow> ServerRegion \<Rightarrow> u32 \<Rightarrow> ('db, 'l, 'w) cluster \<Rightarrow>
   (crash + ('db, 'l, 'w) cluster) option" where
  "rpc_send_region_log ldb net region next_log_id cl =
     (case log_round ldb net region next_log_id cl of
        Inl e \<Rightarrow> Some (Inl e)
      | Inr (None, cl) \<Rightarrow> Some (Inr cl)
      | Inr (Some next_id, cl) \<Rightarrow> rpc_send_region_log ldb net region next_id cl)"

definition rpc_send_region ::
  "'db metakv \<Rightarrow> 'l logdb \<Rightarrow> 'w s2s_net \<Rightarrow> ServerRegion \<Rightarrow> u64 \<Rightarrow> ('db, 'l, 'w) cluster \<Rightarrow>
   crash + ('db, 'l, 'w) cluster" where
  "rpc_send_region kv ldb net region pinode_hash cl =
     andThen (send_hashes kv net region pinode_hash cl) (\<lambda>cl.
       case rpc_send_region_log ldb net region 0 cl of None \<Rightarrow> Inl Hang | Some res \<Rightarrow> res)"

definition rpc_create_region_cb ::
  "'db metakv \<Rightarrow> 'l logdb \<Rightarrow> 'w s2s_net \<Rightarrow> create_region_resp \<Rightarrow> ('db, 'l, 'w) cluster \<Rightarrow>
   crash + ('db, 'l, 'w) cluster" where
  "rpc_create_region_cb kv ldb net resp cl =
     (if cs_type resp \<noteq> kSuccess then Inl AssertFail
      else case region_map (fst (fst cl)) (cs_region_id resp) of
        None \<Rightarrow> Inl PAssert
      | Some region \<Rightarrow> rpc_send_region kv ldb net region (hi (start_key region)) cl)"

definition rpc_create_region ::
  "'db metakv \<Rightarrow> 'l logdb \<Rightarrow> 'w s2s_net \<Rightarrow> u32 \<Rightarrow> ('db, 'l, 'w) cluster \<Rightarrow>
   crash + ('db, 'l, 'w) cluster" where
  "rpc_create_region kv ldb net region_id cl =
     (case region_map (fst (fst cl)) region_id of
        None \<Rightarrow> Inl NullDeref
      | Some region \<Rightarrow>
          (case call_create net (server_session_id (num_server_sessions (snd (fst cl))) region_id)
                  \<lparr>cq_region_id = region_id, cq_start_key = start_key region, cq_end_key = end_key region\<rparr>
                  (snd cl) of
             (w, resp) \<Rightarrow> rpc_create_region_cb kv ldb net resp (fst cl, w)))"

section \<open>The split thread\<close>

text \<open>
  The body of the loop of \<open>split_region_thread\<close>: nothing to do on an empty queue; otherwise the next
  job's thread context becomes the current one and its region is migrated, at the end of which the
  current context is null again. \<open>cur\<close> is \<open>s_ctx\<close> and \<open>ctxs\<close> the array \<open>s_ctx_arr\<close>.
\<close>

definition MAX_FG_THREADS :: nat where "MAX_FG_THREADS = 10"

definition split_region_step ::
  "'db metakv \<Rightarrow> 'l logdb \<Rightarrow> 'w s2s_net \<Rightarrow>
   u64 option \<times> ('db, 'l) server_context list \<times> shared \<times> 'w \<Rightarrow>
   crash + u64 option \<times> ('db, 'l) server_context list \<times> shared \<times> 'w" where
  "split_region_step kv ldb net = (\<lambda>(cur, ctxs, g, w).
     if tsq_empty (shared_split_queue g) then Inr (cur, ctxs, g, w)
     else
       case tsq_pop (0, 0) (shared_split_queue g) of
         (_, (tid, rid), jobs) \<Rightarrow>
           if cur \<noteq> None then Inl PAssert
           else if \<not> unat tid < length ctxs then Inl OutOfBounds
           else
             andThen (rpc_create_region kv ldb net rid
                 ((ctxs ! unat tid, g\<lparr>shared_split_queue := jobs\<rparr>), w))
               (\<lambda>((c, g), w). Inr (None, ctxs[unat tid := c], g, w)))"

end
