(* ===== verification/MigrationProps.thy ===== *)
theory MigrationProps
  imports Migration
begin

text \<open>
  What the migration of a region does: which entries it sends, how it divides the key range, how the
  log is batched, ordered and replayed, and how the new region comes into service.
\<close>

section \<open>What a migration sends\<close>

text \<open>The directories a region has to move: those filed under a hash of its range.\<close>

definition dirs_from :: "('db, 'l) server_context \<Rightarrow> ServerRegion \<Rightarrow> u64 \<Rightarrow> u64 set" where
  "dirs_from c region h =
     {d. \<exists>h' ps. h \<le> h' \<and> h' \<le> hi (end_key region) \<and> pinode_table c h' = Some ps \<and> d \<in> set ps}"

definition has_entries :: "'db names_view \<Rightarrow> ('db, 'l) server_context \<Rightarrow> u64 \<Rightarrow> bool" where
  "has_entries names c d \<longleftrightarrow> dir_entries (names (metadb c)) fst d \<noteq> {}"

lemma send_dir_empty:
  assumes "scan_laws kv names" "\<not> has_entries names (fst (fst cl)) d"
  shows "send_dir kv net region h d 0 cl = Some (Inr cl)"
  using scan_laws_empty [OF assms(1), of MSG_ENTEY_MAX_SIZE] assms(2)
  by (subst send_dir.simps) (simp add: has_entries_def MSG_ENTEY_MAX_SIZE_def)

lemma ucast_small_count:
  assumes "0 < unat (w :: u64)" "unat w \<le> 3712"
  shows "(ucast w :: u32) \<noteq> 0"
proof -
  have "unat (ucast w :: u32) = unat w"
    using assms(2) by (simp add: unsigned_ucast_eq unsigned_take_bit_eq take_bit_nat_eq_self)
  then show ?thesis using assms(1) by (metis unat_0 less_irrefl)
qed

lemma send_dir_entries:
  assumes "scan_laws kv names" "has_entries names (fst (fst cl)) d"
  shows "\<exists>e. send_dir kv net region h d 0 cl = Some (Inl e)"
proof -
  obtain s where s: "ReadDir kv (metadb (fst (fst cl))) d 0 MSG_ENTEY_MAX_SIZE = (OK, Some s)"
    "0 < unat (rel_count s)" "unat (rel_count s) \<le> 3712"
    by (rule scan_laws_entries [OF assms(1), of MSG_ENTEY_MAX_SIZE "metadb (fst (fst cl))" d])
      (use assms(2) in \<open>auto simp: has_entries_def MSG_ENTEY_MAX_SIZE_def\<close>)
  obtain c g w where cl: "cl = ((c, g), w)" by (metis prod.exhaust)
  from ucast_small_count [OF s(2,3)] have "\<exists>e. send_scan net region h d s cl = Inl e"
    by (simp add: send_scan_def cl)
  then show ?thesis using s(1) by (subst send_dir.simps) auto
qed

lemma send_dirs_result:
  assumes "scan_laws kv names"
  shows "(\<forall>d \<in> set ds. \<not> has_entries names (fst (fst cl)) d) \<Longrightarrow> send_dirs kv net region h ds cl = Inr cl"
    and "\<exists>d \<in> set ds. has_entries names (fst (fst cl)) d \<Longrightarrow> \<exists>e. send_dirs kv net region h ds cl = Inl e"
proof -
  show "(\<forall>d \<in> set ds. \<not> has_entries names (fst (fst cl)) d) \<Longrightarrow> send_dirs kv net region h ds cl = Inr cl"
    by (induction ds) (simp_all add: send_dir_empty [OF assms])
  show "\<exists>d \<in> set ds. has_entries names (fst (fst cl)) d \<Longrightarrow> \<exists>e. send_dirs kv net region h ds cl = Inl e"
  proof (induction ds)
    case (Cons d ds)
    show ?case
    proof (cases "has_entries names (fst (fst cl)) d")
      case True
      then show ?thesis using send_dir_entries [OF assms True, of net region h] by auto
    next
      case False
      then show ?thesis using Cons by (simp add: send_dir_empty [OF assms False])
    qed
  qed simp
qed

lemma word_add1_le: "h \<noteq> - 1 \<Longrightarrow> h + 1 \<le> h' \<longleftrightarrow> h < (h' :: u64)"
proof -
  assume "h \<noteq> - 1"
  then have "1 + h \<noteq> 0" by (metis add_eq_0_iff minus_minus)
  then have "unat (h + 1) = Suc (unat h)" by (simp add: unatSuc add.commute)
  then show ?thesis by (simp add: word_le_nat_alt word_less_nat_alt Suc_le_eq)
qed

lemma dirs_from_step:
  assumes "h \<noteq> - 1" "h \<le> hi (end_key region)"
  shows "dirs_from c region h =
    (case pinode_table c h of None \<Rightarrow> {} | Some ps \<Rightarrow> set ps) \<union> dirs_from c region (h + 1)"
proof -
  have "h \<le> h' \<longleftrightarrow> h' = h \<or> h + 1 \<le> h'" for h'
    using word_add1_le [OF assms(1), of h'] by auto
  then show ?thesis using assms(2) by (auto simp: dirs_from_def split: option.splits)
qed

lemma send_hashes_result:
  assumes "scan_laws kv names" "hi (end_key region) \<noteq> - 1"
  shows "if \<exists>d \<in> dirs_from (fst (fst cl)) region h. has_entries names (fst (fst cl)) d
    then \<exists>e. send_hashes kv net region h cl = Inl e
    else send_hashes kv net region h cl = Inr cl"
  using assms
proof (induction kv net region h cl rule: send_hashes.induct)
  case (1 kv net region h cl)
  show ?case
  proof (cases "h \<le> hi (end_key region)")
    case False
    then have "dirs_from (fst (fst cl)) region h = {}"
      by (auto simp: dirs_from_def dest: order_trans)
    then show ?thesis using False by (simp add: send_hashes.simps [of kv net region h cl])
  next
    case True
    have "- 1 \<le> x \<longleftrightarrow> x = - 1" for x :: u64
      by (metis order_antisym word_n1_ge order_refl)
    then have h: "h \<noteq> - 1" using True 1(3) by auto
    let ?c = "fst (fst cl)"
    define ds where "ds = (case pinode_table ?c h of None \<Rightarrow> [] | Some ps \<Rightarrow> ps)"
    have step: "send_hashes kv net region h cl =
        andThen (send_dirs kv net region h ds cl) (send_hashes kv net region (h + 1))"
      using True h by (subst send_hashes.simps) (simp add: ds_def split: option.splits)
    have dirs: "dirs_from ?c region h = set ds \<union> dirs_from ?c region (h + 1)"
      using dirs_from_step [OF h True, of ?c] by (cases "pinode_table ?c h") (simp_all add: ds_def)
    show ?thesis
    proof (cases "\<exists>d \<in> set ds. has_entries names ?c d")
      case e: True
      from send_dirs_result(2) [OF 1(2) e] obtain e' where "send_dirs kv net region h ds cl = Inl e'" ..
      then show ?thesis using e by (auto simp: step dirs)
    next
      case False
      then have r: "send_dirs kv net region h ds cl = Inr cl"
        by (intro send_dirs_result(1) [OF 1(2)]) auto
      from 1(1) [OF True h 1(2,3)]
      have "if \<exists>d \<in> dirs_from ?c region (h + 1). has_entries names ?c d
          then \<exists>e. send_hashes kv net region (h + 1) cl = Inl e
          else send_hashes kv net region (h + 1) cl = Inr cl" .
      then show ?thesis using False r by (auto simp: step dirs split: if_splits)
    qed
  qed
qed

section \<open>Log batches\<close>

lemma fill_batch_prefix:
  assumes "\<forall>e \<in> set logs. length (snd e) \<le> region_log_max_size" "length entries \<le> MSG_ENTEY_MAX_SIZE"
  shows "\<exists>k \<le> length logs. fill_batch logs (n, entries) = (n + k, entries @ concat (map snd (take k logs))) \<and>
    length (snd (fill_batch logs (n, entries))) \<le> MSG_ENTEY_MAX_SIZE"
  using assms
proof (induction logs "(n, entries)" arbitrary: n entries rule: fill_batch.induct)
  case 1
  then show ?case by simp
next
  case (2 key val logs n entries)
  show ?case
  proof (cases "length entries < MSG_ENTEY_MAX_SIZE - region_log_max_size")
    case True
    then have "length (entries @ val) \<le> MSG_ENTEY_MAX_SIZE" using 2(2) by auto
    then obtain k where "k \<le> length logs"
      "fill_batch logs (n + 1, entries @ val) = (n + 1 + k, (entries @ val) @ concat (map snd (take k logs)))"
      "length (snd (fill_batch logs (n + 1, entries @ val))) \<le> MSG_ENTEY_MAX_SIZE"
      using 2(1) [OF True] 2(2) by auto
    then show ?thesis using True by (intro exI [of _ "Suc k"]) simp
  next
    case False
    then show ?thesis using 2(3) by (intro exI [of _ 0]) simp
  qed
qed

lemma log_value_bound:
  "log_value u del pinode fname st inode = Inr v \<Longrightarrow> length v \<le> region_log_max_size"
  using put_log_val_bound delete_log_val_bound
  by (fastforce simp: log_value_def region_log_max_size_def sizeof_put_log_val_def sizeof_delete_log_val_def
      split: if_splits option.splits)

section \<open>Replay\<close>

lemma byte_no_ssb: "(ucast (b :: u8) :: u64) AND inode_prefix_ssb = 0"
proof (rule bit_word_eqI)
  fix n
  have "bit inode_prefix_ssb n \<longleftrightarrow> n = 62"
    by (simp only: inode_prefix_ssb_def bit_push_bit_iff bit_1_iff) (auto simp: possible_bit_word)
  moreover have "bit (ucast b :: u64) n \<Longrightarrow> n < 8"
    by (simp add: bit_unsigned_iff) (use bit_imp_le_length [of b n] in simp)
  ultimately show "bit ((ucast b :: u64) AND inode_prefix_ssb) n = bit (0 :: u64) n"
    by (auto simp: bit_and_iff)
qed

lemma read_inode_byte: "read_inode buf = Inr (p, rest) \<Longrightarrow> p AND inode_prefix_ssb = 0"
  by (auto simp: read_inode_def byte_no_ssb split: list.splits)

lemma replay_entry_deletes:
  "replay_entry (kv\<lparr>InsertFileInode := f, InsertStat := g\<rparr>) u buf db = replay_entry kv u buf db"
  by (cases "read_inode buf") (auto simp: replay_entry_def read_inode_byte Let_def cong: if_cong)

lemma replay_logs_deletes:
  "replay_logs (kv\<lparr>InsertFileInode := f, InsertStat := g\<rparr>) u n buf nd = replay_logs kv u n buf nd"
  by (induction n arbitrary: buf nd) (simp_all add: replay_entry_deletes)

lemma le_bytes8_Cons: "\<exists>bs. le_bytes 8 (w :: u64) = ucast w # bs \<and> length bs = 7"
  by (simp add: le_bytes8_eval)

lemma read_inode_le_bytes: "read_inode (le_bytes 8 (w :: u64) @ rest) = Inr (take_bit 8 w, rest)"
proof -
  obtain bs where bs: "le_bytes 8 w = ucast w # bs" "length bs = 7" using le_bytes8_Cons by blast
  have "(ucast (ucast w :: u8) :: u64) = take_bit 8 w"
    by (rule bit_word_eqI) (auto simp: bit_simps)
  then show ?thesis by (simp add: read_inode_def bs metafs_inode_size_def)
qed

lemma read_fname_cstring: "is_cstr f \<Longrightarrow> read_fname (cstring f @ rest) = Inr (f, rest)"
  by (simp add: read_fname_def)

lemma fill_batch_mono: "n \<le> fst (fill_batch logs (n, entries))"
proof (induction logs arbitrary: n entries)
  case (Cons e logs)
  then show ?case using le_trans [OF le_add1 Cons, of n 1] by (cases e) simp
qed simp

lemma fill_batch_nonempty: "logs \<noteq> [] \<Longrightarrow> 0 < fst (fill_batch logs (0, []))"
  using fill_batch_mono [of 1 "tl logs" "snd (hd logs)"]
  by (cases logs) (auto simp: MSG_ENTEY_MAX_SIZE_def region_log_max_size_def sizeof_put_log_val_def
      sizeof_delete_log_val_def)

lemma halve_linorder:
  fixes m :: "'a :: linorder"
  assumes "m \<le> e"
  shows "if s \<le> m then {s..m} \<union> {m<..e} = {s..e} \<and> {s..m} \<inter> {m<..e} = {}
    else {s..m} = {} \<and> {s..e} \<subseteq> {m<..e}"
  using assms by auto

lemma halve_interval:
  fixes m :: u64
  assumes "m \<le> e" "\<And>h. m + 1 \<le> h \<longleftrightarrow> m < h"
  shows "if s \<le> m then {s..m} \<union> {m + 1..e} = {s..e} \<and> {s..m} \<inter> {m + 1..e} = {}
    else {s..m} = {} \<and> {s..e} \<subseteq> {m + 1..e}"
proof -
  have "{m + 1..e} = {m<..e}" using assms(2) by (simp add: set_eq_iff)
  then show ?thesis using halve_linorder [OF assms(1), of s] by simp
qed

lemma byte_256: "(256 :: u8) = 0"
  by simp

text \<open>What the split thread expects of the answers it gets; the receiving handlers answer like this.\<close>

definition echoing :: "'w s2s_net \<Rightarrow> bool" where
  "echoing net \<longleftrightarrow>
     (\<forall>n req w. cs_type (snd (call_create net n req w)) = kSuccess \<and>
        cs_region_id (snd (call_create net n req w)) = cq_region_id req) \<and>
     (\<forall>n req w. ls_type (snd (call_log net n req w)) = kSuccess \<and>
        ls_log_status (snd (call_log net n req w)) = lq_log_status req)"

lemma publish_split_Inr:
  assumes "region_map c left_id = Some old" "map_of (global_region_map g) (sr_id old) \<noteq> None"
    and "drop_bit 1 (hi (end_key old)) \<noteq> 0"
  shows "\<exists>g'. publish_split region left_id (c, g) =
    Inr (upd_region left_id (\<lambda>r. r\<lparr>end_key := (end_key old)\<lparr>hi := drop_bit 1 (hi (end_key old))\<rparr>,
        region_status := SplitAlmostDone\<rparr>) c, g') \<and>
    num_server_sessions g' = num_server_sessions g \<and>
    (sr_id region \<noteq> sr_id old \<and> map_of (global_region_map g) (sr_id region) = None \<longrightarrow>
      map_of (global_region_map g') (sr_id region) =
        Some (mk_ClientRegion (sr_id region) (start_key region) (end_key region)))"
  using assms
  by (auto simp: publish_split_def alist_insert_def mk_ClientRegion_def map_of_filter_key Let_def)

section \<open>Concrete states\<close>

definition demo_region :: ServerRegion where
  "demo_region = (new_ServerRegion 4 (mk_RegionKey 0 512) (mk_RegionKey 0 1023))\<lparr>left_region_id := 0\<rparr>"

definition echo_net :: "unit s2s_net" where
  "echo_net =
     \<lparr>call_create = (\<lambda>n req w. (w, \<lparr>cs_type = kSuccess, cs_region_id = cq_region_id req\<rparr>)),
      call_send = (\<lambda>n req w. (w, \<lparr>ss_type = kSuccess, ss_is_uncomplete = 0, ss_region_id = sq_region_id req,
         ss_pinode_hash = 0, ss_pinode = 0, ss_offset = 0\<rparr>)),
      call_log = (\<lambda>n req w. (w, \<lparr>ls_type = kSuccess, ls_log_status = lq_log_status req,
         ls_region_id = lq_region_id req, ls_next_log_id = lq_next_log_id req\<rparr>))\<rparr>"

lemma echo_net_echoes: "echoing echo_net"
  by (simp add: echoing_def echo_net_def)

definition demo_dir_ctx :: "(ref_db, ref_log) server_context" where
  "demo_dir_ctx = (fst demo_dir_state)\<lparr>pinode_table := [600 \<mapsto> [0x8000000000000001]]\<rparr>"

definition demo_create_req :: create_region_req where
  "demo_create_req = \<lparr>cq_region_id = 4, cq_start_key = mk_RegionKey 0 512, cq_end_key = mk_RegionKey 0 1023\<rparr>"

definition demo_create_resp :: create_region_resp where
  "demo_create_resp = \<lparr>cs_type = kFail, cs_region_id = 0\<rparr>"

definition demo_log_resp :: send_log_resp where
  "demo_log_resp = \<lparr>ls_type = kFail, ls_log_status = 0, ls_region_id = 0, ls_next_log_id = 0\<rparr>"

definition demo_split_ctx :: "(ref_db, ref_log) server_context" where
  "demo_split_ctx = (fst demo_state)\<lparr>region_map :=
     [0 \<mapsto> (new_ServerRegion 0 (mk_RegionKey 0 0) (mk_RegionKey 0 1023))\<lparr>region_status := IsSplit\<rparr>,
      4 \<mapsto> demo_region]\<rparr>"

section \<open>Properties\<close>



text \<open>
  C25: The switch-over splits the range of the old region \<open>[s, e]\<close> into \<open>[s, e div 2]\<close> and
  \<open>[e div 2 + 1, e]\<close>. These partition the old range exactly when \<open>s \<le> e div 2\<close>; otherwise the old
  region is left with no hash at all and the new one covers its whole range.
\<close>

theorem split_ranges:
  assumes "region_map c left_id = Some old" "publish_split region left_id (c, g) = Inr (c', g')"
    and "hi (start_key region) = drop_bit 1 (hi (end_key old)) + 1" "hi (end_key region) = hi (end_key old)"
    and "sr_id region \<noteq> sr_id old"
  shows "\<exists>left. region_map c' left_id = Some left \<and> region_status left = SplitAlmostDone \<and>
    map_of (global_region_map g') (sr_id old) = Some (mk_ClientRegion (sr_id old) (start_key left) (end_key left)) \<and>
    (if hi (start_key old) \<le> drop_bit 1 (hi (end_key old))
     then region_hashes left \<union> region_hashes region = region_hashes old \<and>
       region_hashes left \<inter> region_hashes region = {}
     else region_hashes left = {} \<and> region_hashes old \<subseteq> region_hashes region)"
proof -
  let ?m = "drop_bit 1 (hi (end_key old))"
  let ?left = "old\<lparr>end_key := (end_key old)\<lparr>hi := ?m\<rparr>, region_status := SplitAlmostDone\<rparr>"
  have le: "?m \<le> hi (end_key old)"
    by (simp only: word_le_nat_alt unat_drop_bit_eq) (simp only: drop_bit_eq_div, simp)
  have "unat (hi (end_key old)) < 2 ^ 64"
    by (rule order_less_le_trans [OF unsigned_less]) simp
  then have "unat ?m < 2 ^ 63"
    by (simp only: unat_drop_bit_eq) (simp only: drop_bit_eq_div, simp)
  moreover have "unat (- 1 :: u64) = 2 ^ 64 - 1" by (simp add: unsigned_minus_1_eq_mask mask_eq_exp_minus_1)
  ultimately have "?m \<noteq> - 1" by auto
  then have succ: "?m + 1 \<le> h \<longleftrightarrow> ?m < h" for h by (rule word_add1_le)
  have hs: "region_hashes ?left = {hi (start_key old)..?m}"
    "region_hashes region = {?m + 1..hi (end_key old)}"
    "region_hashes old = {hi (start_key old)..hi (end_key old)}"
    by (simp_all add: region_hashes_def assms(3,4))
  have sets: "if hi (start_key old) \<le> ?m
     then region_hashes ?left \<union> region_hashes region = region_hashes old \<and>
       region_hashes ?left \<inter> region_hashes region = {}
     else region_hashes ?left = {} \<and> region_hashes old \<subseteq> region_hashes region"
    unfolding hs by (rule halve_interval [OF le succ])
  have pub: "region_map c' left_id = Some ?left"
    "map_of (global_region_map g') (sr_id old) =
       Some (mk_ClientRegion (sr_id old) (start_key ?left) (end_key ?left))"
    using assms(2,5)
    by (auto simp: publish_split_def assms(1) alist_insert_def mk_ClientRegion_def map_of_eq_None_iff Let_def
        split: if_splits)
  show ?thesis
    by (rule exI [of _ ?left], intro conjI pub sets) simp
qed

theorem split_ranges_witness:
  "\<exists>c' g' left. publish_split demo_region 0 (demo_split_ctx, snd demo_state) = Inr (c', g') \<and>
     region_map c' 0 = Some left \<and> region_hashes left \<inter> region_hashes demo_region = {}"
proof -
  obtain g' where run: "publish_split demo_region 0 (demo_split_ctx, snd demo_state) =
      Inr (upd_region 0 (\<lambda>r. r\<lparr>end_key := (mk_RegionKey 0 1023)\<lparr>hi := drop_bit 1 1023\<rparr>,
        region_status := SplitAlmostDone\<rparr>) demo_split_ctx, g')"
    using publish_split_Inr [of demo_split_ctx 0
        "(new_ServerRegion 0 (mk_RegionKey 0 0) (mk_RegionKey 0 1023))\<lparr>region_status := IsSplit\<rparr>"
        "snd demo_state" demo_region]
    by (auto simp: demo_split_ctx_def demo_state_eq new_ServerRegion_def mk_RegionKey_def)
  from split_ranges [OF _ run, of
      "(new_ServerRegion 0 (mk_RegionKey 0 0) (mk_RegionKey 0 1023))\<lparr>region_status := IsSplit\<rparr>"] run
  show ?thesis
    by (auto simp: demo_split_ctx_def demo_region_def new_ServerRegion_def mk_RegionKey_def)
qed

text \<open>
  Of the initial regions only the first can be split into two proper halves: the range of every
  other thread's region starts above half of its end, so its first split leaves it empty.
\<close>

theorem only_first_region_halves:
  assumes "i < 2 ^ 20" "server_global_id server_id fg_threads tid = of_nat i"
  shows "\<exists>r. region_map (fst (init_server_context server_id fg_threads tid db l g)) (of_nat i) = Some r \<and>
    (hi (start_key r) \<le> drop_bit 1 (hi (end_key r)) \<longleftrightarrow> i = 0)"
proof -
  have "(of_nat (1024 * i) :: u64) \<le> drop_bit 1 (of_nat (1024 * i + 1023)) \<longleftrightarrow> i = 0"
    by (simp only: word_le_nat_alt unat_drop_bit_eq unat_initial_bounds [OF assms(1)])
      (simp only: drop_bit_eq_div, auto)
  then show ?thesis
    by (simp only: initial_region [OF assms]) (simp add: new_ServerRegion_def mk_RegionKey_def
        del: of_nat_add of_nat_mult)
qed

theorem only_first_region_halves_witness:
  "\<exists>r. region_map (fst (init_server_context 1 2 1 empty_db ([] :: ref_log) (no_regions 4))) 3 = Some r \<and>
     \<not> hi (start_key r) \<le> drop_bit 1 (hi (end_key r))"
  using only_first_region_halves [of 3 1 2 1 empty_db "[] :: ref_log" "no_regions 4"]
  by (auto simp: server_global_id_def)

text \<open>
  C23: Every request that ships log entries stays within its 3712-byte array and carries a prefix of
  the entries found, in order, provided every logged value has the size the log writer gives it (at
  most 200 bytes).
\<close>

theorem log_batch_fits:
  assumes "\<forall>e \<in> set logs. \<exists>u del p f st i. log_value u del p f st i = Inr (snd e)"
  shows "\<exists>k \<le> length logs. fill_batch logs (0, []) = (k, concat (map snd (take k logs))) \<and>
    length (concat (map snd (take k logs))) \<le> MSG_ENTEY_MAX_SIZE \<and>
    (logs \<noteq> [] \<longrightarrow> 0 < k)"
proof -
  have "\<forall>e \<in> set logs. length (snd e) \<le> region_log_max_size" using assms log_value_bound by blast
  from fill_batch_prefix [OF this, of "[]" 0] obtain k where
    "k \<le> length logs" "fill_batch logs (0, []) = (k, concat (map snd (take k logs)))"
    "length (snd (fill_batch logs (0, []))) \<le> MSG_ENTEY_MAX_SIZE"
    by auto
  moreover have "logs \<noteq> [] \<Longrightarrow> 0 < fst (fill_batch logs (0, []))"
    by (rule fill_batch_nonempty)
  ultimately show ?thesis by auto
qed

theorem log_batch_fits_witness:
  "\<exists>k \<le> 1. fill_batch [([], le_bytes 8 (7 :: u64) @ cstring [97])] (0, []) =
     (k, concat (map snd (take k [([] :: u8 list, le_bytes 8 (7 :: u64) @ cstring [97])]))) \<and> 0 < k"
proof -
  let ?logs = "[([] :: u8 list, le_bytes 8 (7 :: u64) @ cstring [97])]"
  have "log_value demo_uninit True 7 [97] None 0 = Inr (le_bytes 8 (7 :: u64) @ cstring [97])"
    by (simp add: log_value_def delete_log_val_slice_def METAFS_MAX_FNAME_LEN_def)
  then have "\<forall>e \<in> set ?logs. \<exists>u del p f st i. log_value u del p f st i = Inr (snd e)"
    by (simp del: le_bytes.simps) blast
  from log_batch_fits [OF this] show ?thesis by (simp del: fill_batch.simps) blast
qed

text \<open>
  The log is not read in the order it was written: the keys hold their numbers little-endian and
  the store orders them byte by byte, so entry 256 of a region comes before entry 1, and a batch that
  resumes at entry 1 never contains entry 256.
\<close>

theorem log_order_not_numeric:
  assumes "log_laws ldb ok logs" "ok l"
  shows "bytewise_le (log_key_slice r 256) (log_key_slice r 1) \<and>
    (\<forall>v. (log_key_slice r 256, v) \<notin> set (log_Seek ldb l (log_key_slice r 1)))"
proof -
  have app: "bytewise_le (xs @ ys) (xs @ zs) = bytewise_le ys zs" for xs ys zs
    by (induction xs) simp_all
  have "bytewise_le (log_key_slice r 256) (log_key_slice r 1)"
    "\<not> bytewise_le (log_key_slice r 1) (log_key_slice r 256)"
    by (simp_all add: log_key_slice_def app le_bytes4_eval byte_256)
  then show ?thesis using assms by (auto simp: log_laws_def)
qed

theorem log_order_not_numeric_witness:
  "bytewise_le (log_key_slice 0 256) (log_key_slice 0 1) \<and>
   (\<forall>v. (log_key_slice 0 256, v) \<notin> set (log_Seek ref_logdb [] (log_key_slice 0 1)))"
  by (rule log_order_not_numeric [OF ref_logdb_laws]) (simp add: ref_log_wf_def)


text \<open>
  Rebuilding a region on the target keeps only the lowest byte of the parent inode and of the
  inode of each entry.
\<close>

theorem rebuild_truncates_inodes:
  assumes "is_cstr fname"
  shows "build_region kv u (Suc n) (le_bytes 8 pinode @ cstring fname @ le_bytes 8 inode @ rest) db =
    (case InsertFileInode kv db (take_bit 8 pinode) (cstring fname) (take_bit 8 inode) of
       (status, db) \<Rightarrow>
         build_region kv u n rest
           (if check_status_ok status then snd (InsertStat kv db (take_bit 8 inode) (u_stat u)) else db))"
  using assms by (simp add: read_inode_le_bytes read_fname_cstring)

theorem rebuild_truncates_inodes_witness:
  "\<exists>db. build_region ref_kv demo_uninit 1 (le_bytes 8 (0x1234 :: u64) @ cstring [97] @ le_bytes 8 (0x105 :: u64))
       empty_db = Inr db \<and>
     ref_names_view db (0x34, [97, 0]) = Some 5"
  using rebuild_truncates_inodes [of "[97]" ref_kv demo_uninit 0 "0x1234" "0x105" "[]" empty_db]
  by (simp add: is_cstr_def ref_kv_def empty_db_def cstring_def check_status_ok_def take_bit_word_eq_self
      del: build_region.simps(2))

text \<open>
  A migration whose range holds no entries and whose region has no log completes: the new region
  leaves the sender's region map and is published with its range, and the old region goes back to
  normal service with its end halved.
\<close>

theorem empty_migration_completes:
  assumes laws: "scan_laws kv names" "echoing net"
    and region: "region_map c rid = Some region" "sr_id region = rid" "hi (end_key region) \<noteq> - 1"
    and left: "region_map c (left_region_id region) = Some left" "sr_id left = left_region_id region"
      "left_region_id region \<noteq> rid" "region_status left = IsSplit" "log_id left = 0"
      "drop_bit 1 (hi (end_key left)) \<noteq> 0"
    and g: "map_of (global_region_map g) (left_region_id region) \<noteq> None" "map_of (global_region_map g) rid = None"
    and none: "log_Seek ldb (log_db c) (log_key_slice (left_region_id region) 0) = []"
      "\<forall>d \<in> dirs_from c region (hi (start_key region)). \<not> has_entries names c d"
  shows "\<exists>c' g' w'. rpc_create_region kv ldb net rid ((c, g), w) = Inr ((c', g'), w') \<and>
    region_map c' rid = None \<and>
    region_map c' (left_region_id region) =
      Some (left\<lparr>end_key := (end_key left)\<lparr>hi := drop_bit 1 (hi (end_key left))\<rparr>, region_status := Normal\<rparr>) \<and>
    map_of (global_region_map g') rid = Some (mk_ClientRegion rid (start_key region) (end_key region))"
proof -
  let ?lid = "left_region_id region"
  obtain w1 r1 where cr: "call_create net (server_session_id (num_server_sessions g) rid)
      \<lparr>cq_region_id = rid, cq_start_key = start_key region, cq_end_key = end_key region\<rparr> w = (w1, r1)"
    by fastforce
  have r1: "cs_type r1 = kSuccess" "cs_region_id r1 = rid"
    using laws(2) cr unfolding echoing_def by (metis create_region_req.select_convs(1) snd_conv)+
  have send: "send_hashes kv net region (hi (start_key region)) ((c, g), w1) = Inr ((c, g), w1)"
    using send_hashes_result [OF laws(1) region(3), of "((c, g), w1)" "hi (start_key region)" net] none(2)
    by (auto split: if_splits)
  obtain g' where pub: "publish_split region ?lid (c, g) =
      Inr (upd_region ?lid (\<lambda>r. r\<lparr>end_key := (end_key left)\<lparr>hi := drop_bit 1 (hi (end_key left))\<rparr>,
        region_status := SplitAlmostDone\<rparr>) c, g')"
    "num_server_sessions g' = num_server_sessions g"
    "map_of (global_region_map g') rid = Some (mk_ClientRegion rid (start_key region) (end_key region))"
    using publish_split_Inr [OF left(1), of g region] g left region(2) by auto
  define req where "req = \<lparr>lq_region_id = rid, lq_log_status = LogStatus_code Done, lq_next_log_id = 0,
      lq_num_logs = 0, lq_entries_len = 0, lq_entries = []\<rparr>"
  obtain w2 r2 where lg: "call_log net (server_session_id (num_server_sessions g) rid) req w1 = (w2, r2)"
    by fastforce
  have r2: "ls_type r2 = kSuccess" "ls_log_status r2 = LogStatus_code Done"
    using laws(2) lg unfolding echoing_def by (metis req_def send_log_req.select_convs(2) snd_conv)+
  let ?c = "upd_region ?lid (\<lambda>r. r\<lparr>end_key := (end_key left)\<lparr>hi := drop_bit 1 (hi (end_key left))\<rparr>,
      region_status := SplitAlmostDone\<rparr>) c"
  let ?c' = "upd_region ?lid (\<lambda>r. r\<lparr>log_id := 0, region_status := Normal\<rparr>)
      (?c\<lparr>region_map := (region_map ?c)(rid := None)\<rparr>)"
  have "log_status_of 0 = Done" by (simp add: log_status_of_def)
  then have "log_round ldb net region 0 ((c, g), w1) = Inr (None, ((?c', g'), w2))"
    using left lg r2 none(1) pub region(2) unfolding req_def
    by (simp add: log_round_def Let_def)
  then have "rpc_send_region_log ldb net region 0 ((c, g), w1) = Some (Inr ((?c', g'), w2))"
    by (subst rpc_send_region_log.simps) simp
  then have run: "rpc_create_region kv ldb net rid ((c, g), w) = Inr ((?c', g'), w2)"
    using region(1) cr r1 send by (simp add: rpc_create_region_def rpc_create_region_cb_def rpc_send_region_def)
  have "region_map ?c' rid = None" "region_map ?c' ?lid =
      Some (left\<lparr>end_key := (end_key left)\<lparr>hi := drop_bit 1 (hi (end_key left))\<rparr>, region_status := Normal\<rparr>)"
    using left by (simp_all add: upd_region_def)
  with run pub(3) show ?thesis by blast
qed

theorem empty_migration_completes_witness:
  "\<exists>c' g' w'. rpc_create_region ref_kv ref_logdb echo_net 4 ((demo_split_ctx, snd demo_state), ()) =
       Inr ((c', g'), w') \<and>
     region_map c' 4 = None \<and>
     map_of (global_region_map g') 4 = Some (mk_ClientRegion 4 (mk_RegionKey 0 512) (mk_RegionKey 0 1023))"
proof -
  let ?left = "(new_ServerRegion 0 (mk_RegionKey 0 0) (mk_RegionKey 0 1023))\<lparr>region_status := IsSplit\<rparr>"
  have "\<exists>c' g' w'. rpc_create_region ref_kv ref_logdb echo_net 4 ((demo_split_ctx, snd demo_state), ()) =
       Inr ((c', g'), w') \<and> region_map c' 4 = None \<and>
    region_map c' (left_region_id demo_region) =
      Some (?left\<lparr>end_key := (end_key ?left)\<lparr>hi := drop_bit 1 (hi (end_key ?left))\<rparr>, region_status := Normal\<rparr>) \<and>
    map_of (global_region_map g') 4 = Some (mk_ClientRegion 4 (start_key demo_region) (end_key demo_region))"
    by (rule empty_migration_completes [OF ref_kv_scan_laws echo_net_echoes])
      (simp_all add: demo_split_ctx_def demo_state_eq demo_region_def new_ServerRegion_def mk_RegionKey_def
        ref_logdb_def dirs_from_def)
  then show ?thesis by (auto simp: demo_region_def new_ServerRegion_def)
qed



end
