(* ===== verification/Lru.thy ===== *)
theory Lru
  imports Prelude "HOL-Library.AList"
begin

text \<open>
  \<open>include/common/lrucache.h\<close> and \<open>include/client/dentry_cache.h\<close>: the LRU cache and the
  directory-entry cache built on it. The cache keeps a linked list of key/value nodes in
  recency order and a hash map from keys to list iterators; the model keeps both, with an
  iterator as the address of its node, so that a dangling iterator is an error value. The
  invariant ties the two structures together; under it every operation refines the
  operation on the recency list alone.
\<close>

section \<open>The cache\<close>

datatype lru_error = KeyNotFound | BadIterator

record ('k, 'v) cache =
  cache_map :: "('k \<times> nat) list"
  keys_list :: "(nat \<times> 'k \<times> 'v) list"
  maxSize :: nat
  elasticity :: nat
  next_node :: nat

definition new_cache :: "nat \<Rightarrow> nat \<Rightarrow> ('k, 'v) cache" where
  "new_cache ms el = \<lparr>cache_map = [], keys_list = [], maxSize = ms, elasticity = el, next_node = 0\<rparr>"

definition cache_size :: "('k, 'v) cache \<Rightarrow> nat" where
  "cache_size c = length (cache_map c)"

definition cache_empty :: "('k, 'v) cache \<Rightarrow> bool" where
  "cache_empty c \<longleftrightarrow> cache_map c = []"

definition cache_clear :: "('k, 'v) cache \<Rightarrow> ('k, 'v) cache" where
  "cache_clear c = c\<lparr>cache_map := [], keys_list := []\<rparr>"

text \<open>\<open>keys_.splice(keys_.begin(), keys_, it)\<close>: the node moves to the front, its address stays.\<close>

definition splice_front :: "nat \<Rightarrow> (nat \<times> 'k \<times> 'v) list \<Rightarrow> (nat \<times> 'k \<times> 'v) list" where
  "splice_front it ns = filter (\<lambda>n. fst n = it) ns @ filter (\<lambda>n. fst n \<noteq> it) ns"

definition set_value :: "nat \<Rightarrow> 'v \<Rightarrow> (nat \<times> 'k \<times> 'v) list \<Rightarrow> (nat \<times> 'k \<times> 'v) list" where
  "set_value it v ns = map (\<lambda>(i, k, w). (i, k, if i = it then v else w)) ns"

text \<open>
  The eviction loop of \<open>prune\<close>: while the map is over \<open>maxSize\<close>, erase the key of the last
  node and drop the node; \<open>keys_.back()\<close> of an empty list is an error.
\<close>

function prune_loop :: "('k, 'v) cache \<Rightarrow> nat \<Rightarrow> lru_error + (('k, 'v) cache \<times> nat)" where
  "prune_loop c count =
     (if maxSize c < cache_size c
      then if keys_list c = [] then Inl BadIterator
           else prune_loop (c\<lparr>cache_map := AList.delete (fst (snd (last (keys_list c)))) (cache_map c),
                             keys_list := butlast (keys_list c)\<rparr>) (Suc count)
      else Inr (c, count))"
  by pat_completeness auto
termination
  by (relation "measure (\<lambda>(c, count). length (keys_list c))") auto

declare prune_loop.simps [simp del]

definition prune :: "('k, 'v) cache \<Rightarrow> lru_error + (('k, 'v) cache \<times> nat)" where
  "prune c =
     (let maxAllowed = maxSize c + elasticity c
      in if maxSize c = 0 \<or> cache_size c < maxAllowed then Inr (c, 0) else prune_loop c 0)"

definition cache_insert :: "('k, 'v) cache \<Rightarrow> 'k \<Rightarrow> 'v \<Rightarrow> lru_error + ('k, 'v) cache" where
  "cache_insert c k v =
     (case map_of (cache_map c) k of
        Some it \<Rightarrow>
          (case map_of (keys_list c) it of
             None \<Rightarrow> Inl BadIterator
           | Some _ \<Rightarrow> Inr (c\<lparr>keys_list := splice_front it (set_value it v (keys_list c))\<rparr>))
      | None \<Rightarrow>
          (let it = next_node c;
               c' = c\<lparr>keys_list := (it, k, v) # keys_list c,
                      cache_map := AList.update k it (cache_map c),
                      next_node := Suc it\<rparr>
           in map_sum id fst (prune c')))"

definition tryGet :: "('k, 'v) cache \<Rightarrow> 'k \<Rightarrow> lru_error + ('v option \<times> ('k, 'v) cache)" where
  "tryGet c k =
     (case map_of (cache_map c) k of
        None \<Rightarrow> Inr (None, c)
      | Some it \<Rightarrow>
          (case map_of (keys_list c) it of
             None \<Rightarrow> Inl BadIterator
           | Some (_, v) \<Rightarrow> Inr (Some v, c\<lparr>keys_list := splice_front it (keys_list c)\<rparr>)))"

definition cache_get :: "('k, 'v) cache \<Rightarrow> 'k \<Rightarrow> lru_error + ('v \<times> ('k, 'v) cache)" where
  "cache_get c k =
     (case map_of (cache_map c) k of
        None \<Rightarrow> Inl KeyNotFound
      | Some it \<Rightarrow>
          (case map_of (keys_list c) it of
             None \<Rightarrow> Inl BadIterator
           | Some (_, v) \<Rightarrow> Inr (v, c\<lparr>keys_list := splice_front it (keys_list c)\<rparr>)))"

definition getCopy :: "('k, 'v) cache \<Rightarrow> 'k \<Rightarrow> lru_error + ('v \<times> ('k, 'v) cache)" where
  "getCopy c k = cache_get c k"

definition cache_remove :: "('k, 'v) cache \<Rightarrow> 'k \<Rightarrow> bool \<times> ('k, 'v) cache" where
  "cache_remove c k =
     (case map_of (cache_map c) k of
        None \<Rightarrow> (False, c)
      | Some it \<Rightarrow> (True, c\<lparr>keys_list := filter (\<lambda>n. fst n \<noteq> it) (keys_list c),
                              cache_map := AList.delete k (cache_map c)\<rparr>))"

definition cache_contains :: "('k, 'v) cache \<Rightarrow> 'k \<Rightarrow> bool" where
  "cache_contains c k \<longleftrightarrow> map_of (cache_map c) k \<noteq> None"

definition getMaxAllowedSize :: "('k, 'v) cache \<Rightarrow> nat" where
  "getMaxAllowedSize c = maxSize c + elasticity c"

definition cwalk :: "('k \<times> 'v \<Rightarrow> 's \<Rightarrow> 's) \<Rightarrow> ('k, 'v) cache \<Rightarrow> 's \<Rightarrow> 's" where
  "cwalk f c s = fold (\<lambda>n. f (snd n)) (keys_list c) s"

section \<open>The invariant\<close>

definition node_index :: "(nat \<times> 'k \<times> 'v) list \<Rightarrow> ('k \<times> nat) list" where
  "node_index ns = map (\<lambda>n. (fst (snd n), fst n)) ns"

definition cache_inv :: "('k, 'v) cache \<Rightarrow> bool" where
  "cache_inv c \<longleftrightarrow>
     distinct (map fst (keys_list c)) \<and>
     distinct (map (\<lambda>n. fst (snd n)) (keys_list c)) \<and>
     distinct (map fst (cache_map c)) \<and>
     set (cache_map c) = set (node_index (keys_list c)) \<and>
     (\<forall>n \<in> set (keys_list c). fst n < next_node c)"

text \<open>What the cache holds, most recently used first.\<close>

definition entries :: "('k, 'v) cache \<Rightarrow> ('k \<times> 'v) list" where
  "entries c = map snd (keys_list c)"


lemma new_cache_inv [simp]: "cache_inv (new_cache ms el)"
  by (simp add: cache_inv_def new_cache_def node_index_def)

lemma find_node:
  "cache_inv c \<Longrightarrow> map_of (cache_map c) k = Some it \<longleftrightarrow> (\<exists>v. (it, k, v) \<in> set (keys_list c))"
  by (auto simp: cache_inv_def node_index_def image_iff)
    (metis fst_conv snd_conv)

lemma find_node_None:
  "cache_inv c \<Longrightarrow> map_of (cache_map c) k = None \<longleftrightarrow> k \<notin> fst ` set (entries c)"
  by (simp add: map_of_eq_None_iff cache_inv_def entries_def node_index_def image_image)

lemma deref_node:
  "cache_inv c \<Longrightarrow> map_of (keys_list c) it = Some p \<longleftrightarrow> (it, p) \<in> set (keys_list c)"
  by (simp add: cache_inv_def)

lemma length_node_index: "cache_inv c \<Longrightarrow> cache_size c = length (keys_list c)"
proof -
  assume inv: "cache_inv c"
  have "distinct (node_index (keys_list c))"
    using inv by (auto simp: cache_inv_def node_index_def distinct_map inj_on_def)
  moreover have "distinct (cache_map c)"
    using inv by (simp add: cache_inv_def distinct_map)
  moreover have "set (cache_map c) = set (node_index (keys_list c))"
    using inv by (simp add: cache_inv_def)
  ultimately have "length (cache_map c) = length (node_index (keys_list c))"
    by (metis distinct_card)
  then show ?thesis by (simp add: cache_size_def node_index_def)
qed

lemma map_of_entries:
  "cache_inv c \<Longrightarrow> map_of (entries c) k = Some v \<longleftrightarrow> (\<exists>it. (it, k, v) \<in> set (keys_list c))"
proof -
  assume "cache_inv c"
  then have "distinct (map fst (entries c))"
    by (simp add: cache_inv_def entries_def comp_def)
  then show ?thesis by (force simp: entries_def)
qed

text \<open>A node's key determines its address, and the other way round.\<close>

lemma node_key_unique:
  "cache_inv c \<Longrightarrow> (i, k, v) \<in> set (keys_list c) \<Longrightarrow> (j, l, w) \<in> set (keys_list c) \<Longrightarrow>
   (i = j) = (k = l)"
  by (simp add: cache_inv_def distinct_map inj_on_def) force

lemma filter_address_key:
  assumes "cache_inv c" and "(it, k, v) \<in> set (keys_list c)"
  shows "map snd (filter (\<lambda>n. fst n = it) (keys_list c)) = filter (\<lambda>p. fst p = k) (entries c)"
    and "map snd (filter (\<lambda>n. fst n \<noteq> it) (keys_list c)) = filter (\<lambda>p. fst p \<noteq> k) (entries c)"
proof -
  have eq: "(fst n = it) = (fst (snd n) = k)" if "n \<in> set (keys_list c)" for n
    using node_key_unique [OF assms(1) _ assms(2), of "fst n" "fst (snd n)" "snd (snd n)"] that
    by simp
  show "map snd (filter (\<lambda>n. fst n = it) (keys_list c)) = filter (\<lambda>p. fst p = k) (entries c)"
    "map snd (filter (\<lambda>n. fst n \<noteq> it) (keys_list c)) = filter (\<lambda>p. fst p \<noteq> k) (entries c)"
    using eq by (simp_all add: entries_def filter_map comp_def cong: filter_cong)
qed

section \<open>The recency list as the specification\<close>

definition promote :: "'k \<Rightarrow> ('k \<times> 'v) list \<Rightarrow> ('k \<times> 'v) list" where
  "promote k xs = filter (\<lambda>p. fst p = k) xs @ filter (\<lambda>p. fst p \<noteq> k) xs"

definition lru_evict :: "nat \<Rightarrow> nat \<Rightarrow> ('k \<times> 'v) list \<Rightarrow> ('k \<times> 'v) list" where
  "lru_evict ms el xs = (if ms = 0 \<or> length xs < ms + el then xs else take ms xs)"

definition lru_insert :: "nat \<Rightarrow> nat \<Rightarrow> 'k \<Rightarrow> 'v \<Rightarrow> ('k \<times> 'v) list \<Rightarrow> ('k \<times> 'v) list" where
  "lru_insert ms el k v xs =
     (if k \<in> fst ` set xs then (k, v) # filter (\<lambda>p. fst p \<noteq> k) xs
      else lru_evict ms el ((k, v) # xs))"

lemma map_of_filter_split:
  "map_of (filter (\<lambda>p. fst p = k) xs) j = (if j = k then map_of xs j else None)"
  "map_of (filter (\<lambda>p. fst p \<noteq> k) xs) j = (if j = k then None else map_of xs j)"
  by (induction xs) auto

lemma filter_key_absent:
  "k \<notin> fst ` set xs \<Longrightarrow> filter (\<lambda>p. fst p = k) xs = []"
  "k \<notin> fst ` set xs \<Longrightarrow> filter (\<lambda>p. fst p \<noteq> k) xs = xs"
  by (induction xs) auto

lemma map_of_promote: "map_of (promote k xs) = map_of xs"
  by (rule ext) (simp add: promote_def map_add_def map_of_filter_split split: option.split)

lemma length_promote: "length (promote k xs) = length xs"
  by (simp add: promote_def sum_length_filter_compl)

text \<open>Eviction leaves the most recent entries and stops at \<open>maxSize\<close> of them.\<close>

lemma prune_step_inv:
  assumes inv: "cache_inv c" and ne: "keys_list c \<noteq> []"
  shows "cache_inv (c\<lparr>cache_map := AList.delete (fst (snd (last (keys_list c)))) (cache_map c),
                      keys_list := butlast (keys_list c)\<rparr>)"
proof -
  obtain ns i k v where ns: "keys_list c = ns @ [(i, k, v)]"
    using ne by (metis prod_cases3 rev_exhaust)
  have "k \<notin> (\<lambda>n. fst (snd n)) ` set ns"
    using inv by (simp add: cache_inv_def ns)
  then have "{p \<in> set (node_index ns) \<union> {(k, i)}. fst p \<noteq> k} = set (node_index ns)"
    by (force simp: node_index_def)
  with inv show ?thesis
    by (simp add: cache_inv_def ns AList.delete_eq node_index_def distinct_map_filter split_def
        eq_commute [of k])
qed

lemma prune_loop_ok:
  "cache_inv c \<Longrightarrow>
   \<exists>c'. prune_loop c n = Inr (c', n + (cache_size c - maxSize c)) \<and> cache_inv c' \<and>
        keys_list c' = take (maxSize c) (keys_list c) \<and>
        maxSize c' = maxSize c \<and> elasticity c' = elasticity c"
proof (induction c n rule: prune_loop.induct)
  case (1 c n)
  note size = length_node_index [OF "1.prems"]
  show ?case
  proof (cases "maxSize c < cache_size c")
    case False
    with "1.prems" size show ?thesis by (auto simp: prune_loop.simps [of c n])
  next
    case True
    with size have ne: "keys_list c \<noteq> []" by auto
    let ?c = "c\<lparr>cache_map := AList.delete (fst (snd (last (keys_list c)))) (cache_map c),
                keys_list := butlast (keys_list c)\<rparr>"
    have inv: "cache_inv ?c" using "1.prems" ne by (rule prune_step_inv)
    have "cache_size ?c = cache_size c - 1"
      using length_node_index [OF inv] size by simp
    moreover have "take (maxSize c) (butlast (keys_list c)) = take (maxSize c) (keys_list c)"
      using True size by (simp add: take_butlast)
    ultimately show ?thesis
      using "1.IH" [OF True ne inv] True ne by (auto simp: prune_loop.simps [of c n])
  qed
qed

lemma update_new: "k \<notin> fst ` set al \<Longrightarrow> AList.update k v al = al @ [(k, v)]"
  by (induction al) auto

lemma set_splice_front [simp]: "set (splice_front it ns) = set ns"
  by (auto simp: splice_front_def)

lemma distinct_map_splice_front:
  "distinct (map f ns) \<Longrightarrow> distinct (map f (splice_front it ns))"
  by (simp add: distinct_map) (auto simp: splice_front_def)

lemma splice_front_inv [inv_intros]:
  "cache_inv c \<Longrightarrow> cache_inv (c\<lparr>keys_list := splice_front it (keys_list c)\<rparr>)"
  by (simp add: cache_inv_def distinct_map_splice_front node_index_def)

lemma splice_front_entries:
  assumes "cache_inv c" and "(it, k, v) \<in> set (keys_list c)"
  shows "entries (c\<lparr>keys_list := splice_front it (keys_list c)\<rparr>) = promote k (entries c)"
  using filter_address_key [OF assms]
  by (simp add: entries_def splice_front_def promote_def)

lemma set_value_inv [inv_intros]:
  "cache_inv c \<Longrightarrow> cache_inv (c\<lparr>keys_list := set_value it v (keys_list c)\<rparr>)"
  by (auto simp: cache_inv_def set_value_def node_index_def comp_def split_def image_image)

lemma set_value_member:
  "(it, k, w) \<in> set ns \<Longrightarrow> (it, k, v) \<in> set (set_value it v ns)"
  by (force simp: set_value_def)

lemma filter_upd_same:
  "distinct (map fst xs) \<Longrightarrow>
   filter (\<lambda>p. fst p = k) (map (\<lambda>p. if fst p = k then (k, v) else p) xs) =
   (if k \<in> fst ` set xs then [(k, v)] else [])"
  by (induction xs) auto

lemma filter_upd_other:
  "filter (\<lambda>p. fst p \<noteq> k) (map (\<lambda>p. if fst p = k then (k, v) else p) xs) =
   filter (\<lambda>p. fst p \<noteq> k) xs"
  by (induction xs) auto

lemma promote_upd:
  "distinct (map fst xs) \<Longrightarrow> k \<in> fst ` set xs \<Longrightarrow>
   promote k (map (\<lambda>p. if fst p = k then (k, v) else p) xs) = (k, v) # filter (\<lambda>p. fst p \<noteq> k) xs"
  by (simp only: promote_def filter_upd_same filter_upd_other) simp

lemma set_value_entries:
  assumes "cache_inv c" and "(it, k, w) \<in> set (keys_list c)"
  shows "promote k (entries (c\<lparr>keys_list := set_value it v (keys_list c)\<rparr>)) =
         (k, v) # filter (\<lambda>p. fst p \<noteq> k) (entries c)"
proof -
  have "(fst n = it) = (fst (snd n) = k)" if "n \<in> set (keys_list c)" for n
    using node_key_unique [OF assms(1) _ assms(2), of "fst n" "fst (snd n)" "snd (snd n)"] that
    by simp
  then have "entries (c\<lparr>keys_list := set_value it v (keys_list c)\<rparr>) =
      map (\<lambda>p. if fst p = k then (k, v) else p) (entries c)"
    by (auto simp: entries_def set_value_def)
  moreover have "distinct (map fst (entries c))"
    using assms(1) by (simp add: cache_inv_def entries_def comp_def)
  moreover have "k \<in> fst ` set (entries c)"
    using assms(2) by (force simp: entries_def)
  ultimately show ?thesis by (simp add: promote_upd)
qed

lemma cache_insert_refines:
  assumes inv: "cache_inv c"
  shows "\<exists>c'. cache_insert c k v = Inr c' \<and> cache_inv c' \<and>
              entries c' = lru_insert (maxSize c) (elasticity c) k v (entries c) \<and>
              maxSize c' = maxSize c \<and> elasticity c' = elasticity c"
proof (cases "map_of (cache_map c) k")
  case (Some it)
  then obtain w where w: "(it, k, w) \<in> set (keys_list c)" using find_node [OF inv] by blast
  let ?c = "c\<lparr>keys_list := set_value it v (keys_list c)\<rparr>"
  have inv': "cache_inv ?c" using inv by (rule set_value_inv)
  have w': "(it, k, v) \<in> set (keys_list ?c)" using w by (simp add: set_value_member)
  have "k \<in> fst ` set (entries c)" using w by (force simp: entries_def)
  moreover have "cache_insert c k v = Inr (?c\<lparr>keys_list := splice_front it (keys_list ?c)\<rparr>)"
    using Some w deref_node [OF inv, of it "(k, w)"] by (simp add: cache_insert_def)
  ultimately show ?thesis
    using splice_front_entries [OF inv' w'] set_value_entries [OF inv w]
      splice_front_inv [OF inv', of it]
    by (simp add: lru_insert_def)
next
  case None
  let ?c = "c\<lparr>keys_list := (next_node c, k, v) # keys_list c,
              cache_map := AList.update k (next_node c) (cache_map c),
              next_node := Suc (next_node c)\<rparr>"
  have new: "k \<notin> fst ` set (entries c)" using None find_node_None [OF inv] by blast
  have dom: "fst ` set (cache_map c) = (\<lambda>n. fst (snd n)) ` set (keys_list c)"
    using inv by (simp add: cache_inv_def node_index_def image_image)
  with new have upd: "cache_map ?c = cache_map c @ [(k, next_node c)]"
    by (simp add: update_new entries_def image_image)
  have "next_node c \<notin> fst ` set (keys_list c)"
    using inv by (auto simp: cache_inv_def)
  with inv new dom have inv': "cache_inv ?c"
    by (auto simp: cache_inv_def update_new node_index_def entries_def image_image less_Suc_eq)
  have len: "cache_size ?c = Suc (length (entries c))"
    using length_node_index [OF inv'] by (simp add: entries_def)
  have ins: "cache_insert c k v = map_sum id fst (prune ?c)"
    using None by (simp add: cache_insert_def Let_def)
  obtain c' where c': "prune_loop ?c 0 = Inr (c', cache_size ?c - maxSize c)" "cache_inv c'"
    "keys_list c' = take (maxSize c) (keys_list ?c)" "maxSize c' = maxSize c" "elasticity c' = elasticity c"
    using prune_loop_ok [OF inv', of 0] by auto
  show ?thesis
  proof (cases "maxSize c = 0 \<or> cache_size ?c < maxSize c + elasticity c")
    case True
    then have "prune ?c = Inr (?c, 0)" by (simp add: prune_def Let_def)
    with ins inv' new len True show ?thesis
      by (simp add: lru_insert_def lru_evict_def entries_def)
  next
    case False
    then have "prune ?c = prune_loop ?c 0" by (simp add: prune_def Let_def)
    moreover have "take (maxSize c) ((k, v) # entries c) = map snd (take (maxSize c) (keys_list ?c))"
      by (simp add: entries_def flip: take_map)
    ultimately show ?thesis
      using ins c' new len False by (simp add: lru_insert_def lru_evict_def entries_def)
  qed
qed

lemma tryGet_refines:
  assumes inv: "cache_inv c"
  shows "\<exists>c'. tryGet c k = Inr (map_of (entries c) k, c') \<and> cache_inv c' \<and>
              entries c' = promote k (entries c) \<and>
              maxSize c' = maxSize c \<and> elasticity c' = elasticity c"
proof (cases "map_of (cache_map c) k")
  case None
  then have out: "k \<notin> fst ` set (entries c)" using find_node_None [OF inv] by blast
  then have "map_of (entries c) k = None" by (simp add: map_of_eq_None_iff)
  moreover have "promote k (entries c) = entries c"
    using out by (simp add: promote_def filter_key_absent)
  ultimately show ?thesis using inv None by (simp add: tryGet_def)
next
  case (Some it)
  then obtain v where v: "(it, k, v) \<in> set (keys_list c)" using find_node [OF inv] by blast
  have "map_of (entries c) k = Some v" using v map_of_entries [OF inv] by blast
  then show ?thesis
    using Some v deref_node [OF inv, of it "(k, v)"] splice_front_entries [OF inv v]
      splice_front_inv [OF inv, of it]
    by (simp add: tryGet_def)
qed

lemma cache_get_tryGet:
  "cache_get c k = (case tryGet c k of
     Inl e \<Rightarrow> Inl e | Inr (None, c') \<Rightarrow> Inl KeyNotFound | Inr (Some v, c') \<Rightarrow> Inr (v, c'))"
  by (simp add: cache_get_def tryGet_def split: option.split)

lemma cache_remove_refines:
  assumes inv: "cache_inv c"
  shows "fst (cache_remove c k) = (k \<in> fst ` set (entries c)) \<and>
         cache_inv (snd (cache_remove c k)) \<and>
         entries (snd (cache_remove c k)) = filter (\<lambda>p. fst p \<noteq> k) (entries c)"
proof (cases "map_of (cache_map c) k")
  case None
  then have "k \<notin> fst ` set (entries c)" using find_node_None [OF inv] by blast
  moreover from this have "filter (\<lambda>p. fst p \<noteq> k) (entries c) = entries c"
    by (rule filter_key_absent)
  ultimately show ?thesis using None inv by (simp add: cache_remove_def)
next
  case (Some it)
  then obtain v where v: "(it, k, v) \<in> set (keys_list c)" using find_node [OF inv] by blast
  let ?c = "snd (cache_remove c k)"
  have c: "?c = c\<lparr>keys_list := filter (\<lambda>n. fst n \<noteq> it) (keys_list c),
                 cache_map := AList.delete k (cache_map c)\<rparr>"
    using Some by (simp add: cache_remove_def)
  have eq: "(fst n \<noteq> it) = (fst (snd n) \<noteq> k)" if "n \<in> set (keys_list c)" for n
    using node_key_unique [OF inv _ v, of "fst n" "fst (snd n)" "snd (snd n)"] that by simp
  have "set (cache_map ?c) = {p \<in> set (node_index (keys_list c)). fst p \<noteq> k}"
    using inv by (auto simp: c AList.delete_eq cache_inv_def)
  also have "\<dots> = set (node_index (keys_list ?c))"
    using eq by (force simp: c node_index_def)
  finally have idx: "set (cache_map ?c) = set (node_index (keys_list ?c))" .
  have "cache_inv ?c"
    using inv idx by (auto simp: cache_inv_def c AList.distinct_delete distinct_map_filter)
  moreover have "entries ?c = filter (\<lambda>p. fst p \<noteq> k) (entries c)"
    using filter_address_key(2) [OF inv v] by (simp add: entries_def c)
  moreover have "k \<in> fst ` set (entries c)" using v by (force simp: entries_def)
  ultimately show ?thesis using Some by (simp add: cache_remove_def)
qed

lemma cache_clear_inv [inv_intros]: "cache_inv c \<Longrightarrow> cache_inv (cache_clear c)"
  by (simp add: cache_inv_def cache_clear_def node_index_def)


section \<open>What a client of a cache may rely on\<close>

text \<open>
  A bounded cache may forget an entry at any insertion, but it never invents one: a lookup
  returns what was inserted last, a hit does not change what is held, and an insertion adds
  at most its own entry.
\<close>

locale lossy_cache =
  fixes inv :: "'c \<Rightarrow> bool"
    and look :: "'c \<Rightarrow> 'k \<Rightarrow> 'v option"
    and ins :: "'c \<Rightarrow> 'k \<Rightarrow> 'v \<Rightarrow> lru_error + 'c"
    and try_get :: "'c \<Rightarrow> 'k \<Rightarrow> lru_error + ('v option \<times> 'c)"
  assumes ins_ok: "inv c \<Longrightarrow> \<exists>c'. ins c k v = Inr c' \<and> inv c' \<and> look c' k = Some v \<and>
      (\<forall>j w. j \<noteq> k \<longrightarrow> look c' j = Some w \<longrightarrow> look c j = Some w)"
    and get_ok: "inv c \<Longrightarrow> \<exists>c'. try_get c k = Inr (look c k, c') \<and> inv c' \<and> look c' = look c"
begin

definition agrees :: "('k \<Rightarrow> 'v option) \<Rightarrow> 'c \<Rightarrow> bool" where
  "agrees truth c \<longleftrightarrow> inv c \<and> (\<forall>k v. look c k = Some v \<longrightarrow> truth k = Some v)"

lemma ins_agrees:
  assumes "agrees truth c" and "truth k = Some v"
  shows "\<exists>c'. ins c k v = Inr c' \<and> agrees truth c'"
proof -
  from assms(1) have "inv c" by (simp add: agrees_def)
  from ins_ok [OF this, of k v] obtain c' where c': "ins c k v = Inr c'" "inv c'" "look c' k = Some v"
    "\<And>j w. j \<noteq> k \<Longrightarrow> look c' j = Some w \<Longrightarrow> look c j = Some w" by blast
  have "truth j = Some w" if "look c' j = Some w" for j w
    using that c'(3,4) assms by (cases "j = k") (auto simp: agrees_def)
  with c'(1,2) show ?thesis by (auto simp: agrees_def)
qed

lemma try_get_agrees:
  assumes "agrees truth c"
  shows "\<exists>c'. try_get c k = Inr (look c k, c') \<and> agrees truth c' \<and>
    (\<forall>v. look c k = Some v \<longrightarrow> truth k = Some v)"
proof -
  from assms have "inv c" by (simp add: agrees_def)
  from get_ok [OF this, of k] obtain c' where
    "try_get c k = Inr (look c k, c')" "inv c'" "look c' = look c" by blast
  with assms show ?thesis by (auto simp: agrees_def)
qed

lemma ins_then_try_get:
  assumes "inv c"
  shows "\<exists>c' c''. ins c k v = Inr c' \<and> try_get c' k = Inr (Some v, c'')"
proof -
  obtain c' where c': "ins c k v = Inr c'" "inv c'" "look c' k = Some v"
    using ins_ok [OF assms] by blast
  then show ?thesis using get_ok [of c' k] by auto
qed

end

lemma lru_evict_prefix: "\<exists>n. lru_evict ms el xs = take n xs"
  by (simp add: lru_evict_def) (metis order_refl take_all)

lemma map_of_take: "map_of (take n xs) j = Some w \<Longrightarrow> map_of xs j = Some w"
  by (metis append_take_drop_id map_add_Some_iff map_of_append map_of_eq_None_iff option.distinct(1))

lemma map_of_lru_insert:
  "map_of (lru_insert ms el k v xs) k = Some v"
  "j \<noteq> k \<Longrightarrow> map_of (lru_insert ms el k v xs) j = Some w \<Longrightarrow> map_of xs j = Some w"
proof -
  show "map_of (lru_insert ms el k v xs) k = Some v"
    by (cases ms) (auto simp: lru_insert_def lru_evict_def)
next
  assume j: "j \<noteq> k" and w: "map_of (lru_insert ms el k v xs) j = Some w"
  obtain n where "lru_evict ms el ((k, v) # xs) = take n ((k, v) # xs)"
    using lru_evict_prefix by blast
  with w j show "map_of xs j = Some w"
    by (auto simp: lru_insert_def map_of_filter_split split: if_splits dest: map_of_take [of n "(k, v) # xs"])
qed

lemma length_lru_insert:
  assumes "0 < ms"
  shows "length (lru_insert ms el k v xs) \<le> length xs \<or>
   length (lru_insert ms el k v xs) \<le> ms \<or> length (lru_insert ms el k v xs) < ms + el"
proof (cases "k \<in> fst ` set xs")
  case True
  then have "length (filter (\<lambda>p. fst p \<noteq> k) xs) < length xs"
    by (force intro!: length_filter_less)
  with True show ?thesis by (simp add: lru_insert_def)
next
  case False
  with assms show ?thesis by (auto simp: lru_insert_def lru_evict_def)
qed

interpretation lru: lossy_cache cache_inv "\<lambda>c. map_of (entries c)" cache_insert tryGet
proof
  fix c :: "('a, 'b) cache" and k v
  assume inv: "cache_inv c"
  show "\<exists>c'. cache_insert c k v = Inr c' \<and> cache_inv c' \<and> map_of (entries c') k = Some v \<and>
      (\<forall>j w. j \<noteq> k \<longrightarrow> map_of (entries c') j = Some w \<longrightarrow> map_of (entries c) j = Some w)"
    using cache_insert_refines [OF inv, of k v] map_of_lru_insert by metis
  show "\<exists>c'. tryGet c k = Inr (map_of (entries c) k, c') \<and> cache_inv c' \<and>
      map_of (entries c') = map_of (entries c)"
    using tryGet_refines [OF inv, of k] by (metis map_of_promote)
qed


section \<open>The directory-entry cache\<close>

datatype kv_status = StatusOK | StatusNotFound

record dentry_cache =
  dc_cache :: "(u8 list, u64) cache"
  cache_miss_cnt :: u32

definition PutFixed64 :: "u8 list \<Rightarrow> u64 \<Rightarrow> u8 list" where
  "PutFixed64 dst value = dst @ le_bytes 8 value"

definition DentryCache :: "nat \<Rightarrow> dentry_cache" where
  "DentryCache capacity = \<lparr>dc_cache = new_cache capacity (drop_bit 2 capacity), cache_miss_cnt = 0\<rparr>"

definition dentry_Get :: "dentry_cache \<Rightarrow> u64 \<Rightarrow> u8 list \<Rightarrow> lru_error + (kv_status \<times> u64 option \<times> dentry_cache)" where
  "dentry_Get d dir_id fname =
     (case tryGet (dc_cache d) (PutFixed64 fname dir_id) of
        Inl e \<Rightarrow> Inl e
      | Inr (Some v, c) \<Rightarrow> Inr (StatusOK, Some v, d\<lparr>dc_cache := c\<rparr>)
      | Inr (None, c) \<Rightarrow> Inr (StatusNotFound, None, d\<lparr>dc_cache := c\<rparr>))"

definition dentry_Put :: "dentry_cache \<Rightarrow> u64 \<Rightarrow> u8 list \<Rightarrow> u64 \<Rightarrow> lru_error + (kv_status \<times> dentry_cache)" where
  "dentry_Put d dir_id fname value =
     map_sum id (\<lambda>c. (StatusOK, d\<lparr>dc_cache := c\<rparr>)) (cache_insert (dc_cache d) (PutFixed64 fname dir_id) value)"

definition cache_miss_cnt_incr :: "dentry_cache \<Rightarrow> u32 \<times> dentry_cache" where
  "cache_miss_cnt_incr d = (cache_miss_cnt d + 1, d\<lparr>cache_miss_cnt := cache_miss_cnt d + 1\<rparr>)"

definition dentry_inv :: "dentry_cache \<Rightarrow> bool" where
  "dentry_inv d \<longleftrightarrow> cache_inv (dc_cache d)"

text \<open>What the cache answers for a name in a directory.\<close>

definition dentry_look :: "dentry_cache \<Rightarrow> u64 \<times> u8 list \<Rightarrow> u64 option" where
  "dentry_look d p = map_of (entries (dc_cache d)) (PutFixed64 (snd p) (fst p))"

lemma PutFixed64_inject: "PutFixed64 f d = PutFixed64 f' d' \<longleftrightarrow> f = f' \<and> d = d'"
  by (auto simp: PutFixed64_def dest: append_eq_append_conv [THEN iffD1, rotated])

text \<open>The directory-entry cache is again a lossy cache, keyed by directory and name.\<close>

interpretation dentry: lossy_cache dentry_inv dentry_look
  "\<lambda>d p v. map_sum id snd (dentry_Put d (fst p) (snd p) v)"
  "\<lambda>d p. map_sum id snd (dentry_Get d (fst p) (snd p))"
proof
  fix d :: dentry_cache and p :: "u64 \<times> u8 list" and v
  assume inv: "dentry_inv d"
  let ?k = "PutFixed64 (snd p) (fst p)"
  from lru.ins_ok [of "dc_cache d" ?k v] inv obtain c' where c':
    "cache_insert (dc_cache d) ?k v = Inr c'" "cache_inv c'" "map_of (entries c') ?k = Some v"
    "\<And>j w. j \<noteq> ?k \<Longrightarrow> map_of (entries c') j = Some w \<Longrightarrow> map_of (entries (dc_cache d)) j = Some w"
    by (auto simp: dentry_inv_def)
  then show "\<exists>c'. map_sum id snd (dentry_Put d (fst p) (snd p) v) = Inr c' \<and> dentry_inv c' \<and>
      dentry_look c' p = Some v \<and>
      (\<forall>j w. j \<noteq> p \<longrightarrow> dentry_look c' j = Some w \<longrightarrow> dentry_look d j = Some w)"
    by (cases p) (auto simp: dentry_Put_def dentry_inv_def dentry_look_def PutFixed64_inject)
  from lru.get_ok [of "dc_cache d" ?k] inv obtain c'' where
    "tryGet (dc_cache d) ?k = Inr (map_of (entries (dc_cache d)) ?k, c'')" "cache_inv c''"
    "map_of (entries c'') = map_of (entries (dc_cache d))"
    by (auto simp: dentry_inv_def)
  then show "\<exists>c'. map_sum id snd (dentry_Get d (fst p) (snd p)) = Inr (dentry_look d p, c') \<and>
      dentry_inv c' \<and> dentry_look c' = dentry_look d"
    by (auto simp: dentry_Get_def dentry_inv_def dentry_look_def fun_eq_iff split: option.split)
qed

lemma dentry_Get_ok:
  "dentry_inv d \<Longrightarrow>
   \<exists>d'. dentry_Get d dir fname =
     Inr (if dentry_look d (dir, fname) = None then StatusNotFound else StatusOK,
          dentry_look d (dir, fname), d') \<and> dentry_inv d' \<and> dentry_look d' = dentry_look d"
  using lru.get_ok [of "dc_cache d" "PutFixed64 fname dir"]
  by (auto simp: dentry_inv_def dentry_Get_def dentry_look_def fun_eq_iff split: option.split)

section \<open>Properties\<close>

text \<open>
  C13: Inserting into the LRU cache never follows a dangling iterator, keeps the list and the
  hash map consistent, and leaves exactly the recency list of the specification: the entry
  in front, an existing entry for the key replaced, and eviction down to \<open>maxSize\<close> least
  recently used entries first once \<open>maxSize + elasticity\<close> entries are reached.
\<close>

theorem lru_insert_refinement:
  assumes "cache_inv c"
  shows "\<exists>c'. cache_insert c k v = Inr c' \<and> cache_inv c' \<and>
              entries c' = lru_insert (maxSize c) (elasticity c) k v (entries c)"
  using cache_insert_refines [OF assms, of k v] by blast

definition demo_cache :: "(nat, nat) cache" where
  "demo_cache = \<lparr>cache_map = [(7, 1), (5, 0)], keys_list = [(1, 7, 70), (0, 5, 50)],
                 maxSize = 2, elasticity = 1, next_node = 2\<rparr>"

theorem lru_insert_refinement_witness:
  "cache_inv demo_cache \<and> cache_insert demo_cache 9 90 \<noteq> Inl BadIterator \<and>
   map_sum id entries (cache_insert demo_cache 9 90) = Inr [(9, 90), (7, 70)]"
proof -
  have inv: "cache_inv demo_cache"
    by (auto simp: cache_inv_def demo_cache_def node_index_def)
  from lru_insert_refinement [OF inv, of 9 90] inv show ?thesis
    by (auto simp: demo_cache_def entries_def lru_insert_def lru_evict_def)
qed

text \<open>
  The cache never holds more than its hard limit: with a positive \<open>maxSize\<close>, after every
  insertion the number of entries is at most \<open>maxSize\<close> or below \<open>maxSize + elasticity\<close>.
\<close>

theorem lru_size_bound:
  assumes "cache_inv c" and "0 < maxSize c" and "cache_insert c k v = Inr c'"
    and "cache_size c \<le> maxSize c \<or> cache_size c < maxSize c + elasticity c"
  shows "cache_size c' \<le> maxSize c' \<or> cache_size c' < getMaxAllowedSize c'"
proof -
  from cache_insert_refines [OF assms(1), of k v] assms(3)
  have c': "cache_inv c'" "entries c' = lru_insert (maxSize c) (elasticity c) k v (entries c)"
    "maxSize c' = maxSize c" "elasticity c' = elasticity c" by auto
  from length_node_index [OF assms(1)] length_node_index [OF c'(1)]
  have "length (entries c) = cache_size c" "length (entries c') = cache_size c'"
    by (simp_all add: entries_def)
  with c' assms(2,4) length_lru_insert [OF assms(2), of "elasticity c" k v "entries c"]
  show ?thesis by (auto simp: getMaxAllowedSize_def)
qed

theorem lru_size_bound_witness:
  "cache_inv demo_cache \<and> (\<exists>c'. cache_insert demo_cache 9 90 = Inr c' \<and>
     (cache_size c' \<le> maxSize c' \<or> cache_size c' < getMaxAllowedSize c'))"
proof -
  have inv: "cache_inv demo_cache"
    by (auto simp: cache_inv_def demo_cache_def node_index_def)
  obtain c' where "cache_insert demo_cache 9 90 = Inr c'"
    using cache_insert_refines [OF inv, of 9 90] by blast
  with lru_size_bound [OF inv _ this] inv show ?thesis
    by (auto simp: demo_cache_def cache_size_def)
qed

text \<open>
  The directory-entry cache answers a name with the inode stored for that directory and
  that name, even after later insertions for other directories or names: the composite key
  of name and directory never confuses two entries.
\<close>

theorem dentry_put_get:
  assumes "dentry_inv d" and "dentry_Put d dir fname inode = Inr (st, d')"
  shows "(\<exists>d''. dentry_Get d' dir fname = Inr (StatusOK, Some inode, d'')) \<and>
    (\<forall>dir' fname' w d''. (dir', fname') \<noteq> (dir, fname) \<longrightarrow>
       dentry_Get d' dir' fname' = Inr (StatusOK, Some w, d'') \<longrightarrow>
       dentry_look d (dir', fname') = Some w)"
proof -
  from dentry.ins_ok [OF assms(1), of "(dir, fname)" inode] assms(2)
  have d': "dentry_inv d'" "dentry_look d' (dir, fname) = Some inode"
    "\<And>j w. j \<noteq> (dir, fname) \<Longrightarrow> dentry_look d' j = Some w \<Longrightarrow> dentry_look d j = Some w" by auto
  show ?thesis
  proof (intro conjI allI impI)
    show "\<exists>d''. dentry_Get d' dir fname = Inr (StatusOK, Some inode, d'')"
      using dentry_Get_ok [OF d'(1), of dir fname] d'(2) by auto
  next
    fix dir' fname' w d''
    assume ne: "(dir', fname') \<noteq> (dir, fname)"
      and get: "dentry_Get d' dir' fname' = Inr (StatusOK, Some w, d'')"
    then have "dentry_look d' (dir', fname') = Some w"
      using dentry_Get_ok [OF d'(1), of dir' fname'] by auto
    with ne show "dentry_look d (dir', fname') = Some w" by (rule d'(3))
  qed
qed

theorem dentry_put_get_witness:
  "dentry_inv (DentryCache 10000) \<and>
   (\<exists>d'. dentry_Put (DentryCache 10000) 3 [97] 42 = Inr (StatusOK, d') \<and>
     (\<exists>d''. dentry_Get d' 3 [97] = Inr (StatusOK, Some 42, d'')))"
proof -
  have inv: "dentry_inv (DentryCache 10000)"
    by (simp add: dentry_inv_def DentryCache_def)
  obtain d' where d': "dentry_Put (DentryCache 10000) 3 [97] 42 = Inr (StatusOK, d')"
    using cache_insert_refines [of "dc_cache (DentryCache 10000)" "PutFixed64 [97] 3" 42] inv
    by (auto simp: dentry_Put_def dentry_inv_def)
  with dentry_put_get [OF inv d'] inv show ?thesis by blast
qed

end
