(* ===== verification/OpenFiles.thy ===== *)
theory OpenFiles
  imports Prelude
begin

text \<open>
  \<open>src/client/open_file_map.cc\<close>, \<open>src/client/open_dir.cc\<close> and their headers: the objects
  behind file descriptors and the descriptor table of the client. The objects are shared
  pointers in the code, so they live in a store and the table maps a descriptor to the
  address of its object; duplicated descriptors share one object.
\<close>

section \<open>Open files and directories\<close>

datatype FileType = regular | directory

datatype OpenFile_flags = append | creat | trunc | rdonly | wronly | rdwr | cloexec

record DirEntry =
  de_name :: "u8 list"
  de_type :: FileType
  de_inode :: u64

record OpenFile =
  of_type :: FileType
  of_path :: "u8 list"
  of_inode :: u64
  of_flags :: "OpenFile_flags \<Rightarrow> bool"
  of_pos :: u64
  of_pinode :: u64
  of_fname :: "u8 list"
  of_entries :: "DirEntry list"

definition O_WRONLY :: u32 where "O_WRONLY = 1"
definition O_RDONLY :: u32 where "O_RDONLY = 0"
definition O_RDWR :: u32 where "O_RDWR = 2"
definition O_CREAT :: u32 where "O_CREAT = 0x40"
definition O_TRUNC :: u32 where "O_TRUNC = 0x200"
definition O_APPEND :: u32 where "O_APPEND = 0x400"
definition O_DIRECTORY :: u32 where "O_DIRECTORY = 0x10000"

lemmas open_flag_defs = O_WRONLY_def O_RDONLY_def O_RDWR_def O_CREAT_def O_TRUNC_def O_APPEND_def
  O_DIRECTORY_def

text \<open>The constructor sets one boolean per \<open>flags & O_...\<close> test.\<close>

definition new_OpenFile ::
  "u8 list \<Rightarrow> u32 \<Rightarrow> u64 \<Rightarrow> u8 list \<Rightarrow> u64 \<Rightarrow> FileType \<Rightarrow> OpenFile" where
  "new_OpenFile path flags pinode fname inode ftype =
     \<lparr>of_type = ftype, of_path = path, of_inode = inode,
      of_flags = (\<lambda>f. case f of
          creat \<Rightarrow> flags AND O_CREAT \<noteq> 0
        | append \<Rightarrow> flags AND O_APPEND \<noteq> 0
        | trunc \<Rightarrow> flags AND O_TRUNC \<noteq> 0
        | rdonly \<Rightarrow> flags AND O_RDONLY \<noteq> 0
        | wronly \<Rightarrow> flags AND O_WRONLY \<noteq> 0
        | rdwr \<Rightarrow> flags AND O_RDWR \<noteq> 0
        | cloexec \<Rightarrow> False),
      of_pos = 0, of_pinode = pinode, of_fname = fname, of_entries = []\<rparr>"

definition get_flag :: "OpenFile \<Rightarrow> OpenFile_flags \<Rightarrow> bool" where
  "get_flag f flag = of_flags f flag"

definition set_flag :: "OpenFile \<Rightarrow> OpenFile_flags \<Rightarrow> bool \<Rightarrow> OpenFile" where
  "set_flag f flag value = f\<lparr>of_flags := (of_flags f)(flag := value)\<rparr>"

definition set_path :: "OpenFile \<Rightarrow> u8 list \<Rightarrow> OpenFile" where
  "set_path f path = f\<lparr>of_path := path\<rparr>"

definition set_pos :: "OpenFile \<Rightarrow> u64 \<Rightarrow> OpenFile" where
  "set_pos f p = f\<lparr>of_pos := p\<rparr>"

text \<open>An open directory is an open file with entries; it is created with no flags.\<close>

definition new_OpenDir :: "u8 list \<Rightarrow> u64 \<Rightarrow> u8 list \<Rightarrow> u64 \<Rightarrow> OpenFile" where
  "new_OpenDir path pinode fname inode = new_OpenFile path 0 pinode fname inode directory"

definition new_DirEntry :: "u8 list \<Rightarrow> FileType \<Rightarrow> u64 \<Rightarrow> DirEntry" where
  "new_DirEntry name t inode = \<lparr>de_name = name, de_type = t, de_inode = inode\<rparr>"

definition dir_add :: "OpenFile \<Rightarrow> u8 list \<Rightarrow> FileType \<Rightarrow> u64 \<Rightarrow> OpenFile" where
  "dir_add d name t inode = d\<lparr>of_entries := of_entries d @ [new_DirEntry name t inode]\<rparr>"

text \<open>\<open>entries.at(pos)\<close> throws out of range; the position is an \<open>unsigned int\<close>.\<close>

definition getdent :: "OpenFile \<Rightarrow> u32 \<Rightarrow> crash + DirEntry" where
  "getdent d pos = (if unat pos < length (of_entries d) then Inr (of_entries d ! unat pos) else Inl Uncaught)"

definition dir_size :: "OpenFile \<Rightarrow> nat" where
  "dir_size d = length (of_entries d)"

definition clearEntries :: "OpenFile \<Rightarrow> OpenFile" where
  "clearEntries d = d\<lparr>of_entries := []\<rparr>"

section \<open>The descriptor table\<close>

definition START_FD :: int where "START_FD = 10000"
definition EBADF :: int where "EBADF = 9"

record OpenFileMap =
  files :: "(int \<times> nat) list"
  objs :: "nat \<rightharpoonup> OpenFile"
  next_obj :: nat
  fd_idx :: int
  fd_validation_needed :: bool
  ofm_errno :: int

definition new_OpenFileMap :: OpenFileMap where
  "new_OpenFileMap = \<lparr>files = [], objs = Map.empty, next_obj = 0, fd_idx = START_FD,
     fd_validation_needed = False, ofm_errno = 0\<rparr>"

definition ofm_get :: "OpenFileMap \<Rightarrow> int \<Rightarrow> nat option" where
  "ofm_get m fd = map_of (files m) fd"

definition ofm_file :: "OpenFileMap \<Rightarrow> int \<Rightarrow> OpenFile option" where
  "ofm_file m fd = Option.bind (ofm_get m fd) (objs m)"

definition ofm_get_dir :: "OpenFileMap \<Rightarrow> int \<Rightarrow> nat option" where
  "ofm_get_dir m dirfd =
     (case ofm_get m dirfd of
        None \<Rightarrow> None
      | Some p \<Rightarrow> (case objs m p of
          None \<Rightarrow> None
        | Some f \<Rightarrow> if of_type f \<noteq> directory then None else Some p))"

definition ofm_exist :: "OpenFileMap \<Rightarrow> int \<Rightarrow> bool" where
  "ofm_exist m fd \<longleftrightarrow> map_of (files m) fd \<noteq> None"

definition generate_fd_idx :: "OpenFileMap \<Rightarrow> int \<times> OpenFileMap" where
  "generate_fd_idx m =
     (let m = (if fd_idx m = INT_MAX
               then m\<lparr>fd_idx := START_FD, fd_validation_needed := True\<rparr> else m)
      in (fd_idx m, m\<lparr>fd_idx := fd_idx m + 1\<rparr>))"

definition get_fd_idx :: "OpenFileMap \<Rightarrow> int" where
  "get_fd_idx m = fd_idx m"

text \<open>The loop that skips descriptors still in use; it need not end when the table is full.\<close>

partial_function (option) skip_used :: "OpenFileMap \<Rightarrow> int \<Rightarrow> (int \<times> OpenFileMap) option" where
  "skip_used m fd =
     (if ofm_exist m fd
      then skip_used (snd (generate_fd_idx m)) (fst (generate_fd_idx m))
      else Some (fd, m))"

definition safe_generate_fd_idx :: "OpenFileMap \<Rightarrow> (int \<times> OpenFileMap) option" where
  "safe_generate_fd_idx m =
     (let (fd, m) = generate_fd_idx m
      in if fd_validation_needed m then skip_used m fd else Some (fd, m))"

text \<open>\<open>files.insert(make_pair(fd, p))\<close>: an existing entry for \<open>fd\<close> stays.\<close>

definition files_insert :: "int \<Rightarrow> nat \<Rightarrow> (int \<times> nat) list \<Rightarrow> (int \<times> nat) list" where
  "files_insert fd p fs = (if map_of fs fd \<noteq> None then fs else (fd, p) # fs)"

text \<open>\<open>make_shared\<close> allocates the object before the table is touched.\<close>

definition alloc_obj :: "OpenFileMap \<Rightarrow> OpenFile \<Rightarrow> nat \<times> OpenFileMap" where
  "alloc_obj m f = (next_obj m, m\<lparr>objs := (objs m)(next_obj m \<mapsto> f), next_obj := Suc (next_obj m)\<rparr>)"

definition ofm_add :: "OpenFileMap \<Rightarrow> nat \<Rightarrow> (int \<times> OpenFileMap) option" where
  "ofm_add m p =
     (case safe_generate_fd_idx m of
        None \<Rightarrow> None
      | Some (fd, m) \<Rightarrow> Some (fd, m\<lparr>files := files_insert fd p (files m)\<rparr>))"

definition ofm_remove :: "OpenFileMap \<Rightarrow> int \<Rightarrow> bool \<times> OpenFileMap" where
  "ofm_remove m fd =
     (case map_of (files m) fd of
        None \<Rightarrow> (False, m)
      | Some _ \<Rightarrow>
          (let m = m\<lparr>files := filter (\<lambda>e. fst e \<noteq> fd) (files m)\<rparr>
           in (True, if fd_validation_needed m \<and> files m = []
                     then m\<lparr>fd_validation_needed := False\<rparr> else m)))"

definition ofm_dup :: "OpenFileMap \<Rightarrow> int \<Rightarrow> (int \<times> OpenFileMap) option" where
  "ofm_dup m oldfd =
     (case ofm_get m oldfd of
        None \<Rightarrow> Some (- 1, m\<lparr>ofm_errno := EBADF\<rparr>)
      | Some p \<Rightarrow>
          (case safe_generate_fd_idx m of
             None \<Rightarrow> None
           | Some (newfd, m) \<Rightarrow> Some (newfd, m\<lparr>files := files_insert newfd p (files m)\<rparr>)))"

definition ofm_dup2 :: "OpenFileMap \<Rightarrow> int \<Rightarrow> int \<Rightarrow> int \<times> OpenFileMap" where
  "ofm_dup2 m oldfd newfd =
     (case ofm_get m oldfd of
        None \<Rightarrow> (- 1, m\<lparr>ofm_errno := EBADF\<rparr>)
      | Some p \<Rightarrow>
          if oldfd = newfd then (newfd, m)
          else
            let m = (if ofm_exist m newfd then snd (ofm_remove m newfd) else m);
                m = (if get_fd_idx m < newfd \<and> newfd \<noteq> 0 \<and> newfd \<noteq> 1 \<and> newfd \<noteq> 2
                     then m\<lparr>fd_validation_needed := True\<rparr> else m)
            in (newfd, m\<lparr>files := files_insert newfd p (files m)\<rparr>))"

text \<open>Moving the position of the object behind a descriptor.\<close>

definition obj_pos :: "OpenFileMap \<Rightarrow> nat \<Rightarrow> u64 \<Rightarrow> OpenFileMap" where
  "obj_pos m p pos = m\<lparr>objs := (objs m)(p := map_option (\<lambda>f. set_pos f pos) (objs m p))\<rparr>"

section \<open>The invariant\<close>

definition ofm_inv :: "OpenFileMap \<Rightarrow> bool" where
  "ofm_inv m \<longleftrightarrow>
     START_FD \<le> fd_idx m \<and> fd_idx m \<le> INT_MAX \<and>
     distinct (map fst (files m)) \<and>
     (\<forall>e \<in> set (files m). objs m (snd e) \<noteq> None \<and> (fd_validation_needed m \<or> fst e < fd_idx m)) \<and>
     (\<forall>p \<in> dom (objs m). p < next_obj m)"

text \<open>A descriptor number the generator can still hand out.\<close>

definition fd_available :: "OpenFileMap \<Rightarrow> bool" where
  "fd_available m \<longleftrightarrow> (\<exists>t. START_FD \<le> t \<and> t < INT_MAX \<and> \<not> ofm_exist m t)"

section \<open>Generating descriptors\<close>

lemmas fd_consts = START_FD_def INT_MAX_def

definition same_table :: "OpenFileMap \<Rightarrow> OpenFileMap \<Rightarrow> bool" where
  "same_table m m' \<longleftrightarrow> files m' = files m \<and> objs m' = objs m \<and> next_obj m' = next_obj m"

definition idx_ok :: "OpenFileMap \<Rightarrow> bool" where
  "idx_ok m \<longleftrightarrow> START_FD \<le> fd_idx m \<and> fd_idx m \<le> INT_MAX"

lemma same_table_exist: "same_table m m' \<Longrightarrow> ofm_exist m' fd = ofm_exist m fd"
  by (simp add: same_table_def ofm_exist_def)

lemma same_table_trans: "same_table a b \<Longrightarrow> same_table b c \<Longrightarrow> same_table a c"
  by (simp add: same_table_def)

lemma generate_fd_idx_frame:
  "same_table m (snd (generate_fd_idx m))"
  "idx_ok m \<Longrightarrow> idx_ok (snd (generate_fd_idx m))"
  "idx_ok m \<Longrightarrow> START_FD \<le> fst (generate_fd_idx m) \<and> fst (generate_fd_idx m) < INT_MAX"
  "fd_validation_needed m \<Longrightarrow> fd_validation_needed (snd (generate_fd_idx m))"
  by (auto simp: generate_fd_idx_def same_table_def idx_ok_def fd_consts Let_def)

text \<open>
  The number of calls until the generator hands out \<open>t\<close>, counted on the cycle of descriptor
  numbers from \<open>START_FD\<close> to \<open>INT_MAX - 1\<close>.
\<close>

definition steps_to :: "int \<Rightarrow> int \<Rightarrow> nat" where
  "steps_to t i =
     (let r = (if i = INT_MAX then START_FD else i)
      in nat (if r \<le> t then t - r else INT_MAX - r + (t - START_FD)))"

lemma generate_steps_to:
  assumes "idx_ok m" "START_FD \<le> t" "t < INT_MAX" "fst (generate_fd_idx m) \<noteq> t"
  shows "steps_to t (fd_idx (snd (generate_fd_idx m))) < steps_to t (fd_idx m)"
  using assms by (auto simp: generate_fd_idx_def steps_to_def idx_ok_def fd_consts Let_def)

lemma skip_used_total:
  assumes "idx_ok m" "START_FD \<le> t" "t < INT_MAX" "\<not> ofm_exist m t"
    and "START_FD \<le> fd" "fd < INT_MAX" "fd_validation_needed m"
  shows "\<exists>fd' m'. skip_used m fd = Some (fd', m') \<and> same_table m m' \<and> idx_ok m' \<and>
           fd_validation_needed m' \<and> \<not> ofm_exist m fd' \<and> START_FD \<le> fd' \<and> fd' < INT_MAX"
  using assms
proof (induction "steps_to t (fd_idx m)" arbitrary: m fd rule: less_induct)
  case less
  let ?fd = "fst (generate_fd_idx m)" and ?m = "snd (generate_fd_idx m)"
  have ex: "ofm_exist ?m x = ofm_exist m x" for x
    by (rule same_table_exist) (rule generate_fd_idx_frame)
  show ?case
  proof (cases "ofm_exist m fd")
    case False
    then show ?thesis using less.prems
      by (subst skip_used.simps) (simp add: same_table_def)
  next
    case used: True
    show ?thesis
    proof (cases "?fd = t")
      case True
      then have "skip_used m fd = Some (t, ?m)"
        using used less.prems(4) ex by (subst skip_used.simps) (simp add: skip_used.simps)
      then show ?thesis using less.prems generate_fd_idx_frame [of m] by auto
    next
      case False
      have "\<exists>fd' m'. skip_used ?m ?fd = Some (fd', m') \<and> same_table ?m m' \<and> idx_ok m' \<and>
           fd_validation_needed m' \<and> \<not> ofm_exist ?m fd' \<and> START_FD \<le> fd' \<and> fd' < INT_MAX"
        by (rule less.hyps [OF generate_steps_to])
          (use less.prems False generate_fd_idx_frame [of m] ex in auto)
      then show ?thesis using used same_table_trans [OF generate_fd_idx_frame(1)] ex
        by (subst skip_used.simps) auto
    qed
  qed
qed

lemma ofm_inv_idx_ok: "ofm_inv m \<Longrightarrow> idx_ok m"
  by (simp add: ofm_inv_def idx_ok_def)

lemma ofm_exist_iff: "ofm_exist m fd \<longleftrightarrow> fd \<in> fst ` set (files m)"
  by (simp add: ofm_exist_def map_of_eq_None_iff)

lemma safe_generate_ok:
  assumes inv: "ofm_inv m" and room: "fd_available m"
  obtains fd m' where "safe_generate_fd_idx m = Some (fd, m')" "same_table m m'" "idx_ok m'"
    "\<not> ofm_exist m fd" "START_FD \<le> fd" "fd < INT_MAX"
    "fd_validation_needed m' \<or> (fd_idx m' = fd + 1 \<and> fd = fd_idx m \<and> \<not> fd_validation_needed m)"
proof -
  let ?fd = "fst (generate_fd_idx m)" and ?m = "snd (generate_fd_idx m)"
  obtain t where t: "START_FD \<le> t" "t < INT_MAX" "\<not> ofm_exist m t"
    using room by (auto simp: fd_available_def)
  have ex: "ofm_exist ?m x = ofm_exist m x" for x
    by (rule same_table_exist) (rule generate_fd_idx_frame)
  note gen = generate_fd_idx_frame [of m]
  show ?thesis
  proof (cases "fd_validation_needed ?m")
    case True
    then obtain fd m' where s: "skip_used ?m ?fd = Some (fd, m')" "same_table ?m m'" "idx_ok m'"
      "fd_validation_needed m'" "\<not> ofm_exist ?m fd" "START_FD \<le> fd" "fd < INT_MAX"
      using skip_used_total [of ?m t ?fd] t gen(2,3) ofm_inv_idx_ok [OF inv] ex by blast
    show ?thesis
      by (rule that [of fd m'])
        (use s True ex same_table_trans [OF gen(1)] in \<open>auto simp: safe_generate_fd_idx_def case_prod_beta\<close>)
  next
    case False
    then have low: "?fd = fd_idx m" "\<not> fd_validation_needed m" "fd_idx ?m = ?fd + 1"
      by (auto simp: generate_fd_idx_def Let_def split: if_splits)
    have "\<not> ofm_exist m ?fd"
      using inv low by (auto simp: ofm_inv_def ofm_exist_iff)
    then show ?thesis
      by (intro that [of ?fd ?m])
        (use False low gen ofm_inv_idx_ok [OF inv] in \<open>auto simp: safe_generate_fd_idx_def case_prod_beta\<close>)
  qed
qed

text \<open>A table with fewer entries than there are descriptor numbers has one left.\<close>

definition FD_LIMIT :: nat where "FD_LIMIT = 2147473647"

lemma fd_available_if_small:
  assumes "length (files m) < FD_LIMIT"
  shows "fd_available m"
proof -
  let ?used = "fst ` set (files m)"
  have "card ?used \<le> length (files m)"
    by (metis card_length length_map set_map)
  moreover have "card {START_FD..<INT_MAX} = FD_LIMIT"
    by (simp add: fd_consts FD_LIMIT_def)
  moreover have "{START_FD..<INT_MAX} \<subseteq> ?used \<Longrightarrow> card {START_FD..<INT_MAX} \<le> card ?used"
    by (rule card_mono) simp_all
  ultimately have "\<not> {START_FD..<INT_MAX} \<subseteq> ?used" using assms by linarith
  then show ?thesis by (auto simp: fd_available_def ofm_exist_iff)
qed

section \<open>The operations on the table\<close>

lemma ofm_get_None: "ofm_get m fd = None \<longleftrightarrow> \<not> ofm_exist m fd"
  by (simp add: ofm_get_def ofm_exist_def)

lemma ofm_inv_objs: "ofm_inv m \<Longrightarrow> ofm_get m fd = Some p \<Longrightarrow> objs m p \<noteq> None"
  by (auto simp: ofm_inv_def ofm_get_def dest!: map_of_SomeD)

text \<open>Both \<open>add\<close> and \<open>dup\<close> enter an object under a generated descriptor.\<close>

lemma enter_generated:
  assumes inv: "ofm_inv m" and small: "length (files m) < FD_LIMIT" and obj: "objs m p \<noteq> None"
  shows "\<exists>fd m0. safe_generate_fd_idx m = Some (fd, m0) \<and> START_FD \<le> fd \<and> fd < INT_MAX \<and>
           ofm_get m fd = None \<and> objs m0 = objs m \<and>
           (let m' = m0\<lparr>files := files_insert fd p (files m0)\<rparr> in
             ofm_inv m' \<and> ofm_get m' = (ofm_get m)(fd \<mapsto> p) \<and> length (files m') = Suc (length (files m)))"
proof -
  obtain fd m0 where g: "safe_generate_fd_idx m = Some (fd, m0)" "same_table m m0" "idx_ok m0"
    "\<not> ofm_exist m fd" "START_FD \<le> fd" "fd < INT_MAX"
    "fd_validation_needed m0 \<or> (fd_idx m0 = fd + 1 \<and> fd = fd_idx m \<and> \<not> fd_validation_needed m)"
    by (rule safe_generate_ok [OF inv fd_available_if_small [OF small]])
  define m' where "m' = m0\<lparr>files := (fd, p) # files m\<rparr>"
  have new: "m0\<lparr>files := files_insert fd p (files m0)\<rparr> = m'"
    using g(2,4) by (simp add: m'_def files_insert_def same_table_def ofm_exist_def)
  have "ofm_inv m'"
    using inv g obj by (auto simp: m'_def ofm_inv_def idx_ok_def same_table_def ofm_exist_iff)
  then show ?thesis
    using g by (intro exI [of _ fd] exI [of _ m0])
      (simp add: new Let_def, auto simp: m'_def same_table_def ofm_get_def ofm_exist_def)
qed

lemma ofm_add_law:
  assumes "ofm_inv m" "length (files m) < FD_LIMIT" "objs m p \<noteq> None"
  shows "\<exists>fd m'. ofm_add m p = Some (fd, m') \<and> START_FD \<le> fd \<and> fd < INT_MAX \<and>
           ofm_get m fd = None \<and> ofm_get m' = (ofm_get m)(fd \<mapsto> p) \<and> ofm_inv m' \<and>
           objs m' = objs m \<and> length (files m') = Suc (length (files m))"
  using enter_generated [OF assms] by (auto simp: ofm_add_def Let_def)

lemma ofm_dup_law:
  assumes "ofm_inv m" "length (files m) < FD_LIMIT" "ofm_get m oldfd = Some p"
  shows "\<exists>fd m'. ofm_dup m oldfd = Some (fd, m') \<and> ofm_get m fd = None \<and>
           ofm_get m' = (ofm_get m)(fd \<mapsto> p) \<and> ofm_inv m' \<and> objs m' = objs m"
  using enter_generated [OF assms(1,2) ofm_inv_objs [OF assms(1,3)]] assms(3)
  by (auto simp: ofm_dup_def Let_def)

lemma ofm_remove_files: "files (snd (ofm_remove m fd)) = filter (\<lambda>e. fst e \<noteq> fd) (files m)"
proof (cases "map_of (files m) fd")
  case None
  then have "filter (\<lambda>e. fst e \<noteq> fd) (files m) = files m"
    by (auto simp: filter_id_conv map_of_eq_None_iff)
  then show ?thesis using None by (simp add: ofm_remove_def)
qed (simp add: ofm_remove_def Let_def)

lemma ofm_remove_get: "ofm_get (snd (ofm_remove m fd)) = (ofm_get m)(fd := None)"
  by (simp add: ofm_get_def [abs_def] ofm_remove_files map_of_filter_key fun_eq_iff)

lemma ofm_remove_fst: "fst (ofm_remove m fd) \<longleftrightarrow> ofm_get m fd \<noteq> None"
  by (auto simp: ofm_remove_def ofm_get_def Let_def split: option.splits)

lemma ofm_remove_objs [simp]:
  "objs (snd (ofm_remove m fd)) = objs m" "next_obj (snd (ofm_remove m fd)) = next_obj m"
  "fd_idx (snd (ofm_remove m fd)) = fd_idx m"
  by (auto simp: ofm_remove_def Let_def split: option.splits)

lemma ofm_remove_inv: "ofm_inv m \<Longrightarrow> ofm_inv (snd (ofm_remove m fd))"
  by (auto simp: ofm_remove_def ofm_inv_def Let_def distinct_map_filter split: option.splits)

lemma ofm_remove_length: "length (files (snd (ofm_remove m fd))) \<le> length (files m)"
  by (auto simp: ofm_remove_def Let_def split: option.splits)

lemma ofm_dup2_inv:
  assumes "ofm_inv m" "newfd \<noteq> fd_idx m"
  shows "ofm_inv (snd (ofm_dup2 m oldfd newfd))"
proof (cases "ofm_get m oldfd")
  case None
  then show ?thesis using assms by (simp add: ofm_dup2_def ofm_inv_def)
next
  case (Some p)
  define m1 where "m1 = (if ofm_exist m newfd then snd (ofm_remove m newfd) else m)"
  have inv1: "ofm_inv m1" and idx: "fd_idx m1 = fd_idx m" and o: "objs m1 = objs m"
    using assms(1) by (auto simp: m1_def ofm_remove_inv)
  have free: "map_of (files m1) newfd = None"
    by (auto simp: m1_def ofm_exist_def ofm_remove_files map_of_filter_key)
  have low: "START_FD \<le> fd_idx m" using assms(1) by (simp add: ofm_inv_def)
  show ?thesis
  proof (cases "oldfd = newfd")
    case True
    then show ?thesis using Some assms(1) by (simp add: ofm_dup2_def)
  next
    case False
    then show ?thesis
      using Some inv1 idx o free low assms ofm_inv_objs [OF assms(1) Some]
      by (auto simp: ofm_dup2_def get_fd_idx_def Let_def files_insert_def ofm_inv_def fd_consts
          map_of_eq_None_iff simp flip: m1_def)
  qed
qed

lemma ofm_dup2_get:
  assumes "ofm_get m oldfd = Some p"
  shows "fst (ofm_dup2 m oldfd newfd) = newfd"
    and "ofm_get (snd (ofm_dup2 m oldfd newfd)) = (ofm_get m)(newfd \<mapsto> p)"
proof -
  show "fst (ofm_dup2 m oldfd newfd) = newfd"
    using assms by (simp add: ofm_dup2_def Let_def)
  define m1 where "m1 = (if ofm_exist m newfd then snd (ofm_remove m newfd) else m)"
  have g: "map_of (files m1) = (ofm_get m)(newfd := None)"
    by (auto simp: m1_def ofm_exist_def ofm_remove_files map_of_filter_key ofm_get_def fun_eq_iff)
  show "ofm_get (snd (ofm_dup2 m oldfd newfd)) = (ofm_get m)(newfd \<mapsto> p)"
    using assms
    by (auto simp: ofm_dup2_def Let_def files_insert_def ofm_get_def g fun_eq_iff
        simp flip: m1_def)
qed

section \<open>The interface of a descriptor table\<close>

text \<open>
  What the system-call hooks rely on: as long as the table is not full, adding an object yields a
  descriptor that was not in use and refers to that object afterwards; removing frees it.
\<close>

locale fd_table =
  fixes inv :: "'s \<Rightarrow> bool"
    and valid :: "'s \<Rightarrow> nat \<Rightarrow> bool"
    and look :: "'s \<Rightarrow> int \<Rightarrow> nat option"
    and used :: "'s \<Rightarrow> nat"
    and limit :: nat
    and add :: "'s \<Rightarrow> nat \<Rightarrow> (int \<times> 's) option"
    and rem :: "'s \<Rightarrow> int \<Rightarrow> bool \<times> 's"
  assumes add_law: "\<lbrakk>inv s; used s < limit; valid s p\<rbrakk> \<Longrightarrow>
      \<exists>fd s'. add s p = Some (fd, s') \<and> look s fd = None \<and> look s' = (look s)(fd \<mapsto> p) \<and>
        inv s' \<and> valid s' = valid s \<and> used s' = Suc (used s)"
    and rem_look: "look (snd (rem s fd)) = (look s)(fd := None)"
    and rem_inv: "inv s \<Longrightarrow> inv (snd (rem s fd))"
begin

text \<open>Opening a list of objects, one descriptor each.\<close>

primrec add_all :: "'s \<Rightarrow> nat list \<Rightarrow> (int list \<times> 's) option" where
  "add_all s [] = Some ([], s)"
| "add_all s (p # ps) =
     (case add s p of
        None \<Rightarrow> None
      | Some (fd, s) \<Rightarrow> map_option (\<lambda>(fds, s). (fd # fds, s)) (add_all s ps))"

lemma add_all_fresh:
  assumes "inv s" "used s + length ps \<le> limit" "\<forall>p \<in> set ps. valid s p"
  shows "\<exists>fds s'. add_all s ps = Some (fds, s') \<and> inv s' \<and> distinct fds \<and>
           length fds = length ps \<and> (\<forall>fd \<in> set fds. look s fd = None) \<and>
           look s' = look s ++ map_of (zip fds ps)"
  using assms
proof (induction ps arbitrary: s)
  case Nil
  then show ?case by simp
next
  case (Cons p ps)
  obtain fd s1 where a: "add s p = Some (fd, s1)" "look s fd = None" "look s1 = (look s)(fd \<mapsto> p)"
    "inv s1" "valid s1 = valid s" "used s1 = Suc (used s)"
    using add_law [of s p] Cons.prems by auto
  have "used s1 + length ps \<le> limit" "\<forall>p \<in> set ps. valid s1 p"
    using a Cons.prems by auto
  from Cons.IH [OF a(4) this] obtain fds s' where b: "add_all s1 ps = Some (fds, s')" "inv s'" "distinct fds"
    "length fds = length ps" "\<forall>f \<in> set fds. look s1 f = None" "look s' = look s1 ++ map_of (zip fds ps)"
    by blast
  have fresh: "fd \<notin> set fds" and rest: "\<forall>f \<in> set fds. look s f = None"
    using b(5) a(3) by (auto split: if_splits)
  then have "map_of (zip fds ps) fd = None"
    by (auto simp: map_of_eq_None_iff dest: set_zip_leftD)
  then have "look s' = look s ++ map_of (zip (fd # fds) (p # ps))"
    using a(3) b(6) by (auto simp: fun_eq_iff map_add_def split: option.splits)
  then show ?case using a b fresh rest by auto
qed

lemma add_rem:
  assumes "inv s" "used s < limit" "valid s p"
  shows "\<exists>fd s'. add s p = Some (fd, s') \<and> look (snd (rem s' fd)) = look s \<and> inv (snd (rem s' fd))"
  using add_law [OF assms] rem_look rem_inv by (metis fun_upd_triv fun_upd_upd)

end

interpretation ofm: fd_table ofm_inv "\<lambda>m p. objs m p \<noteq> None" ofm_get "\<lambda>m. length (files m)"
  FD_LIMIT ofm_add ofm_remove
proof unfold_locales
  fix s p
  assume "ofm_inv s" "length (files s) < FD_LIMIT" "objs s p \<noteq> None"
  then show "\<exists>fd s'. ofm_add s p = Some (fd, s') \<and> ofm_get s fd = None \<and>
      ofm_get s' = (ofm_get s)(fd \<mapsto> p) \<and> ofm_inv s' \<and>
      (\<lambda>p. objs s' p \<noteq> None) = (\<lambda>p. objs s p \<noteq> None) \<and> length (files s') = Suc (length (files s))"
    using ofm_add_law [of s p] by fastforce
qed (auto simp: ofm_remove_get ofm_remove_inv)

text \<open>\<open>add_all\<close> on the code's own \<open>add\<close>.\<close>

primrec ofm_add_all :: "OpenFileMap \<Rightarrow> nat list \<Rightarrow> (int list \<times> OpenFileMap) option" where
  "ofm_add_all m [] = Some ([], m)"
| "ofm_add_all m (p # ps) =
     (case ofm_add m p of
        None \<Rightarrow> None
      | Some (fd, m) \<Rightarrow> map_option (\<lambda>(fds, m). (fd # fds, m)) (ofm_add_all m ps))"

lemma ofm_add_all_eq: "ofm_add_all m ps = ofm.add_all m ps"
  by (induction ps arbitrary: m) (simp_all split: option.split)

lemma ofm_file_obj_pos:
  "ofm_get m fd = Some p \<Longrightarrow> objs m p = Some f \<Longrightarrow>
     map_option of_pos (ofm_file (obj_pos m p pos) fd) = Some pos"
  by (simp add: ofm_file_def ofm_get_def obj_pos_def set_pos_def)

section \<open>Properties\<close>

text \<open>
  C14: Opening any number of files, while the table has descriptor numbers left, succeeds for each
  of them (the loop that skips used numbers ends), with pairwise different descriptors that were
  not in use; afterwards the table maps each to its file and keeps every other entry.
\<close>

theorem open_files_fresh:
  assumes "ofm_inv m" "length (files m) + length ps \<le> FD_LIMIT" "\<forall>p \<in> set ps. objs m p \<noteq> None"
  shows "\<exists>fds m'. ofm_add_all m ps = Some (fds, m') \<and> ofm_inv m' \<and> distinct fds \<and>
           length fds = length ps \<and> (\<forall>fd \<in> set fds. ofm_get m fd = None) \<and>
           ofm_get m' = ofm_get m ++ map_of (zip fds ps)"
  unfolding ofm_add_all_eq by (rule ofm.add_all_fresh [OF assms])

definition demo_files :: OpenFileMap where
  "demo_files = snd (alloc_obj new_OpenFileMap (new_OpenFile [] 0 0 [] 7 regular))"

lemma demo_files_inv: "ofm_inv demo_files"
  by (simp add: demo_files_def alloc_obj_def new_OpenFileMap_def ofm_inv_def fd_consts)

lemma demo_files_simps:
  "files demo_files = []" "objs demo_files 0 = Some (new_OpenFile [] 0 0 [] 7 regular)"
  "fd_idx demo_files = START_FD" "fd_validation_needed demo_files = False"
  by (simp_all add: demo_files_def alloc_obj_def new_OpenFileMap_def)

theorem open_files_fresh_witness:
  "\<exists>fds m'. ofm_add_all demo_files [0, 0, 0] = Some (fds, m') \<and> ofm_inv m' \<and> distinct fds \<and>
     length fds = 3 \<and> ofm_get m' (fds ! 2) = Some 0"
proof -
  have "\<exists>fds m'. ofm_add_all demo_files [0, 0, 0] = Some (fds, m') \<and> ofm_inv m' \<and> distinct fds \<and>
      length fds = length [0, 0, 0 :: nat] \<and> (\<forall>fd \<in> set fds. ofm_get demo_files fd = None) \<and>
      ofm_get m' = ofm_get demo_files ++ map_of (zip fds [0, 0, 0])"
    by (rule open_files_fresh [OF demo_files_inv]) (simp_all add: demo_files_simps FD_LIMIT_def)
  then show ?thesis
    by (auto simp del: ofm_add_all.simps simp: length_Suc_conv numeral_eq_Suc)
qed

text \<open>
  Descriptors made by \<open>dup\<close> and \<open>dup2\<close> share one open file: a position set
  through the new descriptor is the one read through the old descriptor.
\<close>

theorem dup_shares_position:
  assumes "ofm_inv m" "length (files m) < FD_LIMIT" "ofm_get m oldfd = Some p"
  shows "(\<exists>newfd m'. ofm_dup m oldfd = Some (newfd, m') \<and> newfd \<noteq> oldfd \<and>
             ofm_get m' newfd = Some p \<and>
             map_option of_pos (ofm_file (obj_pos m' p pos) oldfd) = Some pos) \<and>
         map_option of_pos (ofm_file (obj_pos (snd (ofm_dup2 m oldfd fd2)) p pos) oldfd) = Some pos"
proof (intro conjI)
  obtain f where f: "objs m p = Some f" using ofm_inv_objs [OF assms(1,3)] by blast
  obtain newfd m' where d: "ofm_dup m oldfd = Some (newfd, m')" "ofm_get m newfd = None"
    "ofm_get m' = (ofm_get m)(newfd \<mapsto> p)" "objs m' = objs m"
    using ofm_dup_law [OF assms] by blast
  have "newfd \<noteq> oldfd" using d(2) assms(3) by auto
  then show "\<exists>newfd m'. ofm_dup m oldfd = Some (newfd, m') \<and> newfd \<noteq> oldfd \<and>
      ofm_get m' newfd = Some p \<and> map_option of_pos (ofm_file (obj_pos m' p pos) oldfd) = Some pos"
    using d f assms(3) by (intro exI [of _ newfd] exI [of _ m']) (simp add: ofm_file_obj_pos)
next
  obtain f where f: "objs m p = Some f" using ofm_inv_objs [OF assms(1,3)] by blast
  let ?m = "snd (ofm_dup2 m oldfd fd2)"
  have "objs ?m = objs m" using assms(3) by (simp add: ofm_dup2_def Let_def)
  moreover have "ofm_get ?m oldfd = Some p" using ofm_dup2_get(2) [OF assms(3)] assms(3) by simp
  ultimately show "map_option of_pos (ofm_file (obj_pos ?m p pos) oldfd) = Some pos"
    using f by (simp add: ofm_file_obj_pos)
qed

definition demo_open :: OpenFileMap where
  "demo_open = demo_files\<lparr>files := [(10000, 0)], fd_idx := 10001\<rparr>"

lemma demo_open_inv: "ofm_inv demo_open"
  by (simp add: demo_open_def demo_files_def alloc_obj_def new_OpenFileMap_def ofm_inv_def fd_consts)

lemma demo_open_simps:
  "files demo_open = [(10000, 0)]" "objs demo_open 0 = Some (new_OpenFile [] 0 0 [] 7 regular)"
  "fd_idx demo_open = 10001" "fd_validation_needed demo_open = False"
  "ofm_get demo_open 10000 = Some 0"
  by (simp_all add: demo_open_def demo_files_def alloc_obj_def new_OpenFileMap_def ofm_get_def)

theorem dup_shares_position_witness:
  "map_option of_pos (ofm_file (obj_pos (snd (ofm_dup2 demo_open 10000 3)) 0 5) 10000) = Some 5"
  using dup_shares_position [OF demo_open_inv, of 10000 0 5 3]
  by (simp add: demo_open_simps FD_LIMIT_def)

text \<open>
  \<open>dup2\<close> keeps the table's invariant unless the requested descriptor is exactly the
  next one the generator will hand out. In that case the validation flag stays unset, and the next
  \<open>add\<close> returns the descriptor of the duplicated file: the descriptor a caller gets for the
  file it just opened refers to another file.
\<close>

theorem dup2_collision:
  assumes "ofm_inv m" "ofm_get m oldfd = Some p"
  shows "(newfd \<noteq> fd_idx m \<longrightarrow>
           ofm_inv (snd (ofm_dup2 m oldfd newfd)) \<and>
           ofm_get (snd (ofm_dup2 m oldfd newfd)) = (ofm_get m)(newfd \<mapsto> p)) \<and>
         (fd_idx m < INT_MAX \<and> \<not> fd_validation_needed m \<longrightarrow>
           (\<exists>m'. ofm_add (snd (ofm_dup2 m oldfd (fd_idx m))) q = Some (fd_idx m, m') \<and>
             ofm_get m' (fd_idx m) = Some p))"
proof (rule conjI; rule impI)
  assume "newfd \<noteq> fd_idx m"
  then show "ofm_inv (snd (ofm_dup2 m oldfd newfd)) \<and>
      ofm_get (snd (ofm_dup2 m oldfd newfd)) = (ofm_get m)(newfd \<mapsto> p)"
    using ofm_dup2_inv [OF assms(1)] ofm_dup2_get(2) [OF assms(2)] by blast
next
  assume "fd_idx m < INT_MAX \<and> \<not> fd_validation_needed m"
  then have lim: "fd_idx m < INT_MAX" and flag: "\<not> fd_validation_needed m" by simp_all
  let ?m = "snd (ofm_dup2 m oldfd (fd_idx m))"
  have unused: "\<not> ofm_exist m (fd_idx m)"
    using assms(1) flag by (auto simp: ofm_inv_def ofm_exist_iff)
  then have "oldfd \<noteq> fd_idx m" using assms(2) by (auto simp: ofm_get_def ofm_exist_def)
  then have m: "?m = m\<lparr>files := (fd_idx m, p) # files m\<rparr>"
    using assms(2) unused
    by (simp add: ofm_dup2_def Let_def get_fd_idx_def files_insert_def ofm_exist_def)
  show "\<exists>m'. ofm_add ?m q = Some (fd_idx m, m') \<and> ofm_get m' (fd_idx m) = Some p"
    using lim flag
    by (simp add: m ofm_add_def safe_generate_fd_idx_def generate_fd_idx_def files_insert_def
        ofm_get_def)
qed

theorem dup2_collision_witness:
  "ofm_inv (snd (ofm_dup2 demo_open 10000 20000)) \<and>
   (\<exists>m'. ofm_add (snd (ofm_dup2 demo_open 10000 10001)) 1 = Some (10001, m') \<and>
     ofm_get m' 10001 = Some 0)"
  using dup2_collision [OF demo_open_inv, of 10000 0 20000 1]
  by (simp add: demo_open_simps fd_consts)

text \<open>
  No flags argument marks an open file read-only: \<open>O_RDONLY\<close> is zero, so the
  constructor's test for it never succeeds. The other access modes are recorded as requested.
\<close>

theorem rdonly_never_set:
  "\<not> get_flag (new_OpenFile path flags pinode fname inode t) rdonly \<and>
   (get_flag (new_OpenFile path flags pinode fname inode t) wronly \<longleftrightarrow> bit flags 0) \<and>
   (get_flag (new_OpenFile path flags pinode fname inode t) rdwr \<longleftrightarrow> bit flags 1)"
  using and_exp_eq_0_iff_not_bit [of flags 1]
  by (simp add: get_flag_def new_OpenFile_def open_flag_defs bit_0 and_one_eq odd_iff_mod_2_eq_one)

end
