(* ===== verification/RpcClient.thy ===== *)
theory RpcClient
  imports Wire JumpHash Lru OpenFiles
begin

text \<open>
  \<open>include/client/hooks.h\<close>, \<open>include/rpc/rpc_client.h\<close> and \<open>src/rpc/rpc_client.cc\<close>: the client's
  context, its map of regions, the connections to the server threads, and one remote call per
  operation. A call fills the request buffer of window 0, which keeps the bytes earlier requests
  left there, waits for the response and reads it out of the response buffer. The transport, the
  hash and \<open>rand\<close> are parameters; a response that never comes is \<open>Hang\<close>, the loop that polls for it.
\<close>

section \<open>The context of a client\<close>

record 'w client_context =
  cc_id :: u32
  total_servers :: u32
  cc_dentry_cache :: dentry_cache
  cc_region_map :: "(ClientRegion \<times> u32) list"
  cc_req :: mem
  cc_resp :: mem
  cc_net :: 'w

text \<open>
  \<open>ce_call\<close> sends the request to the server thread with a session number and returns the response
  buffer after the exchange, or nothing if no response arrives; \<open>ce_rand\<close> draws the next number.
\<close>

record 'w client_env =
  ce_xxh :: "u64 \<Rightarrow> u64"
  ce_rand :: "'w \<Rightarrow> u32 \<times> 'w"
  ce_call :: "'w \<Rightarrow> nat \<Rightarrow> kReqType \<Rightarrow> mem \<Rightarrow> mem \<Rightarrow> ('w \<times> mem) option"

section \<open>The map of regions\<close>

text \<open>
  \<open>region_cmp_func\<close> orders regions that do not overlap; overlapping regions are equivalent keys, and
  the insertion of an equivalent key leaves the map as it is. The list is the in-order sequence.
\<close>

definition region_cmp_func :: "ClientRegion \<Rightarrow> ClientRegion \<Rightarrow> bool" where
  "region_cmp_func lhs rhs \<longleftrightarrow> hi (cr_end lhs) < hi (cr_start rhs)"

fun region_map_insert :: "ClientRegion \<Rightarrow> u32 \<Rightarrow> (ClientRegion \<times> u32) list \<Rightarrow> (ClientRegion \<times> u32) list" where
  "region_map_insert r i [] = [(r, i)]"
| "region_map_insert r i ((s, j) # m) =
     (if region_cmp_func r s then (r, i) # (s, j) # m
      else if region_cmp_func s r then (s, j) # region_map_insert r i m
      else (s, j) # m)"

fun find_region_id :: "(ClientRegion \<times> u32) list \<Rightarrow> RegionKey \<Rightarrow> u32" where
  "find_region_id [] k = -1"
| "find_region_id ((r, i) # m) k =
     (if hi (cr_start r) \<le> hi k \<and> hi k \<le> hi (cr_end r) then i else find_region_id m k)"

section \<open>Connecting\<close>

text \<open>The slot of the session vector for thread \<open>j\<close> of server \<open>i\<close>, and the order of the connections.\<close>

definition session_slots :: "nat \<Rightarrow> nat \<Rightarrow> (nat \<times> nat \<times> nat) list" where
  "session_slots num_servers fg_threads =
     concat (map (\<lambda>i. map (\<lambda>j. (i * fg_threads + j, i, j)) [0..<fg_threads]) [0..<num_servers])"

definition connect_sessions :: "(nat \<Rightarrow> nat \<Rightarrow> int) \<Rightarrow> nat \<Rightarrow> nat \<Rightarrow> int list" where
  "connect_sessions create_session num_servers fg_threads =
     fold (\<lambda>(k, i, j) v. v[k := create_session i j]) (session_slots num_servers fg_threads)
       (replicate (num_servers * fg_threads) 0)"

datatype SmEventType = kConnected | kConnectFailed | kDisconnected | kDisconnectFailed

text \<open>The session-management callback: \<open>err\<close> is the error it is told of.\<close>

definition client_basic_sm_handler ::
  "int list \<Rightarrow> int \<Rightarrow> SmEventType \<Rightarrow> bool \<Rightarrow> u32 \<Rightarrow> crash + u32" where
  "client_basic_sm_handler session_num_vec session_num ev err num_sm_resps =
     (if err then Inl Uncaught
      else if \<not> (ev = kConnected \<or> ev = kDisconnected) then Inl Uncaught
      else if session_num \<in> set session_num_vec then Inr (num_sm_resps + 1)
      else Inl Uncaught)"

section \<open>Routing\<close>

text \<open>
  The region of the parent's hash decides the server thread: ids below the number of sessions name
  the thread themselves, larger ones are hashed. The session vector has \<open>total_servers\<close> slots.
\<close>

definition session_index :: "u32 \<Rightarrow> u32 \<Rightarrow> int" where
  "session_index n_servers region_id =
     (if sint region_id < sint n_servers then sint region_id
      else JumpConsistentHash (scast region_id) n_servers)"

definition client_route :: "'w client_env \<Rightarrow> 'w client_context \<Rightarrow> u64 \<Rightarrow> crash + nat" where
  "client_route E c pinode =
     (let pinode_hash = ce_xxh E pinode mod ucast PINODE_HASH_RANGE;
          region_id = find_region_id (cc_region_map c) (mk_RegionKey 0 pinode_hash)
      in if region_id = -1 then Inl PAssert
         else
           let k = session_index (total_servers c) region_id
           in if 0 \<le> k \<and> k < sint (total_servers c) then Inr (nat k) else Inl OutOfBounds)"

section \<open>Filling requests\<close>

text \<open>\<open>sizeof(wire_req_t)\<close>; the largest member is \<open>SendRegionReq\<close>. \<open>sizeof(wire_resp_t)\<close> likewise.\<close>

definition sizeof_wire_req :: nat where "sizeof_wire_req = 56 + MSG_ENTEY_MAX_SIZE"
definition sizeof_wire_resp :: nat where "sizeof_wire_resp = 24 + MSG_ENTEY_MAX_SIZE"

definition put_fname_req :: "u64 \<Rightarrow> u8 list \<Rightarrow> mem \<Rightarrow> mem" where
  "put_fname_req pinode fname m = mem_write (put64 m 8 pinode) 24 (cstring fname)"

definition put_mode_req :: "u64 \<Rightarrow> u32 \<Rightarrow> u8 list \<Rightarrow> mem \<Rightarrow> mem" where
  "put_mode_req pinode mode fname m =
     mem_write (put32 (put64 m 8 pinode) 24 mode) 28 (cstring fname)"

definition put_mknod_req :: "u64 \<Rightarrow> u32 \<Rightarrow> u8 list \<Rightarrow> mem \<Rightarrow> mem" where
  "put_mknod_req pinode mode fname m =
     mem_write (put32 (put64 m 24 pinode) 40 mode) 44 (cstring fname)"

definition put_readdir_req :: "u64 \<Rightarrow> u64 \<Rightarrow> mem \<Rightarrow> mem" where
  "put_readdir_req inode off m = put64 (put64 m 8 inode) 24 off"

section \<open>Remote calls\<close>

text \<open>Send the filled request to a session and wait for the response.\<close>

definition rpc_exchange ::
  "'w client_env \<Rightarrow> nat \<Rightarrow> kReqType \<Rightarrow> 'w client_context \<Rightarrow> crash + 'w client_context" where
  "rpc_exchange E session t c =
     (case ce_call E (cc_net c) session t (cc_req c) (cc_resp c) of
        None \<Rightarrow> Inl Hang
      | Some (w, resp) \<Rightarrow> Inr (c\<lparr>cc_resp := resp, cc_net := w\<rparr>))"

definition rpc_call ::
  "'w client_env \<Rightarrow> kReqType \<Rightarrow> u64 \<Rightarrow> nat \<Rightarrow> (mem \<Rightarrow> mem) \<Rightarrow> 'w client_context \<Rightarrow>
   crash + 'w client_context" where
  "rpc_call E t pinode msg_size fill c =
     andThen (client_route E c pinode) (\<lambda>session.
       if sizeof_wire_req < msg_size then Inl OutOfBounds
       else rpc_exchange E session t (c\<lparr>cc_req := fill (cc_req c)\<rparr>))"

text \<open>Reference parameters are passed in and returned: they change only on success.\<close>

definition RPC_Open ::
  "'w client_env \<Rightarrow> u64 \<Rightarrow> u8 list \<Rightarrow> u32 \<Rightarrow> u64 \<times> metafs_stat_t \<Rightarrow> 'w client_context \<Rightarrow>
   crash + u32 \<times> (u64 \<times> metafs_stat_t) \<times> 'w client_context" where
  "RPC_Open E pinode fname mode out c =
     andThen (rpc_call E kFSOpenReq pinode (28 + length fname + 1) (put_mode_req pinode mode fname) c) (\<lambda>c.
       let m = cc_resp c; res = resp_type m
       in Inr (res, if res = RespType_code kSuccess then (resp_inode m, resp_stat m) else out, c))"

definition RPC_Getinode ::
  "'w client_env \<Rightarrow> u64 \<Rightarrow> u8 list \<Rightarrow> u64 \<Rightarrow> 'w client_context \<Rightarrow> crash + u32 \<times> u64 \<times> 'w client_context" where
  "RPC_Getinode E pinode fname out c =
     andThen (rpc_call E kFSGetinodeReq pinode (24 + length fname + 1) (put_fname_req pinode fname) c) (\<lambda>c.
       let m = cc_resp c; res = resp_type m
       in Inr (res, if res = RespType_code kSuccess then resp_inode m else out, c))"

definition RPC_Getstat ::
  "'w client_env \<Rightarrow> u64 \<Rightarrow> u8 list \<Rightarrow> u64 \<times> metafs_stat_t \<Rightarrow> 'w client_context \<Rightarrow>
   crash + u32 \<times> (u64 \<times> metafs_stat_t) \<times> 'w client_context" where
  "RPC_Getstat E pinode fname out c =
     andThen (rpc_call E kFSStatReq pinode (24 + length fname + 1) (put_fname_req pinode fname) c) (\<lambda>c.
       let m = cc_resp c; res = resp_type m
       in Inr (res, if res = RespType_code kSuccess then (resp_inode m, resp_stat m) else out, c))"

definition RPC_Mknod ::
  "'w client_env \<Rightarrow> u64 \<Rightarrow> u8 list \<Rightarrow> u32 \<Rightarrow> u64 \<times> metafs_stat_t \<Rightarrow> 'w client_context \<Rightarrow>
   crash + u32 \<times> (u64 \<times> metafs_stat_t) \<times> 'w client_context" where
  "RPC_Mknod E pinode fname mode out c =
     andThen (rpc_call E kFSMknodReq pinode (44 + length fname + 1) (put_mknod_req pinode mode fname) c) (\<lambda>c.
       let m = cc_resp c; res = resp_type m
       in Inr (res, if res = RespType_code kSuccess then (resp_inode m, resp_stat m) else out, c))"

definition RPC_Unlink ::
  "'w client_env \<Rightarrow> u64 \<Rightarrow> u8 list \<Rightarrow> 'w client_context \<Rightarrow> crash + u32 \<times> 'w client_context" where
  "RPC_Unlink E pinode fname c =
     andThen (rpc_call E kFSUnlinkReq pinode (24 + length fname + 1) (put_fname_req pinode fname) c) (\<lambda>c.
       Inr (resp_type (cc_resp c), c))"

definition RPC_Mkdir ::
  "'w client_env \<Rightarrow> u64 \<Rightarrow> u8 list \<Rightarrow> u32 \<Rightarrow> u64 \<Rightarrow> 'w client_context \<Rightarrow>
   crash + u32 \<times> u64 \<times> 'w client_context" where
  "RPC_Mkdir E pinode fname mode out c =
     andThen (rpc_call E kFSMkdirReq pinode (28 + length fname + 1) (put_mode_req pinode mode fname) c) (\<lambda>c.
       let m = cc_resp c; res = resp_type m
       in Inr (res, if res = RespType_code kSuccess then resp_inode m else out, c))"

definition RPC_Rmdir ::
  "'w client_env \<Rightarrow> u64 \<Rightarrow> u8 list \<Rightarrow> 'w client_context \<Rightarrow> crash + u32 \<times> 'w client_context" where
  "RPC_Rmdir E pinode fname c =
     andThen (rpc_call E kFSRmdirReq pinode (24 + length fname + 1) (put_fname_req pinode fname) c) (\<lambda>c.
       Inr (resp_type (cc_resp c), c))"

section \<open>Reading a directory\<close>

text \<open>
  One entry is the parent (8 bytes, skipped), the terminated name and the inode. The pointer starts
  at the first name; strings and inodes are read inside the response buffer.
\<close>

definition ftype_of :: "u64 \<Rightarrow> FileType" where
  "ftype_of inode = (if is_directory inode then directory else regular)"

primrec parse_entries :: "mem \<Rightarrow> nat \<Rightarrow> nat \<Rightarrow> OpenFile \<Rightarrow> crash + OpenFile" where
  "parse_entries m ptr 0 dir = Inr dir"
| "parse_entries m ptr (Suc n) dir =
     (case cstr_of (mem_read m ptr (sizeof_wire_resp - ptr)) of
        None \<Rightarrow> Inl OutOfBounds
      | Some fname \<Rightarrow>
          let fname_len = length fname + 1
          in if sizeof_wire_resp < ptr + fname_len + 8 then Inl OutOfBounds
             else
               let inode = get64 m (ptr + fname_len)
               in parse_entries m (ptr + fname_len + 16) n (dir_add dir fname (ftype_of inode) inode))"

text \<open>One response: a negative count would run over the end of the buffer.\<close>

definition apply_readdir_resp :: "mem \<Rightarrow> OpenFile \<Rightarrow> crash + OpenFile" where
  "apply_readdir_resp m dir =
     (let num_result = rdresp_num_result m
      in if sint num_result < 0 then Inl OutOfBounds
         else parse_entries m (24 - 8 + 16) (unat num_result) dir)"

partial_function (option) readdir_loop ::
  "'w client_env \<Rightarrow> nat \<Rightarrow> u64 \<Rightarrow> OpenFile \<Rightarrow> 'w client_context \<Rightarrow>
   (crash + u32 \<times> OpenFile \<times> 'w client_context) option" where
  "readdir_loop E session pinode dir c =
     (case rpc_exchange E session kFSReaddirReq c of
        Inl e \<Rightarrow> Some (Inl e)
      | Inr c \<Rightarrow>
          if resp_type (cc_resp c) \<noteq> RespType_code kSuccess
          then Some (Inr (resp_type (cc_resp c), dir, c))
          else
            (case apply_readdir_resp (cc_resp c) dir of
               Inl e \<Rightarrow> Some (Inl e)
             | Inr dir \<Rightarrow>
                 if rdresp_is_uncomplete (cc_resp c) \<noteq> 0
                 then readdir_loop E session pinode dir
                   (c\<lparr>cc_req := put_readdir_req pinode (rdresp_next_offset (cc_resp c)) (cc_req c)\<rparr>)
                 else Some (Inr (RespType_code kSuccess, dir, c))))"

definition RPC_Readdir ::
  "'w client_env \<Rightarrow> u64 \<Rightarrow> OpenFile \<Rightarrow> 'w client_context \<Rightarrow> crash + u32 \<times> OpenFile \<times> 'w client_context" where
  "RPC_Readdir E pinode dir c =
     andThen (client_route E c pinode) (\<lambda>session.
       case readdir_loop E session pinode dir (c\<lparr>cc_req := put_readdir_req pinode 0 (cc_req c)\<rparr>) of
         None \<Rightarrow> Inl Hang | Some res \<Rightarrow> res)"

section \<open>Reading the region map\<close>

definition apply_regionmap :: "ClientRegion list \<Rightarrow> (ClientRegion \<times> u32) list" where
  "apply_regionmap rs = fold (\<lambda>r. region_map_insert r (cr_id r)) rs []"

definition RPC_ReadRegionmap ::
  "'w client_env \<Rightarrow> 'w client_context \<Rightarrow> crash + u32 \<times> 'w client_context" where
  "RPC_ReadRegionmap E c =
     (if total_servers c = 0 then Inl DivByZero
      else
        let (r, w) = ce_rand E (cc_net c)
        in andThen
             (rpc_exchange E (unat r mod unat (total_servers c)) kReadRegionmap
               (c\<lparr>cc_net := w, cc_req := put32 (cc_req c) 0 (cc_id c)\<rparr>)) (\<lambda>c.
           if resp_type (cc_resp c) = RespType_code kSuccess
           then
             let num_result = nat (sint (regionmap_num_entries (cc_resp c)))
             in if regionmap_capacity < num_result then Inl OutOfBounds
                else Inr (RespType_code kSuccess,
                  c\<lparr>cc_region_map := apply_regionmap (get_ClientRegions (cc_resp c) 8 num_result)\<rparr>)
           else Inr (RespType_code kFail, c)))"

end
