(* ===== verification/MetaClient.thy ===== *)
theory MetaClient
  imports RpcClient
begin

text \<open>
  \<open>include/client/metaclient.h\<close> and \<open>src/client/metaclient.cc\<close>: the resolution of a path to the inode
  of the parent and the last name, with the directory-entry cache in front of the servers, and one
  operation per system call, each retried once when the server asks for it.
\<close>

section \<open>Retrying\<close>

definition ENOENT :: int where "ENOENT = 2"
definition EEXIST :: int where "EEXIST = 17"
definition EINVAL :: int where "EINVAL = 22"

text \<open>The loop that reads the region map until a server answers with success.\<close>

partial_function (option) refresh_region_map ::
  "'w client_env \<Rightarrow> 'w client_context \<Rightarrow> (crash + 'w client_context) option" where
  "refresh_region_map E c =
     (case RPC_ReadRegionmap E c of
        Inl e \<Rightarrow> Some (Inl e)
      | Inr (res, c) \<Rightarrow>
          if res \<noteq> RespType_code kSuccess then refresh_region_map E c else Some (Inr c))"

text \<open>Whether the request is to be sent again.\<close>

definition handle_rpc_resp ::
  "'w client_env \<Rightarrow> u32 \<Rightarrow> 'w client_context \<Rightarrow> crash + bool \<times> 'w client_context" where
  "handle_rpc_resp E res c =
     (if res = RespType_code kSuccess then Inr (False, c)
      else if res = RespType_code kFail then Inr (False, c)
      else if res = RespType_code kUpdateRegionMap
      then
        (case refresh_region_map E c of
           None \<Rightarrow> Inl Hang
         | Some (Inl e) \<Rightarrow> Inl e
         | Some (Inr c) \<Rightarrow> Inr (True, c))
      else if res = RespType_code kEBUSY then Inr (True, c)
      else Inr (False, c))"

text \<open>
  The shape all operations share: the call, and once more if \<open>handle_rpc_resp\<close> says so. \<open>x\<close> is what
  the call returns by reference, \<open>again\<close> what is done to it before the second call.
\<close>

definition call_with_retry ::
  "'w client_env \<Rightarrow> ('x \<Rightarrow> 'w client_context \<Rightarrow> crash + u32 \<times> 'x \<times> 'w client_context) \<Rightarrow> ('x \<Rightarrow> 'x) \<Rightarrow> 'x \<Rightarrow>
   'w client_context \<Rightarrow> crash + u32 \<times> 'x \<times> 'w client_context" where
  "call_with_retry E rpc again x c =
     andThen (rpc x c) (\<lambda>(res, x, c).
       andThen (handle_rpc_resp E res c) (\<lambda>(retry, c).
         if retry then rpc (again x) c else Inr (res, x, c)))"

definition errno_unless_success :: "int \<Rightarrow> u32 \<times> 'x \<times> 'w client_context \<Rightarrow> crash + int \<times> 'x \<times> 'w client_context" where
  "errno_unless_success e = (\<lambda>(res, x, c). Inr (if res \<noteq> RespType_code kSuccess then - e else 0, x, c))"

definition ReadRegionmap :: "'w client_env \<Rightarrow> 'w client_context \<Rightarrow> crash + int \<times> 'w client_context" where
  "ReadRegionmap E c =
     andThen (RPC_ReadRegionmap E c) (\<lambda>(res, c).
       Inr (if res \<noteq> RespType_code kSuccess then -1 else 0, c))"

section \<open>Paths\<close>

text \<open>\<open>rocksdb::Status\<close>, as far as the code uses it.\<close>

datatype path_status = PathOk | InvalidArgument | Corruption

definition slash :: u8 where "slash = 47"

text \<open>\<open>path.find("/", pos)\<close> and \<open>path.rfind("/")\<close>; \<open>None\<close> is \<open>npos\<close>.\<close>

definition find_slash :: "u8 list \<Rightarrow> nat \<Rightarrow> nat option" where
  "find_slash path pos =
     (case dropWhile (\<lambda>i. path ! i \<noteq> slash) [pos..<length path] of [] \<Rightarrow> None | i # _ \<Rightarrow> Some i)"

definition rfind_slash :: "u8 list \<Rightarrow> nat option" where
  "rfind_slash path =
     (case dropWhile (\<lambda>i. path ! i \<noteq> slash) (rev [0..<length path]) of [] \<Rightarrow> None | i # _ \<Rightarrow> Some i)"

text \<open>One component: from the cache, or from a server and then into the cache.\<close>

definition lookup_component ::
  "'w client_env \<Rightarrow> u64 \<Rightarrow> u8 list \<Rightarrow> 'w client_context \<Rightarrow>
   crash + path_status \<times> u64 \<times> 'w client_context" where
  "lookup_component E pdir_id name c =
     (case dentry_Get (cc_dentry_cache c) pdir_id name of
        Inl e \<Rightarrow> Inl Uncaught
      | Inr (s, v, d) \<Rightarrow>
          let c = c\<lparr>cc_dentry_cache := d\<rparr>
          in case v of
               Some inode \<Rightarrow> Inr (PathOk, inode, c)
             | None \<Rightarrow>
                 andThen (call_with_retry E (RPC_Getinode E pdir_id name) id 0 c) (\<lambda>(res, inode, c).
                   if res = RespType_code kSuccess
                   then
                     (case dentry_Put (cc_dentry_cache c) pdir_id name inode of
                        Inl e \<Rightarrow> Inl Uncaught
                      | Inr (_, d) \<Rightarrow> Inr (PathOk, inode, c\<lparr>cc_dentry_cache := d\<rparr>))
                   else Inr (Corruption, pdir_id, c)))"

text \<open>
  The loop over the slashes from \<open>last\<close> to the final one at \<open>end\<close>. A \<open>find\<close> that returned \<open>npos\<close>
  would end it; it never does before \<open>end\<close>.
\<close>

function resolve_loop ::
  "'w client_env \<Rightarrow> u8 list \<Rightarrow> nat \<Rightarrow> nat \<Rightarrow> u64 \<Rightarrow> nat \<Rightarrow> 'w client_context \<Rightarrow>
   crash + path_status \<times> u64 \<times> nat \<times> 'w client_context" where
  "resolve_loop E path end_pos last_pos pdir_id depth c =
     (if last_pos < end_pos
      then
        case find_slash path (last_pos + 1) of
          None \<Rightarrow> Inr (PathOk, pdir_id, depth, c)
        | Some now \<Rightarrow>
            if now \<le> last_pos then Inr (PathOk, pdir_id, depth, c)
            else if now - last_pos > 1
            then
              andThen (lookup_component E pdir_id (take (now - last_pos - 1) (drop (last_pos + 1) path)) c)
                (\<lambda>(s, inode, c).
                   if s = PathOk then resolve_loop E path end_pos now inode (depth + 1) c
                   else Inr (s, pdir_id, depth, c))
            else resolve_loop E path end_pos now pdir_id depth c
      else Inr (PathOk, pdir_id, depth, c))"
  by pat_completeness auto

termination by (relation "measure (\<lambda>(E, path, end_pos, last_pos, pdir_id, depth, c). end_pos - last_pos)") auto

declare resolve_loop.simps [simp del]

text \<open>The outputs are the parent's inode, the last name and the depth; they are set on success only.\<close>

definition Internal_ResolvePath ::
  "'w client_env \<Rightarrow> u8 list \<Rightarrow> 'w client_context \<Rightarrow>
   crash + path_status \<times> (u64 \<times> u8 list \<times> nat) \<times> 'w client_context" where
  "Internal_ResolvePath E path c =
     (case rfind_slash path of
        None \<Rightarrow> Inl Uncaught
      | Some end_pos \<Rightarrow>
          andThen (resolve_loop E path end_pos 0 0 0 c) (\<lambda>(s, pdir_id, depth, c).
            Inr (s, (pdir_id, drop (end_pos + 1) path, depth), c)))"

text \<open>
  The root alone; trailing slashes are removed one at a time. For the root \<open>depth\<close> is not set: the
  assignment is to the pointer (here its old value 0).
\<close>

function ResolvePath ::
  "'w client_env \<Rightarrow> u8 list \<Rightarrow> 'w client_context \<Rightarrow>
   crash + path_status \<times> (u64 \<times> u8 list \<times> nat) \<times> 'w client_context" where
  "ResolvePath E path c =
     (if path = [] then Inr (InvalidArgument, (0, [], 0), c)
      else if hd path \<noteq> slash then Inr (InvalidArgument, (0, [], 0), c)
      else if length path = 1 then Inr (PathOk, (fs_root_inode, [], 0), c)
      else if last path = slash then ResolvePath E (butlast path) c
      else Internal_ResolvePath E path c)"
  by pat_completeness auto

termination by (relation "measure (\<lambda>(E, path, c). length path)") auto

declare ResolvePath.simps [simp del]

section \<open>Operations\<close>

definition Getstat ::
  "'w client_env \<Rightarrow> u64 \<Rightarrow> u8 list \<Rightarrow> u64 \<times> metafs_stat_t \<Rightarrow> 'w client_context \<Rightarrow>
   crash + int \<times> (u64 \<times> metafs_stat_t) \<times> 'w client_context" where
  "Getstat E pinode fname out c =
     andThen (call_with_retry E (RPC_Getstat E pinode fname) id out c) (errno_unless_success ENOENT)"

definition Mknod ::
  "'w client_env \<Rightarrow> u64 \<Rightarrow> u8 list \<Rightarrow> u32 \<Rightarrow> u64 \<times> metafs_stat_t \<Rightarrow> 'w client_context \<Rightarrow>
   crash + int \<times> (u64 \<times> metafs_stat_t) \<times> 'w client_context" where
  "Mknod E pinode fname mode out c =
     andThen (call_with_retry E (RPC_Mknod E pinode fname mode) id out c) (errno_unless_success EEXIST)"

definition Open ::
  "'w client_env \<Rightarrow> u64 \<Rightarrow> u8 list \<Rightarrow> u32 \<Rightarrow> u64 \<times> metafs_stat_t \<Rightarrow> 'w client_context \<Rightarrow>
   crash + int \<times> (u64 \<times> metafs_stat_t) \<times> 'w client_context" where
  "Open E pinode fname mode out c =
     andThen (call_with_retry E (RPC_Open E pinode fname mode) id out c) (errno_unless_success ENOENT)"

text \<open>The calls without results by reference.\<close>

definition no_out ::
  "('w client_context \<Rightarrow> crash + u32 \<times> 'w client_context) \<Rightarrow> unit \<Rightarrow> 'w client_context \<Rightarrow>
   crash + u32 \<times> unit \<times> 'w client_context" where
  "no_out rpc u c = andThen (rpc c) (\<lambda>(res, c). Inr (res, u, c))"

definition Unlink ::
  "'w client_env \<Rightarrow> u64 \<Rightarrow> u8 list \<Rightarrow> 'w client_context \<Rightarrow> crash + int \<times> unit \<times> 'w client_context" where
  "Unlink E pinode fname c =
     andThen (call_with_retry E (no_out (RPC_Unlink E pinode fname)) id () c) (errno_unless_success ENOENT)"

definition Mkdir ::
  "'w client_env \<Rightarrow> u64 \<Rightarrow> u8 list \<Rightarrow> u32 \<Rightarrow> u64 \<Rightarrow> 'w client_context \<Rightarrow>
   crash + int \<times> u64 \<times> 'w client_context" where
  "Mkdir E pinode fname mode out c =
     andThen (call_with_retry E (RPC_Mkdir E pinode fname mode) id out c) (errno_unless_success EEXIST)"

definition Readdir ::
  "'w client_env \<Rightarrow> u64 \<Rightarrow> OpenFile \<Rightarrow> 'w client_context \<Rightarrow> crash + int \<times> OpenFile \<times> 'w client_context" where
  "Readdir E dir_inode dir c =
     andThen (call_with_retry E (RPC_Readdir E dir_inode) clearEntries dir c) (errno_unless_success ENOENT)"

definition Rmdir ::
  "'w client_env \<Rightarrow> u64 \<Rightarrow> u8 list \<Rightarrow> 'w client_context \<Rightarrow> crash + int \<times> unit \<times> 'w client_context" where
  "Rmdir E pinode fname c =
     andThen (call_with_retry E (no_out (RPC_Rmdir E pinode fname)) id () c) (errno_unless_success ENOENT)"

text \<open>Reading and writing are not implemented and report success.\<close>

definition Read :: "int \<Rightarrow> u64 \<Rightarrow> u64 \<Rightarrow> int" where "Read fd off len = 0"
definition Write :: "int \<Rightarrow> u64 \<Rightarrow> u64 \<Rightarrow> int" where "Write fd off len = 0"

end
