(* ===== verification/ClientProps.thy ===== *)
theory ClientProps
  imports MetaClient HandlerProps
begin

text \<open>
  Properties of the client's remote calls, alone and together with the handlers of a server thread:
  what a request carries, how the client's map of regions answers lookups, and what the slot for the
  region id holds over any sequence of calls.
\<close>

section \<open>What the server reads of a request\<close>

lemma cstr_of_fname_field:
  assumes "is_cstr f" "length f < METAFS_MAX_FNAME_LEN"
  shows "cstr_of (mem_read (mem_write m off (cstring f)) off METAFS_MAX_FNAME_LEN) = Some f"
  using assms by (simp add: mem_read_write_prefix del: mem_read_write_same)

lemma put_req_slots:
  "req_region (put_fname_req p f m) = req_region m"
  "req_region (put_mode_req p mode f m) = req_region m"
  "req_region (put_mknod_req p mode f m) = req_region m"
  "req_region (put_readdir_req p off m) = req_region m"
  "get64 (put_fname_req p f m) 16 = get64 m 16"
  "get64 (put_mode_req p mode f m) 16 = get64 m 16"
  "get64 (put_mknod_req p mode f m) 32 = get64 m 32"
  "get64 (put_readdir_req p off m) 16 = get64 m 16"
  by (simp_all add: req_region_def put_fname_req_def put_mode_req_def put_mknod_req_def put_readdir_req_def)



section \<open>Sequences of calls\<close>

text \<open>One remote call of a client, whichever it is.\<close>

inductive rpc_step :: "'w client_env \<Rightarrow> 'w client_context \<Rightarrow> 'w client_context \<Rightarrow> bool" for E where
  step_open: "RPC_Open E p f mode out c = Inr (res, out', c') \<Longrightarrow> rpc_step E c c'"
| step_getinode: "RPC_Getinode E p f i c = Inr (res, i', c') \<Longrightarrow> rpc_step E c c'"
| step_getstat: "RPC_Getstat E p f out c = Inr (res, out', c') \<Longrightarrow> rpc_step E c c'"
| step_mknod: "RPC_Mknod E p f mode out c = Inr (res, out', c') \<Longrightarrow> rpc_step E c c'"
| step_unlink: "RPC_Unlink E p f c = Inr (res, c') \<Longrightarrow> rpc_step E c c'"
| step_mkdir: "RPC_Mkdir E p f mode i c = Inr (res, i', c') \<Longrightarrow> rpc_step E c c'"
| step_rmdir: "RPC_Rmdir E p f c = Inr (res, c') \<Longrightarrow> rpc_step E c c'"
| step_readdir: "RPC_Readdir E p dir c = Inr (res, dir', c') \<Longrightarrow> rpc_step E c c'"
| step_regionmap: "RPC_ReadRegionmap E c = Inr (res, c') \<Longrightarrow> rpc_step E c c'"

lemma rpc_exchange_frame:
  "rpc_exchange E s t c = Inr c' \<Longrightarrow> cc_req c' = cc_req c \<and> cc_id c' = cc_id c \<and>
     cc_dentry_cache c' = cc_dentry_cache c \<and> cc_region_map c' = cc_region_map c \<and>
     total_servers c' = total_servers c"
  by (auto simp: rpc_exchange_def split: option.splits)

lemma rpc_call_frame:
  assumes "rpc_call E t p n fill c = Inr c'" "\<And>m. req_region (fill m) = req_region m"
  shows "req_region (cc_req c') = req_region (cc_req c) \<and> cc_id c' = cc_id c"
  using assms by (auto simp: rpc_call_def split: if_splits dest!: rpc_exchange_frame)

text \<open>Every round of the directory loop keeps the slot and the id.\<close>

definition keeps_slot :: "'w client_context \<Rightarrow> crash + 'a \<times> 'b \<times> 'w client_context \<Rightarrow> bool" where
  "keeps_slot c r \<longleftrightarrow> (\<forall>a b c'. r = Inr (a, b, c') \<longrightarrow>
     req_region (cc_req c') = req_region (cc_req c) \<and> cc_id c' = cc_id c)"

lemma keeps_slot_simps [simp]:
  "keeps_slot c (Inl e)"
  "keeps_slot c (Inr (a, b, c')) \<longleftrightarrow>
     req_region (cc_req c') = req_region (cc_req c) \<and> cc_id c' = cc_id c"
  by (auto simp: keeps_slot_def)

lemma keeps_slot_mono:
  assumes "keeps_slot c1 r" "req_region (cc_req c1) = req_region (cc_req c)" "cc_id c1 = cc_id c"
  shows "keeps_slot c r"
  using assms(1) unfolding keeps_slot_def assms(2,3) .

lemma readdir_loop_frame:
  assumes "readdir_loop E s p dir c = Some r"
  shows "keeps_slot c r"
  using assms
proof (rule readdir_loop.raw_induct [where P = "\<lambda>E s p dir c r. keeps_slot c r", rotated])
  fix loop and E :: "'w client_env" and s p dir and c :: "'w client_context" and r
  assume ih: "\<And>E s p dir (c :: 'w client_context) r. loop E s p dir c = Some r \<Longrightarrow> keeps_slot c r"
    and r: "(case rpc_exchange E s kFSReaddirReq c of
        Inl e \<Rightarrow> Some (Inl e)
      | Inr c \<Rightarrow>
          if resp_type (cc_resp c) \<noteq> RespType_code kSuccess
          then Some (Inr (resp_type (cc_resp c), dir, c))
          else
            (case apply_readdir_resp (cc_resp c) dir of
               Inl e \<Rightarrow> Some (Inl e)
             | Inr dir \<Rightarrow>
                 if rdresp_is_uncomplete (cc_resp c) \<noteq> 0
                 then loop E s p dir
                   (c\<lparr>cc_req := put_readdir_req p (rdresp_next_offset (cc_resp c)) (cc_req c)\<rparr>)
                 else Some (Inr (RespType_code kSuccess, dir, c)))) = Some r"
  show "keeps_slot c r"
  proof (cases "rpc_exchange E s kFSReaddirReq c")
    case (Inr c1)
    note fr = rpc_exchange_frame [OF Inr]
    show ?thesis
    proof (cases "resp_type (cc_resp c1) \<noteq> RespType_code kSuccess")
      case True
      with r Inr show ?thesis by (auto simp: fr)
    next
      case False
      show ?thesis
      proof (cases "apply_readdir_resp (cc_resp c1) dir")
        case (Inl e)
        with r Inr False show ?thesis by (auto simp: fr)
      next
        case dir': (Inr dir')
        show ?thesis
        proof (cases "rdresp_is_uncomplete (cc_resp c1) = 0")
          case True
          with r Inr False dir' show ?thesis by (auto simp: fr)
        next
          case uncomplete: False
          with r Inr False dir' have "loop E s p dir'
              (c1\<lparr>cc_req := put_readdir_req p (rdresp_next_offset (cc_resp c1)) (cc_req c1)\<rparr>) = Some r"
            by simp
          from ih [OF this] show ?thesis
            by (rule keeps_slot_mono) (simp_all add: put_req_slots fr)
        qed
      qed
    qed
  qed (use r in auto)
qed

lemma rpc_step_slot:
  assumes "rpc_step E c c'"
  shows "cc_id c' = cc_id c \<and> req_region (cc_req c') \<in> {req_region (cc_req c), cc_id c}"
  using assms
proof cases
  case (step_readdir p dir res dir')
  then obtain k where "readdir_loop E k p dir (c\<lparr>cc_req := put_readdir_req p 0 (cc_req c)\<rparr>) =
      Some (Inr (res, dir', c'))"
    by (auto simp: RPC_Readdir_def split: option.splits)
  from readdir_loop_frame [OF this] show ?thesis by (simp add: put_req_slots)
next
  case (step_regionmap res)
  then show ?thesis
    by (auto simp: RPC_ReadRegionmap_def req_region_def Let_def split: if_splits prod.splits dest!: rpc_exchange_frame)
qed (auto simp: RPC_Open_def RPC_Getinode_def RPC_Getstat_def RPC_Mknod_def RPC_Unlink_def RPC_Mkdir_def
    RPC_Rmdir_def Let_def put_req_slots dest!: rpc_call_frame)

lemma RPC_ReadRegionmap_slot:
  "RPC_ReadRegionmap E c = Inr (res, c') \<Longrightarrow> cc_id c' = cc_id c \<and> req_region (cc_req c') = cc_id c"
  by (auto simp: RPC_ReadRegionmap_def req_region_def Let_def split: if_splits prod.splits dest!: rpc_exchange_frame)

lemma rpc_steps_slot:
  assumes "(rpc_step E)\<^sup>*\<^sup>* c c'" "req_region (cc_req c) = cc_id c"
  shows "cc_id c' = cc_id c \<and> req_region (cc_req c') = cc_id c"
  using assms by (induction rule: rtranclp_induct) (auto dest!: rpc_step_slot)

lemma dispatch_unknown_region:
  assumes "is_fs_request t" "region_map (fst s) (req_region req) = None"
  shows "fs_dispatch e t req pre s = Inl NullDeref"
  using assms
  by (auto simp: is_fs_request_def dispatch_simps req_fields getinode.unknown_region fsstat.unknown_region
      fsopen.unknown_region mknod.unknown_region mkdir.unknown_region unlink.unknown_region
      rmdir.unknown_region readdir.unknown_region send_all_def)

section \<open>A client and one server thread\<close>

text \<open>
  The transport of a deployment with a single server thread: a request is handled by the thread's
  dispatch, which reuses one response buffer. A handler that crashes, or that answers twice, leaves
  the client without a defined response.
\<close>

definition one_server ::
  "('db, 'l) env \<Rightarrow> ('db, 'l) server_state \<times> mem \<Rightarrow> nat \<Rightarrow> kReqType \<Rightarrow> mem \<Rightarrow> mem \<Rightarrow>
   ((('db, 'l) server_state \<times> mem) \<times> mem) option" where
  "one_server e w session t req old =
     (case fs_dispatch e t req (snd w) (fst w) of
        Inr (s, [m]) \<Rightarrow> Some ((s, m), m)
      | _ \<Rightarrow> None)"

definition one_server_env :: "('db, 'l) env \<Rightarrow> (('db, 'l) server_state \<times> mem) client_env" where
  "one_server_env e = \<lparr>ce_xxh = e_xxh e, ce_rand = (\<lambda>w. (0, w)), ce_call = one_server e\<rparr>"

section \<open>The client's map of regions\<close>

definition region_holds :: "ClientRegion \<Rightarrow> u64 \<Rightarrow> bool" where
  "region_holds r h \<longleftrightarrow> hi (cr_start r) \<le> h \<and> h \<le> hi (cr_end r)"

definition proper_region :: "ClientRegion \<Rightarrow> bool" where
  "proper_region r \<longleftrightarrow> hi (cr_start r) \<le> hi (cr_end r)"

definition apart :: "ClientRegion \<Rightarrow> ClientRegion \<Rightarrow> bool" where
  "apart r s \<longleftrightarrow> region_cmp_func r s \<or> region_cmp_func s r"

definition region_map_ok :: "(ClientRegion \<times> u32) list \<Rightarrow> bool" where
  "region_map_ok m \<longleftrightarrow>
     sorted_wrt (\<lambda>a b. region_cmp_func (fst a) (fst b)) m \<and> (\<forall>e\<in>set m. proper_region (fst e))"

lemma region_cmp_trans:
  "region_cmp_func a b \<Longrightarrow> proper_region b \<Longrightarrow> region_cmp_func b c \<Longrightarrow> region_cmp_func a c"
  by (auto simp: region_cmp_func_def proper_region_def)

lemma apart_holds: "apart r s \<Longrightarrow> region_holds r h \<Longrightarrow> \<not> region_holds s h"
  by (auto simp: apart_def region_cmp_func_def region_holds_def)

lemma region_map_insert_ok:
  assumes "region_map_ok m" "proper_region r" "\<forall>e\<in>set m. apart r (fst e)"
  shows "region_map_ok (region_map_insert r i m) \<and> set (region_map_insert r i m) = insert (r, i) (set m)"
  using assms
proof (induction m)
  case Nil
  then show ?case by (simp add: region_map_ok_def)
next
  case (Cons e m)
  obtain s j where e: "e = (s, j)" by (cases e)
  show ?case
  proof (cases "region_cmp_func r s")
    case True
    with Cons.prems show ?thesis
      by (auto simp: e region_map_ok_def dest: region_cmp_trans)
  next
    case False
    with Cons.prems have "region_cmp_func s r" by (simp add: e apart_def)
    with Cons False show ?thesis by (auto simp: e region_map_ok_def)
  qed
qed

lemma apply_regionmap_fold:
  assumes "region_map_ok m" "\<forall>r\<in>set rs. proper_region r \<and> (\<forall>e\<in>set m. apart r (fst e))" "sorted_wrt apart rs"
  shows "region_map_ok (fold (\<lambda>r. region_map_insert r (cr_id r)) rs m) \<and>
    set (fold (\<lambda>r. region_map_insert r (cr_id r)) rs m) = set m \<union> (\<lambda>r. (r, cr_id r)) ` set rs"
  using assms
proof (induction rs arbitrary: m)
  case Nil
  then show ?case by simp
next
  case (Cons r rs)
  from Cons.prems region_map_insert_ok [of m r "cr_id r"]
  have m': "region_map_ok (region_map_insert r (cr_id r) m)"
    "set (region_map_insert r (cr_id r) m) = insert (r, cr_id r) (set m)" by auto
  have "\<forall>q\<in>set rs. proper_region q \<and> (\<forall>e\<in>set (region_map_insert r (cr_id r) m). apart q (fst e))"
    using Cons.prems by (auto simp: m' apart_def)
  from Cons.IH [OF m'(1) this] Cons.prems(3) m'(2) show ?case by auto
qed

lemma find_region_id_holds:
  assumes "\<And>e e'. e \<in> set m \<Longrightarrow> e' \<in> set m \<Longrightarrow> region_holds (fst e) (hi k) \<Longrightarrow>
      region_holds (fst e') (hi k) \<Longrightarrow> snd e = snd e'"
    and "(r, i) \<in> set m" "region_holds r (hi k)"
  shows "find_region_id m k = i"
  using assms
proof (induction m k rule: find_region_id.induct)
  case (2 r' i' m k)
  show ?case
  proof (cases "region_holds r' (hi k)")
    case True
    with 2(2) [of "(r', i')" "(r, i)"] 2(3,4) show ?thesis by (simp add: region_holds_def)
  next
    case False
    with 2(3,4) have "(r, i) \<in> set m" by auto
    from 2(1) [OF _ 2(2) this 2(4)] False show ?thesis by (auto simp: region_holds_def)
  qed
qed simp

lemma find_region_id_none:
  "\<forall>e\<in>set m. \<not> region_holds (fst e) (hi k) \<Longrightarrow> find_region_id m k = -1"
  by (induction m k rule: find_region_id.induct) (auto simp: region_holds_def)

lemma sorted_apart_unique:
  assumes "sorted_wrt apart rs" "r \<in> set rs" "s \<in> set rs" "region_holds r h" "region_holds s h"
  shows "r = s"
  using assms by (induction rs) (auto dest: apart_holds)

lemma find_region_id_apply:
  assumes "sorted_wrt apart rs" "\<forall>r\<in>set rs. proper_region r"
  shows "find_region_id (apply_regionmap rs) k =
    (case find (\<lambda>r. region_holds r (hi k)) rs of None \<Rightarrow> -1 | Some r \<Rightarrow> cr_id r)"
proof -
  have set: "set (apply_regionmap rs) = (\<lambda>r. (r, cr_id r)) ` set rs"
    using apply_regionmap_fold [of "[]" rs] assms by (simp add: apply_regionmap_def region_map_ok_def)
  show ?thesis
  proof (cases "find (\<lambda>r. region_holds r (hi k)) rs")
    case None
    then have "find_region_id (apply_regionmap rs) k = -1"
      by (intro find_region_id_none) (auto simp: set find_None_iff)
    with None show ?thesis by simp
  next
    case (Some r)
    then have r: "r \<in> set rs" "region_holds r (hi k)" by (auto simp: find_Some_iff)
    have "find_region_id (apply_regionmap rs) k = cr_id r"
      by (rule find_region_id_holds [where r = r])
        (use r in \<open>auto simp: set dest: sorted_apart_unique [OF assms(1)]\<close>)
    with Some show ?thesis by simp
  qed
qed

lemma sint_of_count: "n \<le> regionmap_capacity \<Longrightarrow> nat (sint (of_nat n :: u32)) = n"
  by (subst sint_of_nat32) (simp_all add: regionmap_capacity_def layout_simps MSG_ENTEY_MAX_SIZE_def sizeof_ClientRegion_def)

lemma read_regionmap_one_server:
  assumes "cc_net c = (s, pre)" "total_servers c \<noteq> 0"
    and "published = map snd (global_region_map (snd s))" "length published \<le> regionmap_capacity"
  shows "\<exists>c'. RPC_ReadRegionmap (one_server_env e) c = Inr (RespType_code kSuccess, c') \<and>
    cc_region_map c' = apply_regionmap published \<and> cc_id c' = cc_id c \<and> fst (cc_net c') = s"
proof -
  define resp where "resp = \<lparr>rm_type = kSuccess, rm_num_entries = of_nat (length published), rm_entries = published\<rparr>"
  have d: "fs_dispatch e kReadRegionmap req pre s = Inr (s, [put_regionmap_resp pre resp])" for req
    using assms(3,4) by (simp add: fs_dispatch_def read_region_map_handler_def send_all_def resp_def Let_def)
  show ?thesis
    using assms(2,4) read_regionmap_resp [of pre resp]
    by (simp add: RPC_ReadRegionmap_def one_server_env_def assms(1) rpc_exchange_def one_server_def d
        resp_def sint_of_count Let_def)
qed

text \<open>
  C12: A client that has read the region map from the server finds regions as the server has them: if
  the published regions are proper intervals that do not overlap (and no more than the 92 a response
  has room for), the search through the sorted map returns the id of the published region that holds
  the hash, and -1 if there is none.
\<close>

theorem region_lookup:
  assumes "cc_net c = (s, pre)" and "total_servers c \<noteq> 0"
    and "published = map snd (global_region_map (snd s))" and "length published \<le> regionmap_capacity"
    and "sorted_wrt apart published" and "\<forall>r\<in>set published. proper_region r"
  shows "\<exists>c'. RPC_ReadRegionmap (one_server_env e) c = Inr (RespType_code kSuccess, c') \<and>
    (\<forall>k. find_region_id (cc_region_map c') k =
       (case find (\<lambda>r. region_holds r (hi k)) published of None \<Rightarrow> -1 | Some r \<Rightarrow> cr_id r))"
  using read_regionmap_one_server [OF assms(1-4), of e] find_region_id_apply [OF assms(5,6)] by auto

definition demo_client :: "((ref_db, ref_log) server_state \<times> mem) client_context" where
  "demo_client = \<lparr>cc_id = 7, total_servers = 1, cc_dentry_cache = DentryCache 10000, cc_region_map = [],
     cc_req = (\<lambda>_. 0), cc_resp = (\<lambda>_. 0), cc_net = (demo_state, \<lambda>_. 0)\<rparr>"

lemma demo_published:
  "map snd (global_region_map (snd demo_state)) = [mk_ClientRegion 0 (mk_RegionKey 0 0) (mk_RegionKey 0 1023)]"
  by (simp add: demo_state_eq)

theorem region_lookup_witness:
  "\<exists>c'. RPC_ReadRegionmap (one_server_env demo_env) demo_client = Inr (RespType_code kSuccess, c') \<and>
     find_region_id (cc_region_map c') (mk_RegionKey 0 1023) = 0 \<and>
     find_region_id (cc_region_map c') (mk_RegionKey 0 1024) = -1"
proof -
  have "length [mk_ClientRegion 0 (mk_RegionKey 0 0) (mk_RegionKey 0 1023)] \<le> regionmap_capacity"
    by (simp add: regionmap_capacity_def MSG_ENTEY_MAX_SIZE_def sizeof_ClientRegion_def)
  from region_lookup [of demo_client demo_state "\<lambda>_. 0", OF _ _ demo_published [symmetric] this, of demo_env]
  show ?thesis
    by (auto simp: demo_client_def proper_region_def region_holds_def mk_ClientRegion_def mk_RegionKey_def)
qed

text \<open>
  From the first reading of the region map on, every request a client sends carries the client's
  own id where the server expects the id of a region, whatever the client calls in between. A server
  thread that has no region of that number dereferences a null pointer on each of the eight request
  types.
\<close>

theorem requests_name_the_client:
  assumes "RPC_ReadRegionmap E c0 = Inr (res, c)" and "(rpc_step E)\<^sup>*\<^sup>* c c'"
    and "is_fs_request t" and "region_map (fst s) (cc_id c0) = None"
  shows "req_region (cc_req c') = cc_id c0 \<and> fs_dispatch e t (cc_req c') pre s = Inl NullDeref"
  using RPC_ReadRegionmap_slot [OF assms(1)] rpc_steps_slot [OF assms(2)]
    dispatch_unknown_region [OF assms(3), of s "cc_req c'" e pre] assms(4) by simp

theorem requests_name_the_client_witness:
  "\<exists>c. RPC_ReadRegionmap (one_server_env demo_env) demo_client = Inr (RespType_code kSuccess, c) \<and>
     fs_dispatch demo_env kFSStatReq (cc_req c) (\<lambda>_. 0) demo_state = Inl NullDeref"
proof -
  obtain c where c: "RPC_ReadRegionmap (one_server_env demo_env) demo_client = Inr (RespType_code kSuccess, c)"
    using read_regionmap_one_server [of demo_client demo_state "\<lambda>_. 0", OF _ _ refl, of demo_env]
    by (auto simp: demo_client_def demo_state_eq regionmap_capacity_def MSG_ENTEY_MAX_SIZE_def sizeof_ClientRegion_def)
  have "is_fs_request kFSStatReq" "region_map (fst demo_state) (cc_id demo_client) = None"
    by (simp_all add: is_fs_request_def demo_state_eq demo_client_def)
  with requests_name_the_client [OF c rtranclp.rtrancl_refl] c show ?thesis by blast
qed

end
