(* ===== verification/ReaddirProps.thy ===== *)
theory ReaddirProps
  imports ClientProps
begin

text \<open>
  The listing of a directory: the parser of a response undoes the layout of its entries, and the loop
  over the responses collects all pages.
\<close>

text \<open>
  The layout of one entry in a response, as the comment in \<open>rpc_common.h\<close> gives it: the parent, the
  terminated name and the inode.
\<close>

definition entry_bytes :: "u64 \<Rightarrow> u8 list \<times> u64 \<Rightarrow> u8 list" where
  "entry_bytes pinode e = le_bytes 8 pinode @ cstring (fst e) @ le_bytes 8 (snd e)"

definition dir_add_all :: "OpenFile \<Rightarrow> (u8 list \<times> u64) list \<Rightarrow> OpenFile" where
  "dir_add_all dir es = dir\<lparr>of_entries := of_entries dir @
     map (\<lambda>(f, i). new_DirEntry f (ftype_of i) i) es\<rparr>"

lemma dir_add_all_simps [simp]:
  "dir_add_all dir [] = dir"
  "dir_add_all (dir_add dir f (ftype_of i) i) es = dir_add_all dir ((f, i) # es)"
  "dir_add_all (dir_add_all dir es) es' = dir_add_all dir (es @ es')"
  by (simp_all add: dir_add_all_def dir_add_def)

lemma mem_read_prefix:
  assumes "mem_read m off n = xs @ ys"
  shows "mem_read m off (length xs) = xs" "mem_read m (off + length xs) (length ys) = ys"
proof -
  have "n = length xs + length ys" using assms by (metis length_append length_mem_read)
  then have "mem_read m off (length xs) @ mem_read m (off + length xs) (length ys) = xs @ ys"
    using assms by (simp add: mem_read_append)
  then show "mem_read m off (length xs) = xs" "mem_read m (off + length xs) (length ys) = ys" by simp_all
qed

text \<open>Parsing starts at the first name, eight bytes into the first entry.\<close>

lemma parse_entries_ok:
  assumes "mem_read m off n = concat (map (entry_bytes pinode) es)"
    and "off + n \<le> sizeof_wire_resp" "\<forall>e\<in>set es. is_cstr (fst e)"
  shows "parse_entries m (off + 8) (length es) dir = Inr (dir_add_all dir es)"
  using assms
proof (induction es arbitrary: off n dir)
  case (Cons e es)
  obtain f i where e: "e = (f, i)" by (cases e)
  let ?rest = "concat (map (entry_bytes pinode) es)"
  have 0: "mem_read m off n = le_bytes 8 pinode @ cstring f @ le_bytes 8 i @ ?rest"
    using Cons.prems(1) by (simp add: e entry_bytes_def [of pinode "(f, i)"])
  have n: "n = 8 + (Suc (length f) + (8 + length ?rest))" using arg_cong [OF 0, of length] by simp
  note name = mem_read_prefix(2) [OF 0]
  note inode = mem_read_prefix(2) [OF name]
  note rest = mem_read_prefix(2) [OF inode]
  have f: "cstr_of (mem_read m (off + 8) (sizeof_wire_resp - (off + 8))) = Some f"
    using mem_read_prefix(1) [OF name] Cons.prems(2,3) by (intro cstr_of_mem) (simp_all add: e n)
  have i: "get64 m (off + 8 + (length f + 1)) = i"
    using mem_read_prefix(1) [OF inode] by (simp add: get64_def add.assoc)
  have "mem_read m (off + 8 + (length f + 1) + 8) (length ?rest) = ?rest" using rest by (simp add: add.assoc)
  then have "parse_entries m (off + 8 + (length f + 1) + 8 + 8) (length es) (dir_add dir f (ftype_of i) i) =
      Inr (dir_add_all (dir_add dir f (ftype_of i) i) es)"
    by (rule Cons.IH) (use Cons.prems(2,3) n in auto)
  then show ?case
    using f i Cons.prems(2) by (simp add: e n add.assoc)
qed simp

text \<open>A response whose entries are \<open>es\<close>; a page of a listing says whether more follow.\<close>

definition is_page :: "mem \<Rightarrow> u64 \<Rightarrow> (u8 list \<times> u64) list \<Rightarrow> bool \<Rightarrow> bool" where
  "is_page m pinode es cont \<longleftrightarrow>
     resp_type m = RespType_code kSuccess \<and> rdresp_num_result m = of_nat (length es) \<and>
     (rdresp_is_uncomplete m \<noteq> 0 \<longleftrightarrow> cont) \<and>
     (let bytes = concat (map (entry_bytes pinode) es)
      in length bytes \<le> MSG_ENTEY_MAX_SIZE \<and> mem_read m 24 (length bytes) = bytes) \<and>
     (\<forall>e\<in>set es. is_cstr (fst e))"

lemma length_le_concat_entry: "length es \<le> length (concat (map (entry_bytes p) es))"
  by (induction es) (auto simp: entry_bytes_def)

lemma apply_readdir_page:
  assumes "is_page m pinode es cont"
  shows "apply_readdir_resp m dir = Inr (dir_add_all dir es)"
proof -
  let ?bytes = "concat (map (entry_bytes pinode) es)"
  from assms have p: "rdresp_num_result m = of_nat (length es)" "length ?bytes \<le> MSG_ENTEY_MAX_SIZE"
    "mem_read m 24 (length ?bytes) = ?bytes" "\<forall>e\<in>set es. is_cstr (fst e)"
    by (auto simp: is_page_def Let_def)
  have len: "length es \<le> 3712" using p(2) length_le_concat_entry [of es pinode] by (simp add: MSG_ENTEY_MAX_SIZE_def)
  then have "sint (rdresp_num_result m) = int (length es)" "unat (rdresp_num_result m) = length es"
    by (simp_all add: p(1) sint_of_nat32 unsigned_of_nat take_bit_nat_eq_self)
  with parse_entries_ok [OF p(3) _ p(4), of dir] p(2) show ?thesis
    by (simp add: apply_readdir_resp_def sizeof_wire_resp_def Let_def)
qed

text \<open>
  A transport that answers the \<open>n\<close>-th request of a listing with the \<open>n\<close>-th page; its state counts the
  requests.
\<close>

definition serves_pages :: "nat client_env \<Rightarrow> u64 \<Rightarrow> (u8 list \<times> u64) list list \<Rightarrow> bool" where
  "serves_pages E pinode pages \<longleftrightarrow>
     (\<forall>n k req old. n < length pages \<longrightarrow>
        (\<exists>m. ce_call E n k kFSReaddirReq req old = Some (Suc n, m) \<and>
           is_page m pinode (pages ! n) (Suc n < length pages)))"

lemma readdir_loop_pages:
  assumes "serves_pages E pinode pages" "cc_net c < length pages"
  shows "\<exists>c'. readdir_loop E k pinode dir c =
    Some (Inr (RespType_code kSuccess, dir_add_all dir (concat (drop (cc_net c) pages)), c')) \<and>
    cc_net c' = length pages"
  using assms(2)
proof (induction "length pages - cc_net c" arbitrary: c dir rule: less_induct)
  case less
  let ?n = "cc_net c"
  from assms(1) less.prems obtain m where m: "ce_call E ?n k kFSReaddirReq (cc_req c) (cc_resp c) = Some (Suc ?n, m)"
    and page: "is_page m pinode (pages ! ?n) (Suc ?n < length pages)"
    unfolding serves_pages_def by blast
  have ok: "resp_type m = RespType_code kSuccess" "rdresp_is_uncomplete m \<noteq> 0 \<longleftrightarrow> Suc ?n < length pages"
    using page by (simp_all add: is_page_def)
  have d: "drop ?n pages = pages ! ?n # drop (Suc ?n) pages" using less.prems by (simp add: Cons_nth_drop_Suc)
  note step = readdir_loop.simps [of E k pinode dir c] rpc_exchange_def m apply_readdir_page [OF page]
  show ?case
  proof (cases "Suc ?n < length pages")
    case False
    with ok d less.prems show ?thesis by (simp add: step)
  next
    case True
    define c1 where "c1 = c\<lparr>cc_resp := m, cc_net := Suc ?n, cc_req := put_readdir_req pinode (rdresp_next_offset m) (cc_req c)\<rparr>"
    have "length pages - cc_net c1 < length pages - ?n" "cc_net c1 < length pages"
      using True by (simp_all add: c1_def)
    from less.hyps [OF this, of "dir_add_all dir (pages ! ?n)"] obtain c' where
      "readdir_loop E k pinode (dir_add_all dir (pages ! ?n)) c1 =
        Some (Inr (RespType_code kSuccess, dir_add_all dir (pages ! ?n @ concat (drop (Suc ?n) pages)), c'))"
      "cc_net c' = length pages" by (auto simp: c1_def)
    then show ?thesis using ok True d by (simp add: step c1_def)
  qed
qed


text \<open>Two pages of one entry each, a file and a directory.\<close>

definition demo_page :: "(u8 list \<times> u64) list \<Rightarrow> u32 \<Rightarrow> mem" where
  "demo_page es cont = put_readdir_resp (\<lambda>_. 0)
     \<lparr>rr_type = kSuccess, rr_is_uncomplete = cont, rr_num_result = of_nat (length es), rr_entries_len = 0,
      rr_next_offset = 0, rr_entries = concat (map (entry_bytes 3) es)\<rparr>"

definition demo_pages :: "(u8 list \<times> u64) list list" where
  "demo_pages = [[([97], 5)], [([98], inode_prefix_msb)]]"

definition demo_pager :: "nat client_env" where
  "demo_pager = \<lparr>ce_xxh = id, ce_rand = (\<lambda>w. (0, w)),
     ce_call = (\<lambda>n k t req old. Some (Suc n, demo_page (demo_pages ! n) (if Suc n < 2 then 1 else 0)))\<rparr>"

definition demo_reader :: "nat client_context" where
  "demo_reader = \<lparr>cc_id = 0, total_servers = 1, cc_dentry_cache = DentryCache 10000,
     cc_region_map = [(mk_ClientRegion 0 (mk_RegionKey 0 0) (mk_RegionKey 0 1023), 0)],
     cc_req = (\<lambda>_. 0), cc_resp = (\<lambda>_. 0), cc_net = 0\<rparr>"

lemma read_readdir_entries:
  "length (rr_entries r) = n \<Longrightarrow> mem_read (put_readdir_resp m r) 24 n = rr_entries r"
  by (simp add: put_readdir_resp_def)

lemma demo_page_ok:
  assumes "length (concat (map (entry_bytes 3) es)) \<le> MSG_ENTEY_MAX_SIZE" "\<forall>e\<in>set es. is_cstr (fst e)"
  shows "is_page (demo_page es cont) 3 es (cont \<noteq> 0)"
  using assms by (simp add: is_page_def demo_page_def read_readdir_entries Let_def)

lemma demo_pager_ok: "serves_pages demo_pager 3 demo_pages"
  using demo_page_ok [of "[([97], 5)]" 1] demo_page_ok [of "[([98], inode_prefix_msb)]" 0]
  by (auto simp: serves_pages_def demo_pager_def demo_pages_def less_Suc_eq entry_bytes_def is_cstr_def
      MSG_ENTEY_MAX_SIZE_def)


end
