(* ===== verification/Hooks.thy ===== *)
theory Hooks
  imports MetaClient
begin

unbundle bit_operations_syntax

text \<open>
  \<open>src/client/hooks.cc\<close>: the system calls of the application that the client intercepts. A hook
  returns 0 if it handled the call, with the call's result in \<open>*res\<close>, and another value to hand the
  call on to the kernel. \<open>*res\<close> is passed in and returned, since some branches leave it as it was.
\<close>

section \<open>State and constants\<close>

definition AT_FDCWD :: int where "AT_FDCWD = - 100"
definition AT_REMOVEDIR :: u32 where "AT_REMOVEDIR = 0x200"
definition S_IFMT :: u32 where "S_IFMT = 0xF000"
definition S_IFDIR :: u32 where "S_IFDIR = 0x4000"
definition S_IFREG :: u32 where "S_IFREG = 0x8000"
definition ENOTSUP :: int where "ENOTSUP = 95"
definition DT_REG :: u8 where "DT_REG = 8"
definition DT_DIR :: u8 where "DT_DIR = 4"

definition S_ISDIR :: "u32 \<Rightarrow> bool" where "S_ISDIR m \<longleftrightarrow> m AND S_IFMT = S_IFDIR"
definition S_ISREG :: "u32 \<Rightarrow> bool" where "S_ISREG m \<longleftrightarrow> m AND S_IFMT = S_IFREG"

text \<open>The parts of the caller's \<open>struct stat\<close> and \<open>struct statfs\<close> that are written.\<close>

record user_stat =
  us_dev :: u64
  us_ino :: u64
  us_mode :: u32
  us_nlink :: u64
  us_uid :: u32
  us_gid :: u32
  us_rdev :: u64
  us_atime :: u64
  us_ctime :: u64
  us_mtime :: u64

record user_statfs =
  f_type :: u64
  f_bsize :: u64
  f_blocks :: u64
  f_bfree :: u64
  f_bavail :: u64
  f_files :: u64
  f_ffree :: u64
  f_namelen :: u64
  f_frsize :: u64
  f_flags :: u64

text \<open>
  The client process: its context, the table of open files, and the caller's buffers. From outside
  come the transport, \<open>std::hash\<close> and the uninitialised local variables; \<open>mountdir\<close> is configured.
\<close>

record 'w client =
  cl_ctx :: "'w client_context"
  cl_files :: OpenFileMap
  cl_stat :: user_stat
  cl_statfs :: user_statfs
  cl_dirp :: mem

record 'w hook_env =
  he_client :: "'w client_env"
  he_mountdir :: "u8 list"
  he_hash :: "u8 list \<Rightarrow> u64"
  he_uninit :: "u64 \<times> metafs_stat_t"

type_synonym 'w hook_result = "crash + int \<times> int \<times> 'w client"

section \<open>Paths below the mount point\<close>

text \<open>
  \<open>strncmp(mt_dir, cpath, mt_dir_len) || cpath[mt_dir_len] == '\0'\<close> sends the call to the kernel. What
  follows the mount point is taken from the last of its leading slashes on; without a slash the
  pointer is moved back onto the last character of the mount point.
\<close>

definition below_mount :: "u8 list \<Rightarrow> u8 list \<Rightarrow> bool" where
  "below_mount mt_dir cpath \<longleftrightarrow> take (length mt_dir) cpath = mt_dir \<and> length mt_dir < length cpath"

definition real_path :: "u8 list \<Rightarrow> u8 list \<Rightarrow> crash + u8 list" where
  "real_path mt_dir cpath =
     (let fn = length mt_dir + length (takeWhile (\<lambda>b. b = slash) (drop (length mt_dir) cpath))
      in if fn = 0 then Inl OutOfBounds else Inr (drop (fn - 1) cpath))"

section \<open>Opening and creating\<close>

text \<open>\<open>file_map()->add(make_shared<...>(...))\<close>; no free descriptor number means the search never ends.\<close>

definition add_file :: "OpenFile \<Rightarrow> 'w client \<Rightarrow> crash + int \<times> 'w client" where
  "add_file f s =
     (case alloc_obj (cl_files s) f of
        (p, m) \<Rightarrow> (case ofm_add m p of
          None \<Rightarrow> Inl Hang
        | Some (fd, m) \<Rightarrow> Inr (fd, s\<lparr>cl_files := m\<rparr>)))"

definition open_create ::
  "'w hook_env \<Rightarrow> u8 list \<Rightarrow> u64 \<Rightarrow> u8 list \<Rightarrow> u32 \<Rightarrow> u32 \<Rightarrow> int \<Rightarrow> 'w client \<Rightarrow> 'w hook_result" where
  "open_create H realpath pinode fname flags mode res s =
     (if flags AND O_DIRECTORY \<noteq> 0 \<or> S_ISDIR mode
      then
        andThen (Mkdir (he_client H) pinode fname (mode OR S_IFDIR) (fst (he_uninit H)) (cl_ctx s))
          (\<lambda>(ret, _, c). Inr (0, if ret \<noteq> 0 then - EEXIST else res, s\<lparr>cl_ctx := c\<rparr>))
      else
        andThen (Mknod (he_client H) pinode fname (mode OR S_IFREG) (he_uninit H) (cl_ctx s))
          (\<lambda>(ret, (inode, _), c).
             let s = s\<lparr>cl_ctx := c\<rparr>
             in if ret \<noteq> 0 then Inr (0, - EEXIST, s)
                else andThen (add_file (new_OpenFile realpath flags pinode fname inode regular) s)
                       (\<lambda>(fd, s). Inr (0, fd, s))))"

definition open_existing ::
  "'w hook_env \<Rightarrow> u8 list \<Rightarrow> u64 \<Rightarrow> u8 list \<Rightarrow> u32 \<Rightarrow> u32 \<Rightarrow> int \<Rightarrow> 'w client \<Rightarrow> 'w hook_result" where
  "open_existing H realpath pinode fname flags mode res s =
     andThen (Open (he_client H) pinode fname
         (if flags AND O_DIRECTORY \<noteq> 0 then mode OR S_IFDIR else mode OR S_IFREG) (he_uninit H) (cl_ctx s))
       (\<lambda>(ret, (inode, stat), c).
          let s = s\<lparr>cl_ctx := c\<rparr>
          in if ret = - ENOENT then Inr (0, - ENOENT, s)
             else if S_ISDIR (st_mode stat)
             then
               andThen (Readdir (he_client H) inode (new_OpenDir realpath pinode fname inode) c)
                 (\<lambda>(ret, dir, c).
                    let s = s\<lparr>cl_ctx := c\<rparr>
                    in if ret \<noteq> 0 then Inr (- 1, - EBADF, s)
                       else andThen (add_file dir s) (\<lambda>(fd, s). Inr (0, fd, s)))
             else if S_ISREG (st_mode stat)
             then andThen (add_file (new_OpenFile realpath flags pinode fname inode regular) s)
                    (\<lambda>(fd, s). Inr (0, fd, s))
             else Inr (1, - ENOTSUP, s))"

definition hook_openat ::
  "'w hook_env \<Rightarrow> int \<Rightarrow> u8 list \<Rightarrow> u32 \<Rightarrow> u32 \<Rightarrow> int \<Rightarrow> 'w client \<Rightarrow> 'w hook_result" where
  "hook_openat H dirfd cpath flags mode res s =
     (if dirfd \<noteq> AT_FDCWD then Inr (1, res, s)
      else if cpath = [] \<or> hd cpath \<noteq> slash then Inr (1, res, s)
      else if \<not> below_mount (he_mountdir H) cpath then Inr (1, res, s)
      else
        andThen (real_path (he_mountdir H) cpath) (\<lambda>realpath.
          andThen (ResolvePath (he_client H) realpath (cl_ctx s)) (\<lambda>(st, (pinode, fname, _), c).
            let s = s\<lparr>cl_ctx := c\<rparr>
            in if st \<noteq> PathOk then Inr (0, - ENOENT, s)
               else if flags AND O_CREAT \<noteq> 0
               then open_create H realpath pinode fname flags mode res s
               else open_existing H realpath pinode fname flags mode res s)))"

definition hook_fsync :: "int \<Rightarrow> int \<Rightarrow> 'w client \<Rightarrow> 'w hook_result" where
  "hook_fsync fd res s = (if fd < START_FD then Inr (1, res, s) else Inr (0, 0, s))"

definition hook_close :: "int \<Rightarrow> int \<Rightarrow> 'w client \<Rightarrow> 'w hook_result" where
  "hook_close fd res s =
     (if fd < START_FD then Inr (1, res, s)
      else if ofm_exist (cl_files s) fd
      then Inr (0, 0, s\<lparr>cl_files := snd (ofm_remove (cl_files s) fd)\<rparr>)
      else Inr (0, 0, s))"

text \<open>The descriptor variable of the inner call is local and uninitialised; its value is not used.\<close>

definition hook_mkdirat ::
  "'w hook_env \<Rightarrow> int \<Rightarrow> u8 list \<Rightarrow> u32 \<Rightarrow> int \<Rightarrow> 'w client \<Rightarrow> 'w hook_result" where
  "hook_mkdirat H dirfd path mode res s =
     (if dirfd \<noteq> AT_FDCWD then Inr (1, res, s)
      else andThen (hook_openat H dirfd path (O_CREAT OR O_DIRECTORY) mode 0 s) (\<lambda>(was_hooked, _, s).
        if was_hooked \<noteq> 0 then Inr (1, res, s) else Inr (0, 0, s)))"

text \<open>
  The prefix test of \<open>statfs\<close> leaves out the last character of the mount point; the length
  \<open>mt_dir_len - 1\<close> of an empty one is converted to a huge number, so that all of \<open>path\<close> is compared.
\<close>

definition hook_statfs :: "'w hook_env \<Rightarrow> u8 list \<Rightarrow> int \<Rightarrow> 'w client \<Rightarrow> 'w hook_result" where
  "hook_statfs H path res s =
     (let n = length (he_mountdir H) - 1
      in if he_mountdir H = [] \<and> path \<noteq> [] \<or> take n path \<noteq> take n (he_mountdir H) then Inr (1, res, s)
         else Inr (0, 0, s\<lparr>cl_statfs :=
           \<lparr>f_type = METAFS_MAGIC, f_bsize = METAFS_BLK_SIZE, f_blocks = 40960, f_bfree = 40960,
            f_bavail = 40960, f_files = 0, f_ffree = - 1, f_namelen = of_nat METAFS_MAX_FNAME_LEN,
            f_frsize = 0, f_flags = 6\<rparr>\<rparr>))"

section \<open>Removing and attributes\<close>

definition hook_unlinkat ::
  "'w hook_env \<Rightarrow> int \<Rightarrow> u8 list \<Rightarrow> u32 \<Rightarrow> int \<Rightarrow> 'w client \<Rightarrow> 'w hook_result" where
  "hook_unlinkat H dirfd cpath flags res s =
     (if dirfd \<noteq> AT_FDCWD then Inr (1, res, s)
      else if cpath = [] \<or> hd cpath \<noteq> slash then Inr (1, res, s)
      else if \<not> below_mount (he_mountdir H) cpath then Inr (1, res, s)
      else
        andThen (real_path (he_mountdir H) cpath) (\<lambda>realpath.
          andThen (ResolvePath (he_client H) realpath (cl_ctx s)) (\<lambda>(st, (pinode, fname, _), c).
            if st \<noteq> PathOk then Inl AssertFail
            else
              andThen
                (if flags AND AT_REMOVEDIR \<noteq> 0 then Rmdir (he_client H) pinode fname c
                 else Unlink (he_client H) pinode fname c)
                (\<lambda>(ret, _, c). Inr (0, ret, s\<lparr>cl_ctx := c\<rparr>)))))"

definition fill_stat :: "u64 \<Rightarrow> metafs_stat_t \<Rightarrow> user_stat" where
  "fill_stat inode stat =
     \<lparr>us_dev = 0, us_ino = inode, us_mode = st_mode stat, us_nlink = 1, us_uid = 0, us_gid = 0,
      us_rdev = 0, us_atime = st_atime stat, us_ctime = st_ctime stat, us_mtime = st_mtime stat\<rparr>"

definition stat_by_name ::
  "'w hook_env \<Rightarrow> u64 \<Rightarrow> u8 list \<Rightarrow> 'w client \<Rightarrow> 'w hook_result" where
  "stat_by_name H pinode fname s =
     andThen (Getstat (he_client H) pinode fname (he_uninit H) (cl_ctx s)) (\<lambda>(ret, (inode, stat), c).
       let s = s\<lparr>cl_ctx := c\<rparr>
       in Inr (0, ret, if ret = 0 then s\<lparr>cl_stat := fill_stat inode stat\<rparr> else s))"

definition hook_stat :: "'w hook_env \<Rightarrow> u8 list \<Rightarrow> int \<Rightarrow> 'w client \<Rightarrow> 'w hook_result" where
  "hook_stat H cpath res s =
     (if \<not> below_mount (he_mountdir H) cpath then Inr (1, res, s)
      else
        andThen (real_path (he_mountdir H) cpath) (\<lambda>realpath.
          andThen (ResolvePath (he_client H) realpath (cl_ctx s)) (\<lambda>(st, (pinode, fname, _), c).
            let s = s\<lparr>cl_ctx := c\<rparr>
            in if st \<noteq> PathOk then Inr (- ENOENT, res, s) else stat_by_name H pinode fname s)))"

definition hook_fstat :: "'w hook_env \<Rightarrow> int \<Rightarrow> int \<Rightarrow> 'w client \<Rightarrow> 'w hook_result" where
  "hook_fstat H fd res s =
     (if fd < START_FD then Inr (1, res, s)
      else if ofm_exist (cl_files s) fd
      then
        (case ofm_file (cl_files s) fd of
           None \<Rightarrow> Inl NullDeref
         | Some ffd \<Rightarrow> stat_by_name H (of_pinode ffd) (of_fname ffd) s)
      else Inr (0, - EINVAL, s))"

text \<open>\<open>stat_res\<close> is local and uninitialised; it is set whenever the inner call was hooked.\<close>

definition hook_access :: "'w hook_env \<Rightarrow> u8 list \<Rightarrow> int \<Rightarrow> 'w client \<Rightarrow> 'w hook_result" where
  "hook_access H path res s =
     andThen (hook_stat H path 0 s) (\<lambda>(was_hooked, stat_res, s').
       let s = s\<lparr>cl_ctx := cl_ctx s'\<rparr>
       in if was_hooked \<noteq> 0 then Inr (1, res, s)
          else Inr (0, if stat_res = 0 then 0 else - ENOENT, s))"

section \<open>Data and positions\<close>

definition hook_read :: "int \<Rightarrow> int \<Rightarrow> 'w client \<Rightarrow> 'w hook_result" where
  "hook_read fd res s = (if fd < START_FD then Inr (1, res, s) else Inr (0, 0, s))"

definition hook_write :: "int \<Rightarrow> int \<Rightarrow> 'w client \<Rightarrow> 'w hook_result" where
  "hook_write fd res s = (if fd < START_FD then Inr (1, res, s) else Inr (0, 0, s))"

text \<open>
  The first test assigns \<open>SEEK_SET\<close>, which is 0, to \<open>flag\<close> and so always fails; the second compares
  that 0 with \<open>SEEK_CUR\<close>.
\<close>

definition hook_lseek :: "int \<Rightarrow> int \<Rightarrow> int \<Rightarrow> int \<Rightarrow> 'w client \<Rightarrow> 'w hook_result" where
  "hook_lseek fd off flag res s =
     (if fd < START_FD then Inr (1, res, s)
      else
        let fs_fd = ofm_get (cl_files s) fd; flag = 0
        in if flag \<noteq> (0 :: int)
           then (if off < 0 then Inr (1, - EINVAL, s)
                 else case fs_fd of
                   None \<Rightarrow> Inl NullDeref
                 | Some p \<Rightarrow> Inr (0, res, s\<lparr>cl_files := obj_pos (cl_files s) p (word_of_int off)\<rparr>))
           else if flag = 1
           then (case fs_fd of
                   None \<Rightarrow> Inl NullDeref
                 | Some p \<Rightarrow> Inr (0, res, s\<lparr>cl_files := obj_pos (cl_files s) p
                     ((case objs (cl_files s) p of None \<Rightarrow> 0 | Some f \<Rightarrow> of_pos f) + word_of_int off)\<rparr>))
           else Inr (1, - EINVAL, s))"

section \<open>Directory entries for the caller\<close>

text \<open>\<open>__ALIGN_KERNEL\<close> on \<open>unsigned long\<close>.\<close>

definition ALIGN :: "u64 \<Rightarrow> u64 \<Rightarrow> u64" where
  "ALIGN x a = (x + (a - 1)) AND NOT (a - 1)"

definition put16 :: "mem \<Rightarrow> nat \<Rightarrow> u16 \<Rightarrow> mem" where
  "put16 m off w = mem_write m off (le_bytes 2 w)"

definition get16 :: "mem \<Rightarrow> nat \<Rightarrow> u16" where
  "get16 m off = le_word (mem_read m off 2)"

definition d_type_of :: "DirEntry \<Rightarrow> u8" where
  "d_type_of de = (if de_type de = regular then DT_REG else DT_DIR)"

text \<open>
  One record of \<open>getdents\<close> at \<open>off\<close>: the name at offset 18 and the type in the last byte. \<open>ino\<close> is the
  hash of the entry's path and \<open>pos\<close> the position after the entry.
\<close>

definition dirent_size :: "DirEntry \<Rightarrow> u64" where
  "dirent_size de = ALIGN (18 + of_nat (length (de_name de)) + 3) 8"

definition put_dirent :: "mem \<Rightarrow> nat \<Rightarrow> u64 \<Rightarrow> u64 \<Rightarrow> DirEntry \<Rightarrow> mem" where
  "put_dirent m off ino pos de =
     put64
       (mem_write
         (mem_write (put16 (put64 m off ino) (off + 16) (ucast (dirent_size de)))
           (off + unat (dirent_size de) - 1) [d_type_of de])
         (off + 18) (cstring (de_name de)))
       (off + 8) pos"

text \<open>One record of \<open>getdents64\<close>: the type at offset 18 and the name at 19.\<close>

definition dirent64_size :: "DirEntry \<Rightarrow> u64" where
  "dirent64_size de = ALIGN (19 + of_nat (length (de_name de)) + 1) 8"

definition put_dirent64 :: "mem \<Rightarrow> nat \<Rightarrow> u64 \<Rightarrow> u64 \<Rightarrow> DirEntry \<Rightarrow> mem" where
  "put_dirent64 m off ino pos de =
     put64
       (mem_write
         (mem_write (put16 (put64 m off ino) (off + 16) (ucast (dirent64_size de)))
           (off + 18) [d_type_of de])
         (off + 19) (cstring (de_name de)))
       (off + 8) pos"

text \<open>
  The loop over the entries from \<open>pos\<close> on, for either kind of record. \<open>count - written\<close> is computed
  in \<open>unsigned int\<close> and then compared with the \<open>unsigned long\<close> size.
\<close>

function getdents_loop ::
  "(DirEntry \<Rightarrow> u64) \<Rightarrow> (mem \<Rightarrow> nat \<Rightarrow> u64 \<Rightarrow> u64 \<Rightarrow> DirEntry \<Rightarrow> mem) \<Rightarrow> (u8 list \<Rightarrow> u64) \<Rightarrow> OpenFile \<Rightarrow> u32 \<Rightarrow>
   nat \<Rightarrow> u32 \<Rightarrow> mem \<Rightarrow> crash + nat \<times> u32 \<times> mem" where
  "getdents_loop rec_size put_rec hash dir count pos written m =
     (if pos < dir_size dir
      then
        andThen (getdent dir (of_nat pos)) (\<lambda>de.
          let total_size = rec_size de
          in if ucast (count - written) < total_size then Inr (pos, written, m)
             else
               let ino = hash (of_path dir @ [slash] @ de_name de);
                   m = put_rec m (unat written) ino (of_nat (pos + 1)) de
               in getdents_loop rec_size put_rec hash dir count (pos + 1) (written + ucast total_size) m)
      else Inr (pos, written, m))"
  by pat_completeness auto

termination
  by (relation "measure (\<lambda>(rec_size, put_rec, hash, dir, count, pos, written, m). dir_size dir - pos)") auto

declare getdents_loop.simps [simp del]

definition getdents_with ::
  "(DirEntry \<Rightarrow> u64) \<Rightarrow> (mem \<Rightarrow> nat \<Rightarrow> u64 \<Rightarrow> u64 \<Rightarrow> DirEntry \<Rightarrow> mem) \<Rightarrow> 'w hook_env \<Rightarrow> int \<Rightarrow> u32 \<Rightarrow> int \<Rightarrow>
   'w client \<Rightarrow> 'w hook_result" where
  "getdents_with rec_size put_rec H fd count res s =
     (if fd < START_FD then Inr (1, res, s)
      else if ofm_exist (cl_files s) fd
      then
        (case ofm_get_dir (cl_files s) fd of
           None \<Rightarrow> Inr (1, - EBADF, s)
         | Some p \<Rightarrow>
             (case objs (cl_files s) p of
                None \<Rightarrow> Inl NullDeref
              | Some dir \<Rightarrow>
                  if dir_size dir \<le> unat (of_pos dir) then Inr (0, 0, s)
                  else
                    andThen (getdents_loop rec_size put_rec (he_hash H) dir count (unat (of_pos dir)) 0 (cl_dirp s))
                      (\<lambda>(pos, written, m).
                         let s = s\<lparr>cl_dirp := m\<rparr>
                         in if written = 0 then Inr (1, - EINVAL, s)
                            else Inr (0, int (unat written),
                              s\<lparr>cl_files := obj_pos (cl_files s) p (of_nat pos)\<rparr>))))
      else Inr (0, res, s))"

definition hook_getdents :: "'w hook_env \<Rightarrow> int \<Rightarrow> u32 \<Rightarrow> int \<Rightarrow> 'w client \<Rightarrow> 'w hook_result" where
  "hook_getdents = getdents_with dirent_size put_dirent"

definition hook_getdents64 :: "'w hook_env \<Rightarrow> int \<Rightarrow> u32 \<Rightarrow> int \<Rightarrow> 'w client \<Rightarrow> 'w hook_result" where
  "hook_getdents64 = getdents_with dirent64_size put_dirent64"

section \<open>Dispatch\<close>

text \<open>The system calls with the arguments the dispatch passes on.\<close>

datatype syscall =
    SYS_open "u8 list" u32 u32
  | SYS_creat "u8 list" u32
  | SYS_openat int "u8 list" u32 u32
  | SYS_close int
  | SYS_write int
  | SYS_read int
  | SYS_lseek int int int
  | SYS_fsync int
  | SYS_stat "u8 list"
  | SYS_fstat int
  | SYS_mkdirat int "u8 list" u32
  | SYS_mkdir "u8 list" u32
  | SYS_statfs "u8 list"
  | SYS_access "u8 list"
  | SYS_unlink "u8 list"
  | SYS_rmdir "u8 list"
  | SYS_getdents int u32
  | SYS_getdents64 int u32 u32
  | SYS_fork
  | SYS_vfork
  | SYS_other

text \<open>\<open>SYS_getdents64\<close> takes the fourth argument of the call as the count, not the third.\<close>

fun hook :: "'w hook_env \<Rightarrow> syscall \<Rightarrow> int \<Rightarrow> 'w client \<Rightarrow> 'w hook_result" where
  "hook H (SYS_open path flags mode) res s = hook_openat H AT_FDCWD path flags mode res s"
| "hook H (SYS_creat path mode) res s =
     hook_openat H AT_FDCWD path (O_WRONLY OR O_CREAT OR O_TRUNC) mode res s"
| "hook H (SYS_openat dirfd path flags mode) res s = hook_openat H dirfd path flags mode res s"
| "hook H (SYS_close fd) res s = hook_close fd res s"
| "hook H (SYS_write fd) res s = hook_write fd res s"
| "hook H (SYS_read fd) res s = hook_read fd res s"
| "hook H (SYS_lseek fd off flag) res s = hook_lseek fd off flag res s"
| "hook H (SYS_fsync fd) res s = hook_fsync fd res s"
| "hook H (SYS_stat path) res s = hook_stat H path res s"
| "hook H (SYS_fstat fd) res s = hook_fstat H fd res s"
| "hook H (SYS_mkdirat dirfd path mode) res s = hook_mkdirat H dirfd path mode res s"
| "hook H (SYS_mkdir path mode) res s = hook_mkdirat H AT_FDCWD path mode res s"
| "hook H (SYS_statfs path) res s = hook_statfs H path res s"
| "hook H (SYS_access path) res s = hook_access H path res s"
| "hook H (SYS_unlink path) res s = hook_unlinkat H AT_FDCWD path 0 res s"
| "hook H (SYS_rmdir path) res s = hook_unlinkat H AT_FDCWD path AT_REMOVEDIR res s"
| "hook H (SYS_getdents fd a2) res s = hook_getdents H fd a2 res s"
| "hook H (SYS_getdents64 fd a2 a3) res s = hook_getdents64 H fd a3 res s"
| "hook H SYS_fork res s = Inl AssertFail"
| "hook H SYS_vfork res s = Inl AssertFail"
| "hook H SYS_other res s = Inr (1, res, s)"

text \<open>
  The entry point: a call made while the thread is inside a hook goes to the kernel, and \<open>errno\<close> is
  restored after the hook. \<open>th_inside\<close> is the flag of the thread.
\<close>

record 'w hook_thread =
  th_client :: "'w client"
  th_errno :: int
  th_inside :: bool

definition metafs_hook ::
  "'w hook_env \<Rightarrow> syscall \<Rightarrow> int \<Rightarrow> 'w hook_thread \<Rightarrow> crash + int \<times> int \<times> 'w hook_thread" where
  "metafs_hook H call res t =
     (if th_inside t then Inr (1, res, t)
      else
        let oerrno = th_errno t
        in andThen (hook H call res (th_client t)) (\<lambda>(was_hooked, res, s).
             Inr (was_hooked, res, t\<lparr>th_client := s, th_errno := oerrno, th_inside := False\<rparr>)))"

end
