(* ===== verification/HookProps.thy ===== *)
theory HookProps
  imports Hooks
begin

unbundle bit_operations_syntax

text \<open>
  Properties of the system-call hooks: they keep the table of descriptors, what they do with names
  beside the mount point, and what \<open>getdents\<close> and \<open>getdents64\<close> leave in the caller's buffer. The two
  record layouts are instances of the locale \<open>dirent_format\<close>, over which the loop is proved once.
\<close>

section \<open>The table of descriptors\<close>

text \<open>The table is consistent and holds only descriptors the kernel does not use.\<close>

definition table_ok :: "OpenFileMap \<Rightarrow> bool" where
  "table_ok m \<longleftrightarrow> ofm_inv m \<and> (\<forall>fd. ofm_get m fd \<noteq> None \<longrightarrow> START_FD \<le> fd)"

definition table_step :: "OpenFileMap \<Rightarrow> OpenFileMap \<Rightarrow> bool" where
  "table_step m m' \<longleftrightarrow> table_ok m' \<and> length (files m') \<le> Suc (length (files m))"

lemma table_step_refl: "table_ok m \<Longrightarrow> table_step m m"
  by (simp add: table_step_def)

lemma alloc_obj_facts:
  assumes "ofm_inv m" "alloc_obj m f = (p, m1)"
  shows "ofm_inv m1 \<and> files m1 = files m \<and> objs m1 p = Some f \<and> ofm_get m1 = ofm_get m"
  using assms
  by (fastforce simp: alloc_obj_def ofm_inv_def ofm_get_def [abs_def] dom_def)

lemma add_file_table:
  assumes "add_file f s = Inr (fd, s')" "table_ok (cl_files s)" "length (files (cl_files s)) < FD_LIMIT"
  shows "table_step (cl_files s) (cl_files s') \<and> ofm_get (cl_files s) fd = None \<and>
    ofm_file (cl_files s') fd = Some f \<and> START_FD \<le> fd \<and> cl_ctx s' = cl_ctx s"
proof -
  obtain p m1 where m1: "alloc_obj (cl_files s) f = (p, m1)" by (cases "alloc_obj (cl_files s) f")
  from assms(2) have inv: "ofm_inv (cl_files s)" and start: "\<And>fd. ofm_get (cl_files s) fd \<noteq> None \<Longrightarrow> START_FD \<le> fd"
    by (simp_all add: table_ok_def)
  note a = alloc_obj_facts [OF inv m1]
  from ofm_add_law [of m1 p] a assms(3) obtain fd' m' where
    m': "ofm_add m1 p = Some (fd', m')" "START_FD \<le> fd'" "ofm_get m1 fd' = None"
      "ofm_get m' = (ofm_get m1)(fd' \<mapsto> p)" "ofm_inv m'" "objs m' = objs m1"
      "length (files m') = Suc (length (files m1))" by auto
  from assms(1) m1 m'(1) have "fd = fd'" "s' = s\<lparr>cl_files := m'\<rparr>" by (auto simp: add_file_def)
  with a m' start show ?thesis
    by (auto simp: table_step_def table_ok_def ofm_file_def)
qed

lemma obj_pos_table: "table_ok m \<Longrightarrow> table_step m (obj_pos m p pos)"
  by (auto simp: table_step_def table_ok_def obj_pos_def ofm_inv_def ofm_get_def dom_def split: if_splits)

lemma remove_table: "table_ok m \<Longrightarrow> table_step m (snd (ofm_remove m fd))"
  using ofm_remove_length [of m fd]
  by (auto simp: table_step_def table_ok_def ofm_remove_inv ofm_remove_get split: if_splits)

lemma open_create_table:
  assumes "open_create H path pinode fname flags mode res s = Inr (r, res', s')"
    and "table_ok (cl_files s)" "length (files (cl_files s)) < FD_LIMIT"
  shows "table_step (cl_files s) (cl_files s')"
  using assms
  by (auto simp: open_create_def table_step_refl Let_def split: if_splits dest!: add_file_table)

lemma open_existing_table:
  assumes "open_existing H path pinode fname flags mode res s = Inr (r, res', s')"
    and "table_ok (cl_files s)" "length (files (cl_files s)) < FD_LIMIT"
  shows "table_step (cl_files s) (cl_files s')"
  using assms
  by (auto simp: open_existing_def table_step_refl Let_def split: if_splits dest!: add_file_table)

lemma hook_openat_table:
  assumes "hook_openat H dirfd path flags mode res s = Inr (r, res', s')"
    and "table_ok (cl_files s)" "length (files (cl_files s)) < FD_LIMIT"
  shows "table_step (cl_files s) (cl_files s')"
  using assms
  by (auto simp: hook_openat_def table_step_refl Let_def split: if_splits
      dest!: open_create_table open_existing_table)

lemma stat_by_name_files: "stat_by_name H p f s = Inr (r, res', s') \<Longrightarrow> cl_files s' = cl_files s"
  by (auto simp: stat_by_name_def Let_def split: if_splits)

lemma hook_stat_files: "hook_stat H p res s = Inr (r, res', s') \<Longrightarrow> cl_files s' = cl_files s"
  by (auto simp: hook_stat_def Let_def split: if_splits dest!: stat_by_name_files)

lemma getdents_with_table:
  assumes "getdents_with rs pr H fd count res s = Inr (r, res', s')" "table_ok (cl_files s)"
  shows "table_step (cl_files s) (cl_files s')"
  using assms
  by (auto simp: getdents_with_def table_step_refl obj_pos_table Let_def split: if_splits option.splits)

text \<open>
  C8: No system call breaks the table of descriptors: whichever of the intercepted calls an application
  makes, with whatever arguments and answers from the servers, if it returns then the table still
  satisfies its invariant, holds only descriptors from \<open>START_FD\<close> on (so none of the kernel's), and has
  grown by at most one entry.
\<close>

theorem hooks_keep_descriptors:
  assumes "hook H call res s = Inr (r, res', s')"
    and "table_ok (cl_files s)" and "length (files (cl_files s)) < FD_LIMIT"
  shows "table_step (cl_files s) (cl_files s')"
proof (cases call)
  case (SYS_mkdirat dirfd path mode)
  with assms show ?thesis
    by (auto simp: hook_mkdirat_def table_step_refl split: if_splits dest!: hook_openat_table)
next
  case (SYS_mkdir path mode)
  with assms show ?thesis
    by (auto simp: hook_mkdirat_def table_step_refl split: if_splits dest!: hook_openat_table)
next
  case (SYS_lseek fd off flag)
  with assms show ?thesis by (auto simp: hook_lseek_def table_step_refl split: if_splits)
qed (use assms in \<open>auto simp: hook_close_def hook_write_def hook_read_def hook_fsync_def hook_statfs_def
    hook_access_def hook_fstat_def hook_unlinkat_def hook_getdents_def hook_getdents64_def Let_def
    table_step_refl remove_table split: if_splits option.splits
    dest!: hook_openat_table hook_stat_files stat_by_name_files getdents_with_table\<close>)

section \<open>Names next to the mount point\<close>

lemma real_path_sibling:
  assumes "mt \<noteq> []" "b \<noteq> slash"
  shows "below_mount mt (mt @ b # rest)" "real_path mt (mt @ b # rest) = Inr (last mt # b # rest)"
proof -
  show "below_mount mt (mt @ b # rest)" by (simp add: below_mount_def)
  have "drop (length mt - 1) (mt @ b # rest) = last mt # b # rest"
    using assms(1) by (cases mt rule: rev_cases) auto
  with assms show "real_path mt (mt @ b # rest) = Inr (last mt # b # rest)"
    by (simp add: real_path_def Let_def)
qed

text \<open>
  The test for the mount point accepts names that merely start with it: for the mount point
  \<open>/tmp/metafs\<close> also \<open>/tmp/metafs2/x\<close>. Such a name does not resolve, so opening it reports \<open>ENOENT\<close>
  instead of handing the call to the kernel, whatever the kernel's file system has there, and removing
  it ends the application on an assertion. No server is asked.
\<close>

theorem sibling_of_mount_point:
  assumes "he_mountdir H = mt" and "mt \<noteq> []" and "hd mt = slash" and "last mt \<noteq> slash" and "b \<noteq> slash"
  shows "hook_openat H AT_FDCWD (mt @ b # rest) flags mode res s = Inr (0, - ENOENT, s) \<and>
    hook_unlinkat H AT_FDCWD (mt @ b # rest) uflags res s = Inl AssertFail"
proof -
  have r: "ResolvePath (he_client H) (last mt # b # rest) c = Inr (InvalidArgument, (0, [], 0), c)" for c
    using assms(4) by (subst ResolvePath.simps) simp
  show ?thesis
    using assms by (simp add: hook_openat_def hook_unlinkat_def real_path_sibling r Let_def)
qed

definition demo_hook_env :: "unit hook_env" where
  "demo_hook_env = \<lparr>he_client = \<lparr>ce_xxh = id, ce_rand = (\<lambda>w. (0, w)), ce_call = (\<lambda>w k t req old. None)\<rparr>,
     he_mountdir = [slash, 109], he_hash = (\<lambda>_. 7), he_uninit = (0, stat_of_mode 0 0)\<rparr>"

definition demo_process :: "unit client" where
  "demo_process = \<lparr>cl_ctx = \<lparr>cc_id = 0, total_servers = 1, cc_dentry_cache = DentryCache 10000,
       cc_region_map = [], cc_req = (\<lambda>_. 0), cc_resp = (\<lambda>_. 0), cc_net = ()\<rparr>,
     cl_files = new_OpenFileMap, cl_stat = fill_stat 0 (stat_of_mode 0 0),
     cl_statfs = \<lparr>f_type = 0, f_bsize = 0, f_blocks = 0, f_bfree = 0, f_bavail = 0, f_files = 0, f_ffree = 0,
       f_namelen = 0, f_frsize = 0, f_flags = 0\<rparr>,
     cl_dirp = (\<lambda>_. 0)\<rparr>"

theorem sibling_of_mount_point_witness:
  "hook_unlinkat demo_hook_env AT_FDCWD [slash, 109, 50, slash, 120] 0 0 demo_process = Inl AssertFail"
  using sibling_of_mount_point [of demo_hook_env "[slash, 109]" 50 "[slash, 120]"]
  by (simp add: demo_hook_env_def slash_def)

section \<open>Directory records\<close>

lemma ALIGN8_nat:
  assumes "unat x + 7 < 2 ^ 64"
  shows "unat (ALIGN x 8) = (unat x + 7) div 8 * 8"
proof -
  have s: "unat (x + 7) = unat x + 7" using assms by (simp add: unat_word_ariths)
  have m: "y AND NOT (mask 3 :: u64) = push_bit 3 (drop_bit 3 y)" for y
    by (rule bit_word_eqI) (auto simp: bit_simps bit_mask_iff)
  have "(x + 7) AND NOT 7 = push_bit 3 (drop_bit 3 (x + 7))"
    using m [of "x + 7"] by (simp add: mask_eq_exp_minus_1)
  moreover have "unat (push_bit 3 (drop_bit 3 (x + 7))) = (unat x + 7) div 8 * 8"
  proof -
    have "(unat x + 7) div 8 * 8 < 2 ^ 64" using assms by linarith
    then show ?thesis
      by (simp only: unsigned_push_bit_eq unsigned_drop_bit_eq s)
        (simp add: push_bit_eq_mult drop_bit_eq_div take_bit_nat_eq_self)
  qed
  ultimately show ?thesis by (simp add: ALIGN_def)
qed

text \<open>Names short enough for the record length to fit its 16 bits.\<close>

definition fits :: "DirEntry \<Rightarrow> bool" where
  "fits de \<longleftrightarrow> is_cstr (de_name de) \<and> length (de_name de) < 32768"

lemma rec_sizes:
  assumes "fits de"
  shows "unat (dirent_size de) = (28 + length (de_name de)) div 8 * 8"
    and "unat (dirent64_size de) = (27 + length (de_name de)) div 8 * 8"
proof -
  let ?n = "length (de_name de)"
  from assms have n: "?n < 32768" by (simp add: fits_def)
  have "unat (18 + of_nat ?n + 3 :: u64) = 21 + ?n" "unat (19 + of_nat ?n + 1 :: u64) = 20 + ?n"
    using n by (simp_all add: unat_word_ariths unsigned_of_nat take_bit_nat_eq_self)
  with n show "unat (dirent_size de) = (28 + ?n) div 8 * 8" "unat (dirent64_size de) = (27 + ?n) div 8 * 8"
    by (simp_all add: dirent_size_def dirent64_size_def ALIGN8_nat add.commute)
qed

text \<open>Reading a record the way the C library does: the length, the inode, the offset, the type, the name.\<close>

type_synonym dirent_rec = "u64 \<times> u64 \<times> u8 \<times> u8 list option"

definition get_dirent :: "mem \<Rightarrow> nat \<Rightarrow> nat \<times> dirent_rec" where
  "get_dirent m off =
     (let n = unat (get16 m (off + 16))
      in (n, get64 m off, get64 m (off + 8), m (off + n - 1), cstr_of (mem_read m (off + 18) (n - 19))))"

definition get_dirent64 :: "mem \<Rightarrow> nat \<Rightarrow> nat \<times> dirent_rec" where
  "get_dirent64 m off =
     (let n = unat (get16 m (off + 16))
      in (n, get64 m off, get64 m (off + 8), m (off + 18), cstr_of (mem_read m (off + 19) (n - 19))))"

primrec read_records :: "(mem \<Rightarrow> nat \<Rightarrow> nat \<times> dirent_rec) \<Rightarrow> mem \<Rightarrow> nat \<Rightarrow> nat \<Rightarrow> dirent_rec list" where
  "read_records get m off 0 = []"
| "read_records get m off (Suc k) = (case get m off of (n, r) \<Rightarrow> r # read_records get m (off + n) k)"

definition records_of :: "(u8 list \<Rightarrow> u64) \<Rightarrow> OpenFile \<Rightarrow> nat \<Rightarrow> nat \<Rightarrow> dirent_rec list" where
  "records_of hash dir pos k =
     map (\<lambda>i. let de = of_entries dir ! i
              in (hash (of_path dir @ [slash] @ de_name de), of_nat (i + 1), d_type_of de, Some (de_name de)))
       [pos..<pos + k]"

definition rec_bytes :: "(DirEntry \<Rightarrow> u64) \<Rightarrow> OpenFile \<Rightarrow> nat \<Rightarrow> nat \<Rightarrow> nat" where
  "rec_bytes rec_size dir pos k = (\<Sum>i\<leftarrow>[pos..<pos + k]. unat (rec_size (of_entries dir ! i)))"

lemma records_of_Suc:
  "records_of hash dir pos (Suc k) =
     (let de = of_entries dir ! pos
      in (hash (of_path dir @ [slash] @ de_name de), of_nat (pos + 1), d_type_of de, Some (de_name de))) #
     records_of hash dir (pos + 1) k"
  by (simp add: records_of_def upt_conv_Cons del: upt_Suc)

lemma rec_bytes_Suc:
  "rec_bytes rec_size dir pos (Suc k) = unat (rec_size (of_entries dir ! pos)) + rec_bytes rec_size dir (pos + 1) k"
  by (simp add: rec_bytes_def upt_conv_Cons del: upt_Suc)

text \<open>
  What the caller gets: the records of the next \<open>k\<close> entries, as many as fit the buffer, nothing written
  behind them, the position moved past them and their size as the result; \<open>EINVAL\<close> if not even one
  fits.
\<close>

definition getdents_result ::
  "(mem \<Rightarrow> nat \<Rightarrow> nat \<times> dirent_rec) \<Rightarrow> (DirEntry \<Rightarrow> u64) \<Rightarrow> 'w hook_env \<Rightarrow> nat \<Rightarrow> OpenFile \<Rightarrow> u32 \<Rightarrow>
   'w client \<Rightarrow> 'w hook_result \<Rightarrow> bool" where
  "getdents_result get_rec rec_size H p dir count s r \<longleftrightarrow>
     (\<exists>k m'. let pos = unat (of_pos dir); n = rec_bytes rec_size dir pos k
        in pos + k \<le> dir_size dir \<and> n \<le> unat count \<and>
           (pos + k = dir_size dir \<or> unat count < n + unat (rec_size (of_entries dir ! (pos + k)))) \<and>
           read_records get_rec m' 0 k = records_of (he_hash H) dir pos k \<and>
           (\<forall>a\<ge>n. m' a = cl_dirp s a) \<and>
           r = (if k = 0 then Inr (1, - EINVAL, s)
                else Inr (0, int n, s\<lparr>cl_dirp := m', cl_files := obj_pos (cl_files s) p (of_nat (pos + k))\<rparr>)))"

lemma getdents_resultE:
  assumes "getdents_result get_rec rec_size H p dir count s r"
  obtains k m' where "unat (of_pos dir) + k \<le> dir_size dir"
    "rec_bytes rec_size dir (unat (of_pos dir)) k \<le> unat count"
    "unat (of_pos dir) + k = dir_size dir \<or> unat count <
       rec_bytes rec_size dir (unat (of_pos dir)) k + unat (rec_size (of_entries dir ! (unat (of_pos dir) + k)))"
    "read_records get_rec m' 0 k = records_of (he_hash H) dir (unat (of_pos dir)) k"
    "r = (if k = 0 then Inr (1, - EINVAL, s)
          else Inr (0, int (rec_bytes rec_size dir (unat (of_pos dir)) k),
            s\<lparr>cl_dirp := m', cl_files := obj_pos (cl_files s) p (of_nat (unat (of_pos dir) + k))\<rparr>))"
  using assms unfolding getdents_result_def Let_def by (elim exE conjE) (rule that)

text \<open>
  What the loop needs of a record format: the size, that a record written is read back from its own
  bytes, and that nothing outside them changes.
\<close>

locale dirent_format =
  fixes rec_size :: "DirEntry \<Rightarrow> u64"
    and put_rec :: "mem \<Rightarrow> nat \<Rightarrow> u64 \<Rightarrow> u64 \<Rightarrow> DirEntry \<Rightarrow> mem"
    and get_rec :: "mem \<Rightarrow> nat \<Rightarrow> nat \<times> dirent_rec"
  assumes size_bounds: "fits de \<Longrightarrow> 24 \<le> unat (rec_size de) \<and> unat (rec_size de) < 2 ^ 16"
    and get_put: "fits de \<Longrightarrow> get_rec (put_rec m off ino pos de) off =
      (unat (rec_size de), ino, pos, d_type_of de, Some (de_name de))"
    and get_local: "get_rec m off = (n, r) \<Longrightarrow> 24 \<le> n \<Longrightarrow>
      (\<And>a. off \<le> a \<Longrightarrow> a < off + n \<Longrightarrow> m' a = m a) \<Longrightarrow> get_rec m' off = (n, r)"
    and put_frame: "fits de \<Longrightarrow> a < off \<or> off + unat (rec_size de) \<le> a \<Longrightarrow> put_rec m off ino pos de a = m a"
begin

lemma loop_ok:
  assumes "\<forall>de\<in>set (of_entries dir). fits de" "dir_size dir < 2 ^ 32" "unat count < 2 ^ 31"
    and "unat written \<le> unat count" "pos \<le> dir_size dir"
  shows "\<exists>k w' m'. getdents_loop rec_size put_rec hash dir count pos written m = Inr (pos + k, w', m') \<and>
    pos + k \<le> dir_size dir \<and> unat w' = unat written + rec_bytes rec_size dir pos k \<and> unat w' \<le> unat count \<and>
    read_records get_rec m' (unat written) k = records_of hash dir pos k \<and>
    (\<forall>a. a < unat written \<or> unat w' \<le> a \<longrightarrow> m' a = m a) \<and>
    (pos + k = dir_size dir \<or> unat count < unat w' + unat (rec_size (of_entries dir ! (pos + k))))"
  using assms(4,5)
proof (induction "dir_size dir - pos" arbitrary: pos written m rule: less_induct)
  case less
  show ?case
  proof (cases "pos < dir_size dir")
    case False
    with less.prems show ?thesis
      by (intro exI [of _ 0] exI [of _ written] exI [of _ m])
        (simp add: getdents_loop.simps records_of_def rec_bytes_def)
  next
    case True
    define de where "de = of_entries dir ! pos"
    have fits: "fits de" using assms(1) True by (simp add: de_def dir_size_def)
    note size = size_bounds [OF fits]
    have "unat (of_nat pos :: u32) = pos"
      using True assms(2) by (simp add: unsigned_of_nat take_bit_nat_eq_self)
    then have get: "getdent dir (of_nat pos) = Inr de" using True by (simp add: getdent_def de_def dir_size_def)
    have sub: "unat (count - written) = unat count - unat written"
      using less.prems(1) by (simp add: unat_sub word_le_nat_alt)
    have fit_iff: "ucast (count - written) < rec_size de \<longleftrightarrow> unat count < unat written + unat (rec_size de)"
    proof -
      have "take_bit 64 (unat count - unat written) = unat count - unat written"
        by (rule take_bit_nat_eq_self) (use assms(3) in simp)
      then show ?thesis
        using less.prems(1) by (simp add: word_less_nat_alt unsigned_ucast_eq sub) linarith
    qed
    show ?thesis
    proof (cases "unat count < unat written + unat (rec_size de)")
      case full: True
      with True fit_iff less.prems get show ?thesis
        by (intro exI [of _ 0] exI [of _ written] exI [of _ m])
          (simp add: getdents_loop.simps records_of_def rec_bytes_def de_def [symmetric] Let_def)
    next
      case room: False
      define m1 where "m1 = put_rec m (unat written) (hash (of_path dir @ [slash] @ de_name de)) (of_nat (pos + 1)) de"
      define w1 where "w1 = written + (ucast (rec_size de) :: u32)"
      have w1: "unat w1 = unat written + unat (rec_size de)"
        using room assms(3) size
        by (simp add: w1_def unat_word_ariths unsigned_ucast_eq unsigned_take_bit_eq take_bit_nat_eq_self)
      have step: "getdents_loop rec_size put_rec hash dir count pos written m =
          getdents_loop rec_size put_rec hash dir count (pos + 1) w1 m1"
        using True room fit_iff get by (subst getdents_loop.simps) (simp add: m1_def w1_def Let_def)
      have "dir_size dir - (pos + 1) < dir_size dir - pos" "unat w1 \<le> unat count" "pos + 1 \<le> dir_size dir"
        using True room w1 by auto
      from less.hyps [OF this, of m1] obtain k w' m' where
        ih: "getdents_loop rec_size put_rec hash dir count (pos + 1) w1 m1 = Inr (pos + 1 + k, w', m')"
          "pos + 1 + k \<le> dir_size dir" "unat w' = unat w1 + rec_bytes rec_size dir (pos + 1) k" "unat w' \<le> unat count"
          "read_records get_rec m' (unat w1) k = records_of hash dir (pos + 1) k"
          "\<And>a. a < unat w1 \<or> unat w' \<le> a \<Longrightarrow> m' a = m1 a"
          "pos + 1 + k = dir_size dir \<or> unat count < unat w' + unat (rec_size (of_entries dir ! (pos + 1 + k)))"
        by blast
      have "get_rec m' (unat written) =
          (unat (rec_size de), hash (of_path dir @ [slash] @ de_name de), of_nat (pos + 1), d_type_of de, Some (de_name de))"
        by (rule get_local [OF get_put [OF fits]]) (use size ih(6) w1 in \<open>auto simp: m1_def\<close>)
      with ih(5) w1 have "read_records get_rec m' (unat written) (Suc k) = records_of hash dir pos (Suc k)"
        by (simp add: records_of_Suc de_def Let_def)
      moreover have "\<forall>a. a < unat written \<or> unat w' \<le> a \<longrightarrow> m' a = m a"
        using ih(3,6) w1 put_frame [OF fits, of _ "unat written" m] by (auto simp: m1_def)
      moreover have "unat w' = unat written + rec_bytes rec_size dir pos (Suc k)"
        using ih(3) w1 by (simp add: rec_bytes_Suc de_def)
      ultimately show ?thesis
        using ih step by (intro exI [of _ "Suc k"] exI [of _ w'] exI [of _ m']) simp
    qed
  qed
qed

lemma rec_bytes_pos:
  assumes "\<forall>de\<in>set (of_entries dir). fits de" "pos + k \<le> dir_size dir" "0 < k"
  shows "0 < rec_bytes rec_size dir pos k"
proof (cases k)
  case (Suc j)
  have "fits (of_entries dir ! pos)" using assms Suc by (simp add: dir_size_def)
  from size_bounds [OF this] show ?thesis by (simp add: Suc rec_bytes_Suc)
qed (use assms in simp)

lemma getdents_with_ok:
  assumes "START_FD \<le> fd" "ofm_get_dir (cl_files s) fd = Some p" "objs (cl_files s) p = Some dir"
    and "unat (of_pos dir) < dir_size dir" "\<forall>de\<in>set (of_entries dir). fits de" "dir_size dir < 2 ^ 32"
    and "unat count < 2 ^ 31"
  shows "getdents_result get_rec rec_size H p dir count s (getdents_with rec_size put_rec H fd count res s)"
proof -
  let ?pos = "unat (of_pos dir)"
  have ex: "ofm_exist (cl_files s) fd"
    using assms(2) by (auto simp: ofm_get_dir_def ofm_get_def ofm_exist_def split: option.splits)
  have "unat (0 :: u32) \<le> unat count" "?pos \<le> dir_size dir" using assms(4) by simp_all
  from loop_ok [OF assms(5-7) this, of "he_hash H" "cl_dirp s"] obtain k w' m' where l0:
    "getdents_loop rec_size put_rec (he_hash H) dir count ?pos 0 (cl_dirp s) = Inr (?pos + k, w', m') \<and>
     ?pos + k \<le> dir_size dir \<and> unat w' = unat (0 :: u32) + rec_bytes rec_size dir ?pos k \<and> unat w' \<le> unat count \<and>
     read_records get_rec m' (unat (0 :: u32)) k = records_of (he_hash H) dir ?pos k \<and>
     (\<forall>a. a < unat (0 :: u32) \<or> unat w' \<le> a \<longrightarrow> m' a = cl_dirp s a) \<and>
     (?pos + k = dir_size dir \<or> unat count < unat w' + unat (rec_size (of_entries dir ! (?pos + k))))"
    by (elim exE) (rule that)
  note l1 = l0 [unfolded unsigned_0 add_0 not_less_zero simp_thms]
  have l: "getdents_loop rec_size put_rec (he_hash H) dir count ?pos 0 (cl_dirp s) = Inr (?pos + k, w', m')"
    "?pos + k \<le> dir_size dir" "unat w' = rec_bytes rec_size dir ?pos k" "unat w' \<le> unat count"
    "read_records get_rec m' 0 k = records_of (he_hash H) dir ?pos k" "\<forall>a. unat w' \<le> a \<longrightarrow> m' a = cl_dirp s a"
    "?pos + k = dir_size dir \<or> unat count < unat w' + unat (rec_size (of_entries dir ! (?pos + k)))"
    by (insert l1) (elim conjE, assumption | blast)+
  have z: "w' = 0 \<longleftrightarrow> k = 0"
  proof (cases "k = 0")
    case True
    with l(3) show ?thesis by (simp add: rec_bytes_def unat_eq_0)
  next
    case False
    with rec_bytes_pos [OF assms(5) l(2)] l(3) show ?thesis by (auto simp: unat_eq_zero)
  qed
  have "getdents_with rec_size put_rec H fd count res s =
      (if k = 0 then Inr (1, - EINVAL, s)
       else Inr (0, int (unat w'), s\<lparr>cl_dirp := m', cl_files := obj_pos (cl_files s) p (of_nat (?pos + k))\<rparr>))"
  proof (cases "k = 0")
    case True
    then have "m' = cl_dirp s" using l(3,6) by (auto simp: rec_bytes_def fun_eq_iff)
    with True z l(1) assms(1-4) ex show ?thesis by (simp add: getdents_with_def)
  next
    case False
    with z l(1) assms(1-4) ex show ?thesis by (simp add: getdents_with_def)
  qed
  with l(2-) show ?thesis
    unfolding getdents_result_def Let_def l(3) by (intro exI [of _ k] exI [of _ m']) simp
qed

end

lemma get16_put16 [simp]: "get16 (put16 m off w) off = w"
  by (simp add: get16_def put16_def le_word_le_bytes take_bit_word_eq_self)

lemmas raw_access = put16_def put64_def get16_def get64_def

lemma align_bounds:
  "(n :: nat) < 32768 \<Longrightarrow> 24 \<le> (28 + n) div 8 * 8 \<and> (28 + n) div 8 * 8 < 65536 \<and> 21 + n \<le> (28 + n) div 8 * 8 \<and>
     24 \<le> (27 + n) div 8 * 8 \<and> (27 + n) div 8 * 8 < 65536 \<and> 20 + n \<le> (27 + n) div 8 * 8"
  by (intro conjI) presburger+

lemma rec_size_bounds:
  assumes "fits de"
  shows "24 \<le> unat (dirent_size de)" "unat (dirent_size de) < 2 ^ 16"
    "21 + length (de_name de) \<le> unat (dirent_size de)"
    "24 \<le> unat (dirent64_size de)" "unat (dirent64_size de) < 2 ^ 16"
    "20 + length (de_name de) \<le> unat (dirent64_size de)"
  unfolding rec_sizes [OF assms] using align_bounds [of "length (de_name de)"] assms by (simp_all add: fits_def)

lemma ucast_rec_size: "unat x < 2 ^ 16 \<Longrightarrow> unat (ucast (x :: u64) :: u16) = unat x"
  by (simp add: unsigned_ucast_eq take_bit_nat_eq_self)

lemma get_put_dirent64:
  assumes "fits de"
  shows "get_dirent64 (put_dirent64 m off ino pos de) off =
    (unat (dirent64_size de), ino, pos, d_type_of de, Some (de_name de))"
proof -
  let ?m = "put_dirent64 m off ino pos de"
  note b = rec_size_bounds [OF assms]
  have 16: "get16 ?m (off + 16) = ucast (dirent64_size de)"
    by (simp add: put_dirent64_def raw_access le_word_le_bytes take_bit_word_eq_self)
  have "get64 ?m off = ino" "get64 ?m (off + 8) = pos" by (simp_all add: put_dirent64_def put16_def)
  moreover have "?m (off + 18) = d_type_of de" by (simp add: put_dirent64_def put64_def mem_write_outside)
  moreover have "cstr_of (mem_read ?m (off + 19) (unat (dirent64_size de) - 19)) = Some (de_name de)"
    using assms b(6) by (intro cstr_of_mem) (simp_all add: put_dirent64_def put64_def fits_def)
  ultimately show ?thesis using ucast_rec_size [OF b(5)] by (simp add: get_dirent64_def 16 Let_def)
qed

lemma get_put_dirent:
  assumes "fits de"
  shows "get_dirent (put_dirent m off ino pos de) off =
    (unat (dirent_size de), ino, pos, d_type_of de, Some (de_name de))"
proof -
  let ?m = "put_dirent m off ino pos de" and ?n = "unat (dirent_size de)"
  note b = rec_size_bounds [OF assms]
  have 16: "get16 ?m (off + 16) = ucast (dirent_size de)"
    using b(1) by (simp add: put_dirent_def raw_access le_word_le_bytes take_bit_word_eq_self)
  have "get64 ?m off = ino" "get64 ?m (off + 8) = pos" using b(1) by (simp_all add: put_dirent_def put16_def)
  moreover have "?m (off + ?n - 1) = d_type_of de"
  proof -
    define q where "q = off + ?n - 1"
    have "off + 19 + length (de_name de) \<le> q" using b(3) by (simp add: q_def)
    then show ?thesis unfolding put_dirent_def q_def [symmetric] by (simp add: put64_def mem_write_outside)
  qed
  moreover have "cstr_of (mem_read ?m (off + 18) (?n - 19)) = Some (de_name de)"
    using assms b(3) by (intro cstr_of_mem) (simp_all add: put_dirent_def put64_def fits_def)
  ultimately show ?thesis using ucast_rec_size [OF b(2)] by (simp add: get_dirent_def 16 Let_def)
qed

interpretation dirent: dirent_format dirent_size put_dirent get_dirent
proof unfold_locales
  fix de assume "fits de"
  then show "24 \<le> unat (dirent_size de) \<and> unat (dirent_size de) < 2 ^ 16" using rec_size_bounds by blast
next
  fix de m off ino pos assume "fits de"
  then show "get_dirent (put_dirent m off ino pos de) off =
      (unat (dirent_size de), ino, pos, d_type_of de, Some (de_name de))" by (rule get_put_dirent)
next
  fix m m' :: mem and off n r
  assume "get_dirent m off = (n, r)" "24 \<le> n" "\<And>a. off \<le> a \<Longrightarrow> a < off + n \<Longrightarrow> m' a = m a"
  then show "get_dirent m' off = (n, r)"
    using mem_read_cong [of "off + 16" 2 m' m] mem_read_cong [of off 8 m' m] mem_read_cong [of "off + 8" 8 m' m]
      mem_read_cong [of "off + 18" "n - 19" m' m]
    by (auto simp: get_dirent_def get16_def get64_def Let_def)
next
  fix de m ino pos and a off :: nat
  assume "fits de" "a < off \<or> off + unat (dirent_size de) \<le> a"
  then show "put_dirent m off ino pos de a = m a"
    using rec_size_bounds [of de] by (auto simp: put_dirent_def put16_def put64_def mem_write_outside)
qed

interpretation dirent64: dirent_format dirent64_size put_dirent64 get_dirent64
proof unfold_locales
  fix de assume "fits de"
  then show "24 \<le> unat (dirent64_size de) \<and> unat (dirent64_size de) < 2 ^ 16" using rec_size_bounds by blast
next
  fix de m off ino pos assume "fits de"
  then show "get_dirent64 (put_dirent64 m off ino pos de) off =
      (unat (dirent64_size de), ino, pos, d_type_of de, Some (de_name de))" by (rule get_put_dirent64)
next
  fix m m' :: mem and off n r
  assume "get_dirent64 m off = (n, r)" "24 \<le> n" "\<And>a. off \<le> a \<Longrightarrow> a < off + n \<Longrightarrow> m' a = m a"
  then show "get_dirent64 m' off = (n, r)"
    using mem_read_cong [of "off + 16" 2 m' m] mem_read_cong [of off 8 m' m] mem_read_cong [of "off + 8" 8 m' m]
      mem_read_cong [of "off + 19" "n - 19" m' m]
    by (auto simp: get_dirent64_def get16_def get64_def Let_def)
next
  fix de m ino pos and a off :: nat
  assume "fits de" "a < off \<or> off + unat (dirent64_size de) \<le> a"
  then show "put_dirent64 m off ino pos de a = m a"
    using rec_size_bounds [of de] by (auto simp: put_dirent64_def put16_def put64_def mem_write_outside)
qed

text \<open>
  C10: Reading an open directory with \<open>getdents\<close> or \<open>getdents64\<close>: given room for a positive number of
  bytes, the buffer holds, one after the other, complete records of exactly the entries from the
  current position on, with their names, types, inode hashes and following positions, as many as fit;
  the result is the number of bytes written, never more than the buffer has, nothing behind them is
  touched, and the position moves past what was delivered. If not even one record fits the call
  reports \<open>EINVAL\<close> and changes nothing.
\<close>

theorem getdents_delivers:
  assumes "START_FD \<le> fd" and "ofm_get_dir (cl_files s) fd = Some p" and "objs (cl_files s) p = Some dir"
    and "unat (of_pos dir) < dir_size dir" and "\<forall>de\<in>set (of_entries dir). fits de" and "dir_size dir < 2 ^ 32"
    and "unat count < 2 ^ 31"
  shows "getdents_result get_dirent dirent_size H p dir count s (hook_getdents H fd count res s) \<and>
    getdents_result get_dirent64 dirent64_size H p dir count s (hook_getdents64 H fd count res s)"
  unfolding hook_getdents_def hook_getdents64_def
  using dirent.getdents_with_ok [OF assms] dirent64.getdents_with_ok [OF assms] by blast

definition demo_dir :: OpenFile where
  "demo_dir = (new_OpenDir [100] 0 [100] 5)\<lparr>of_entries :=
     [new_DirEntry [97] regular 6, new_DirEntry [98, 99] directory 7]\<rparr>"

definition demo_open_dir :: "unit client \<Rightarrow> unit client" where
  "demo_open_dir s = s\<lparr>cl_files := \<lparr>files = [(10000, 0)], objs = [0 \<mapsto> demo_dir], next_obj = 1, fd_idx = 10001,
     fd_validation_needed = False, ofm_errno = 0\<rparr>\<rparr>"

lemma demo_dir_simps:
  "of_entries demo_dir = [new_DirEntry [97] regular 6, new_DirEntry [98, 99] directory 7]"
  "of_pos demo_dir = 0" "of_type demo_dir = directory" "of_path demo_dir = [100]" "dir_size demo_dir = 2"
  by (simp_all add: demo_dir_def new_OpenDir_def new_OpenFile_def dir_size_def)

lemma demo_dir_fits: "\<forall>de\<in>set (of_entries demo_dir). fits de"
  by (simp add: demo_dir_simps new_DirEntry_def fits_def is_cstr_def)

lemma demo_rec_sizes:
  "unat (dirent64_size (new_DirEntry [97] regular 6)) = 24"
  "unat (dirent64_size (new_DirEntry [98, 99] directory 7)) = 24"
  using rec_sizes(2) demo_dir_fits by (simp_all add: demo_dir_simps) (simp_all add: new_DirEntry_def)

theorem getdents_delivers_witness:
  "\<exists>s'. hook_getdents64 demo_hook_env 10000 40 0 (demo_open_dir demo_process) = Inr (0, 24, s') \<and>
     read_records get_dirent64 (cl_dirp s') 0 1 = [(7, 1, DT_REG, Some [97])] \<and>
     of_pos (the (objs (cl_files s') 0)) = 1"
proof -
  let ?s = "demo_open_dir demo_process"
  have o: "ofm_get_dir (cl_files ?s) 10000 = Some 0" "objs (cl_files ?s) 0 = Some demo_dir"
    by (simp_all add: demo_open_dir_def ofm_get_dir_def ofm_get_def demo_dir_simps)
  from getdents_delivers [OF _ o, where count = 40 and H = demo_hook_env and res = 0] demo_dir_fits
  have "getdents_result get_dirent64 dirent64_size demo_hook_env 0 demo_dir 40 ?s
      (hook_getdents64 demo_hook_env 10000 40 0 ?s)"
    by (simp add: demo_dir_simps START_FD_def)
  then obtain k m' where k0: "unat (of_pos demo_dir) + k \<le> dir_size demo_dir"
    "rec_bytes dirent64_size demo_dir (unat (of_pos demo_dir)) k \<le> unat (40 :: u32)"
    "unat (of_pos demo_dir) + k = dir_size demo_dir \<or> unat (40 :: u32) <
       rec_bytes dirent64_size demo_dir (unat (of_pos demo_dir)) k +
       unat (dirent64_size (of_entries demo_dir ! (unat (of_pos demo_dir) + k)))"
    and r0: "read_records get_dirent64 m' 0 k =
       records_of (he_hash demo_hook_env) demo_dir (unat (of_pos demo_dir)) k"
    "hook_getdents64 demo_hook_env 10000 40 0 ?s =
       (if k = 0 then Inr (1, - EINVAL, ?s)
        else Inr (0, int (rec_bytes dirent64_size demo_dir (unat (of_pos demo_dir)) k),
          ?s\<lparr>cl_dirp := m', cl_files := obj_pos (cl_files ?s) 0 (of_nat (unat (of_pos demo_dir) + k))\<rparr>))"
    by (rule getdents_resultE)
  note k = k0 [unfolded demo_dir_simps unsigned_0 add_0] and r = r0 [unfolded demo_dir_simps unsigned_0 add_0]
  have b: "rec_bytes dirent64_size demo_dir 0 1 = 24" "rec_bytes dirent64_size demo_dir 0 2 = 48"
    "rec_bytes dirent64_size demo_dir 0 0 = 0"
    by (simp_all add: rec_bytes_def demo_dir_simps demo_rec_sizes upt_rec)
  consider "k = 0" | "k = 1" | "k = 2" using k(1) by linarith
  then have "k = 1"
  proof cases
    case 1
    with k(3) b show ?thesis by (simp add: demo_rec_sizes)
  next
    case 3
    with k(2) b show ?thesis by simp
  qed
  with r b show ?thesis
    by (simp add: records_of_def demo_dir_simps new_DirEntry_def d_type_of_def demo_hook_env_def
        obj_pos_def o set_pos_def)
qed

theorem hooks_keep_descriptors_witness:
  "\<exists>s'. hook demo_hook_env (SYS_close 10000) 5 (demo_open_dir demo_process) = Inr (0, 0, s') \<and>
     table_ok (cl_files (demo_open_dir demo_process)) \<and>
     table_step (cl_files (demo_open_dir demo_process)) (cl_files s') \<and> files (cl_files s') = []"
proof -
  let ?s = "demo_open_dir demo_process"
  have h: "hook demo_hook_env (SYS_close 10000) 5 ?s = Inr (0, 0, ?s\<lparr>cl_files := snd (ofm_remove (cl_files ?s) 10000)\<rparr>)"
    by (simp add: hook_close_def START_FD_def demo_open_dir_def ofm_exist_def)
  have "table_ok (cl_files ?s)"
    by (auto simp: table_ok_def ofm_inv_def demo_open_dir_def ofm_get_def START_FD_def INT_MAX_def split: if_splits)
  moreover have "length (files (cl_files ?s)) < FD_LIMIT" by (simp add: demo_open_dir_def FD_LIMIT_def fd_consts)
  ultimately show ?thesis
    using h hooks_keep_descriptors [OF h] by (simp add: demo_open_dir_def ofm_remove_def)
qed

end
