(* ===== verification/PathProps.thy ===== *)
theory PathProps
  imports ClientProps
begin

text \<open>
  The resolution of paths: the loop over the slashes computes the walk through the components of the
  path, with the directory-entry cache in front of the calls to the server. The interface between the
  resolution and the name lookup is the locale \<open>name_server\<close>; a client attached to a server thread
  provides it.
\<close>

section \<open>Splitting a path\<close>

function components :: "u8 list \<Rightarrow> u8 list list" where
  "components [] = []"
| "components (b # bs) =
     (if b = slash then components bs
      else (b # takeWhile (\<lambda>x. x \<noteq> slash) bs) # components (dropWhile (\<lambda>x. x \<noteq> slash) bs))"
  by pat_completeness auto

termination
  by (relation "measure length") (auto simp: le_imp_less_Suc length_dropWhile_le)

lemma components_word:
  assumes "slash \<notin> set w" "rest = [] \<or> hd rest = slash"
  shows "components (w @ rest) = (if w = [] then [] else [w]) @ components rest"
proof (cases w)
  case (Cons b bs)
  with assms(1) have b: "b \<noteq> slash" "\<And>x. x \<in> set bs \<Longrightarrow> x \<noteq> slash" by auto
  have "takeWhile (\<lambda>x. x \<noteq> slash) (bs @ rest) = bs" "dropWhile (\<lambda>x. x \<noteq> slash) (bs @ rest) = rest"
    using b(2) assms(2) by (auto simp: takeWhile_append2 dropWhile_append2) (cases rest; simp)+
  with b(1) Cons show ?thesis by simp
qed simp

lemma components_append: "components (xs @ slash # ys) = components xs @ components ys"
proof (induction xs rule: components.induct)
  case (2 b bs)
  show ?case
  proof (cases "b = slash")
    case False
    let ?w = "b # takeWhile (\<lambda>x. x \<noteq> slash) bs" and ?r = "dropWhile (\<lambda>x. x \<noteq> slash) bs"
    have w: "slash \<notin> set ?w" using False by (auto dest: set_takeWhileD)
    have "hd (?r @ slash # ys) = slash"
      using hd_dropWhile [of "\<lambda>x. x \<noteq> slash" bs] by (cases "?r = []") (simp_all add: hd_append)
    then have "components (?w @ ?r @ slash # ys) = ?w # components (?r @ slash # ys)"
      using components_word [OF w, of "?r @ slash # ys"] by (simp del: append_Cons components.simps)
    moreover have "(b # bs) @ slash # ys = ?w @ ?r @ slash # ys" by simp
    ultimately have "components ((b # bs) @ slash # ys) = ?w # components ?r @ components ys"
      using 2(2) [OF False] by (simp only:) 
    with False show ?thesis by simp
  qed (use 2 in simp)
qed simp

lemma components_no_slash: "slash \<notin> set w \<Longrightarrow> components w = (if w = [] then [] else [w])"
  using components_word [of w "[]"] by simp

lemma set_components: "w \<in> set (components xs) \<Longrightarrow> set w \<subseteq> set xs \<and> length w \<le> length xs \<and> slash \<notin> set w"
proof (induction xs rule: components.induct)
  case (2 b bs)
  show ?case
  proof (cases "b = slash")
    case False
    from 2(3) False consider "w = b # takeWhile (\<lambda>x. x \<noteq> slash) bs"
      | "w \<in> set (components (dropWhile (\<lambda>x. x \<noteq> slash) bs))" by auto
    then show ?thesis
    proof cases
      case 1
      with False show ?thesis by (auto simp: length_takeWhile_le dest: set_takeWhileD)
    next
      case 2
      with "2.IH"(2) [OF False] show ?thesis
        using length_dropWhile_le [of "\<lambda>x. x \<noteq> slash" bs] by (fastforce dest: set_dropWhileD)
    qed
  qed (use 2 in fastforce)
qed simp

lemma dropWhile_ConsE:
  assumes "dropWhile P xs = x # ys"
  obtains ts where "xs = ts @ x # ys" "\<not> P x" "\<And>t. t \<in> set ts \<Longrightarrow> P t"
proof
  show "xs = takeWhile P xs @ x # ys" unfolding assms [symmetric] by simp
  show "\<not> P x" using hd_dropWhile [of P xs] unfolding assms by simp
qed (auto dest: set_takeWhileD)

lemma find_slash_Some:
  assumes "find_slash path pos = Some i"
  shows "pos \<le> i \<and> i < length path \<and> path ! i = slash \<and> (\<forall>j. pos \<le> j \<and> j < i \<longrightarrow> path ! j \<noteq> slash)"
proof -
  from assms obtain js where "dropWhile (\<lambda>i. path ! i \<noteq> slash) [pos..<length path] = i # js"
    by (auto simp: find_slash_def split: list.splits)
  then obtain ts where ts: "[pos..<length path] = ts @ i # js" "path ! i = slash"
    "\<And>t. t \<in> set ts \<Longrightarrow> path ! t \<noteq> slash" by (rule dropWhile_ConsE) auto
  have "sorted (ts @ i # js)" unfolding ts(1) [symmetric] by simp
  then have js: "\<And>j. j \<in> set js \<Longrightarrow> i \<le> j" by (simp add: sorted_append)
  have set: "set [pos..<length path] = set ts \<union> insert i (set js)" unfolding ts(1) by simp
  have i: "pos \<le> i" "i < length path" using set by auto
  have "path ! j \<noteq> slash" if "pos \<le> j" "j < i" for j
  proof -
    have "j \<in> set [pos..<length path]" using that i by simp
    with that js have "j \<in> set ts" unfolding set by force
    then show ?thesis by (rule ts(3))
  qed
  with i ts(2) show ?thesis by blast
qed

lemma find_slash_exists:
  assumes "pos \<le> e" "e < length path" "path ! e = slash"
  obtains i where "find_slash path pos = Some i" "i \<le> e"
proof -
  from assms have "\<exists>x\<in>set [pos..<length path]. \<not> path ! x \<noteq> slash" by (intro bexI [of _ e]) auto
  then have "dropWhile (\<lambda>i. path ! i \<noteq> slash) [pos..<length path] \<noteq> []"
    by (simp add: dropWhile_eq_Nil_conv)
  then obtain i js where "dropWhile (\<lambda>i. path ! i \<noteq> slash) [pos..<length path] = i # js"
    by (auto simp only: neq_Nil_conv)
  then have i: "find_slash path pos = Some i" by (simp add: find_slash_def)
  have "i \<le> e" using find_slash_Some [OF i] assms by (meson leI)
  with i that show thesis by blast
qed

lemma rfind_slash_split:
  assumes "path \<noteq> []" "hd path = slash"
  obtains e where "rfind_slash path = Some e" "e < length path" "path ! e = slash"
    "slash \<notin> set (drop (e + 1) path)"
proof -
  have "\<exists>x\<in>set (rev [0..<length path]). \<not> path ! x \<noteq> slash"
    using assms by (intro bexI [of _ 0]) (auto simp: hd_conv_nth)
  then have "dropWhile (\<lambda>i. path ! i \<noteq> slash) (rev [0..<length path]) \<noteq> []"
    by (simp add: dropWhile_eq_Nil_conv)
  then obtain e es where e: "dropWhile (\<lambda>i. path ! i \<noteq> slash) (rev [0..<length path]) = e # es"
    by (auto simp only: neq_Nil_conv)
  then obtain ts where ts: "rev [0..<length path] = ts @ e # es" "path ! e = slash"
    "\<And>t. t \<in> set ts \<Longrightarrow> path ! t \<noteq> slash" by (rule dropWhile_ConsE) auto
  have "sorted (rev (ts @ e # es))" unfolding ts(1) [symmetric] by simp
  then have es: "\<And>j. j \<in> set es \<Longrightarrow> j \<le> e" by (simp add: sorted_append)
  have set: "set (rev [0..<length path]) = set ts \<union> insert e (set es)" unfolding ts(1) by simp
  have 1: "e < length path" using set by auto
  have "path ! j \<noteq> slash" if "e < j" "j < length path" for j
  proof -
    have "j \<in> set (rev [0..<length path])" using that by simp
    with that es have "j \<in> set ts" unfolding set by force
    then show ?thesis by (rule ts(3))
  qed
  then have "slash \<notin> set (drop (e + 1) path)" by (auto simp: in_set_conv_nth)
  with e 1 ts(2) that show thesis by (auto simp: rfind_slash_def)
qed

section \<open>Resolving a path\<close>

fun walk :: "(u64 \<times> u8 list \<rightharpoonup> u64) \<Rightarrow> u64 \<Rightarrow> u8 list list \<Rightarrow> u64 option" where
  "walk ns d [] = Some d"
| "walk ns d (f # fs) = (case ns (d, f) of None \<Rightarrow> None | Some i \<Rightarrow> walk ns i fs)"

text \<open>
  The specification of a resolution with the components \<open>fs\<close>: the root is its own parent; otherwise
  the parent is what is reached from inode 0 through all components but the last.
\<close>

definition resolved ::
  "(u64 \<times> u8 list \<rightharpoonup> u64) \<Rightarrow> u8 list list \<Rightarrow> path_status \<Rightarrow> u64 \<times> u8 list \<times> nat \<Rightarrow> bool" where
  "resolved ns fs st out \<longleftrightarrow>
     (if fs = [] then st = PathOk \<and> out = (fs_root_inode, [], 0)
      else case walk ns 0 (butlast fs) of
        None \<Rightarrow> st = Corruption
      | Some d \<Rightarrow> st = PathOk \<and> out = (d, last fs, length fs - 1))"

text \<open>
  What the resolution relies on: in the states \<open>I\<close> the call that looks up a name answers from a fixed
  map \<open>ns\<close>, for the names \<open>nms\<close>, and leaves the cache alone; nothing else of \<open>I\<close> depends on the cache.
\<close>

locale name_server =
  fixes E :: "'w client_env" and I :: "'w client_context \<Rightarrow> bool"
    and ns :: "u64 \<times> u8 list \<rightharpoonup> u64" and nms :: "u8 list set"
  assumes getinode_ok: "I c \<Longrightarrow> f \<in> nms \<Longrightarrow> ns (p, f) = Some i \<Longrightarrow>
      \<exists>c'. RPC_Getinode E p f 0 c = Inr (RespType_code kSuccess, i, c') \<and> I c' \<and>
        cc_dentry_cache c' = cc_dentry_cache c"
    and getinode_missing: "I c \<Longrightarrow> f \<in> nms \<Longrightarrow> ns (p, f) = None \<Longrightarrow>
      \<exists>c'. RPC_Getinode E p f 0 c = Inr (RespType_code kENOENT, 0, c') \<and> I c' \<and>
        cc_dentry_cache c' = cc_dentry_cache c"
    and cache_free: "I c \<Longrightarrow> I (c\<lparr>cc_dentry_cache := d\<rparr>)"
begin

definition ready :: "'w client_context \<Rightarrow> bool" where
  "ready c \<longleftrightarrow> I c \<and> dentry.agrees ns (cc_dentry_cache c)"

lemma getinode_retry:
  assumes "I c" "f \<in> nms"
  shows "\<exists>c'. call_with_retry E (RPC_Getinode E p f) id 0 c =
      Inr (case ns (p, f) of None \<Rightarrow> RespType_code kENOENT | Some _ \<Rightarrow> RespType_code kSuccess,
           case ns (p, f) of None \<Rightarrow> 0 | Some i \<Rightarrow> i, c') \<and> I c' \<and> cc_dentry_cache c' = cc_dentry_cache c"
proof (cases "ns (p, f)")
  case None
  from getinode_missing [OF assms None] obtain c' where
    "RPC_Getinode E p f 0 c = Inr (RespType_code kENOENT, 0, c')" "I c'"
    "cc_dentry_cache c' = cc_dentry_cache c" by blast
  then show ?thesis
    by (intro exI [of _ c']) (simp add: None call_with_retry_def handle_rpc_resp_def)
next
  case (Some i)
  from getinode_ok [OF assms Some] obtain c' where
    "RPC_Getinode E p f 0 c = Inr (RespType_code kSuccess, i, c')" "I c'"
    "cc_dentry_cache c' = cc_dentry_cache c" by blast
  then show ?thesis
    by (intro exI [of _ c']) (simp add: Some call_with_retry_def handle_rpc_resp_def)
qed

lemma lookup_component_ok:
  assumes "ready c" "f \<in> nms"
  shows "\<exists>c'. lookup_component E p f c =
    Inr (case ns (p, f) of None \<Rightarrow> (Corruption, p, c') | Some i \<Rightarrow> (PathOk, i, c')) \<and> ready c'"
proof -
  from assms(1) have I: "I c" and agr: "dentry.agrees ns (cc_dentry_cache c)" by (simp_all add: ready_def)
  from dentry.try_get_agrees [OF agr, of "(p, f)"] obtain st d where
    get: "dentry_Get (cc_dentry_cache c) p f = Inr (st, dentry_look (cc_dentry_cache c) (p, f), d)"
    and d: "dentry.agrees ns d"
    and hit: "\<And>v. dentry_look (cc_dentry_cache c) (p, f) = Some v \<Longrightarrow> ns (p, f) = Some v"
    by (cases "dentry_Get (cc_dentry_cache c) p f") auto
  let ?c = "c\<lparr>cc_dentry_cache := d\<rparr>"
  have I': "I ?c" using I by (rule cache_free)
  show ?thesis
  proof (cases "dentry_look (cc_dentry_cache c) (p, f)")
    case (Some i)
    with I' d hit show ?thesis by (auto simp: lookup_component_def get ready_def)
  next
    case None
    from getinode_retry [OF I' assms(2), of p] obtain c' where
      c': "call_with_retry E (RPC_Getinode E p f) id 0 ?c =
        Inr (case ns (p, f) of None \<Rightarrow> RespType_code kENOENT | Some _ \<Rightarrow> RespType_code kSuccess,
             case ns (p, f) of None \<Rightarrow> 0 | Some i \<Rightarrow> i, c')"
      "I c'" "cc_dentry_cache c' = d" by auto
    show ?thesis
    proof (cases "ns (p, f)")
      case None': None
      with None c' d show ?thesis by (auto simp: lookup_component_def get ready_def)
    next
      case (Some i)
      from dentry.ins_agrees [OF d Some] obtain st' d' where
        "dentry_Put d p f i = Inr (st', d')" "dentry.agrees ns d'"
        by (cases "dentry_Put d p f i") auto
      with None Some c' show ?thesis by (auto simp: lookup_component_def get ready_def cache_free)
    qed
  qed
qed

lemma resolve_loop_ok:
  assumes "e < length path" "path ! e = slash" "path ! l = slash" "l \<le> e"
    and "set (components (drop l (take e path))) \<subseteq> nms" "ready c"
  shows "\<exists>st i n c'. resolve_loop E path e l d k c = Inr (st, i, n, c') \<and> ready c' \<and>
    (walk ns d (components (drop l (take e path))) = None \<longrightarrow> st = Corruption) \<and>
    (\<forall>i'. walk ns d (components (drop l (take e path))) = Some i' \<longrightarrow>
       st = PathOk \<and> i = i' \<and> n = k + length (components (drop l (take e path))))"
  using assms(3-)
proof (induction "e - l" arbitrary: l d k c rule: less_induct)
  case less
  show ?case
  proof (cases "l < e")
    case False
    with less.prems show ?thesis by (subst resolve_loop.simps) simp
  next
    case True
    obtain now where now: "find_slash path (l + 1) = Some now" "now \<le> e"
      using True assms(1,2) by (rule_tac find_slash_exists [of "l + 1" e path]) auto
    note f = find_slash_Some [OF now(1)]
    define w where "w = take (now - l - 1) (drop (l + 1) path)"
    define rest where "rest = drop now (take e path)"
    have w_nth: "w ! j = path ! (l + 1 + j)" if "j < now - l - 1" for j
      using that f by (simp add: w_def)
    have "slash \<notin> set w"
    proof
      assume "slash \<in> set w"
      then obtain j where j: "j < length w" "w ! j = slash" by (auto simp: in_set_conv_nth)
      have "j < now - l - 1" using j(1) by (simp add: w_def)
      then have "path ! (l + 1 + j) = slash" "l + 1 \<le> l + 1 + j" "l + 1 + j < now"
        using w_nth [of j] j(2) by simp_all
      with f show False by blast
    qed
    moreover have "rest = [] \<or> hd rest = slash"
      using f now(2) by (cases "now < e") (auto simp: rest_def hd_drop_conv_nth)
    ultimately have cw: "components (w @ rest) = (if w = [] then [] else [w]) @ components rest"
      by (rule components_word)
    have "drop l (take e path) = slash # drop (l + 1) (take e path)"
      using True assms(1) less.prems(1) by (simp add: Cons_nth_drop_Suc [symmetric])
    also have "drop (l + 1) (take e path) = w @ rest"
    proof -
      have "w = take (now - (l + 1)) (drop (l + 1) (take e path))" using f now(2) by (simp add: w_def drop_take min_absorb1)
      moreover have "rest = drop (now - (l + 1)) (drop (l + 1) (take e path))" using f by (simp add: rest_def)
      ultimately show ?thesis by (simp only: append_take_drop_id)
    qed
    finally have seg: "components (drop l (take e path)) = (if w = [] then [] else [w]) @ components rest"
      using cw by simp
    have dec: "e - now < e - l" using f now(2) True by auto
    have sub: "set (components rest) \<subseteq> nms" using less.prems(3) by (auto simp: seg)
    note ih = less.hyps [OF dec _ now(2) sub [unfolded rest_def], folded rest_def]
    have nl: "\<not> now \<le> l" using f by auto
    show ?thesis
    proof (cases "w = []")
      case True
      have "now - l \<le> 1" using True f assms(1) now(2) by (auto simp: w_def)
      with ih [of c d k] f less.prems(4) True now(1) nl \<open>l < e\<close> show ?thesis
        unfolding seg by (subst resolve_loop.simps) simp
    next
      case False
      then have "now - l > 1" by (cases "now - l - 1") (auto simp: w_def)
      have "w \<in> nms" using less.prems(3) False by (auto simp: seg)
      from lookup_component_ok [OF less.prems(4) this, of d] obtain c' where
        c': "lookup_component E d w c =
          Inr (case ns (d, w) of None \<Rightarrow> (Corruption, d, c') | Some i \<Rightarrow> (PathOk, i, c'))" "ready c'" by blast
      have "take (now - Suc l) (drop (Suc l) path) = w" by (simp add: w_def)
      note step = resolve_loop.simps [of E path e l d k c] this
      show ?thesis
      proof (cases "ns (d, w)")
        case None
        then show ?thesis
          using c' nl \<open>l < e\<close> now(1) \<open>now - l > 1\<close> False unfolding seg by (simp add: step)
      next
        case (Some i)
        from ih [of c' i "k + 1"] f c'(2) show ?thesis
          using c' nl \<open>l < e\<close> now(1) \<open>now - l > 1\<close> False Some unfolding seg by (simp add: step)
      qed
    qed
  qed
qed

lemma ResolvePath_ok:
  assumes "path \<noteq> []" "hd path = slash" "set (components path) \<subseteq> nms" "ready c"
  shows "\<exists>st out c'. ResolvePath E path c = Inr (st, out, c') \<and> ready c' \<and>
    resolved ns (components path) st out"
  using assms
proof (induction "length path" arbitrary: path rule: less_induct)
  case less
  show ?case
  proof (cases "length path = 1")
    case True
    then obtain b where "path = [b]" by (auto simp: length_Suc_conv)
    with less.prems show ?thesis by (subst ResolvePath.simps) (simp add: resolved_def)
  next
    case long: False
    show ?thesis
    proof (cases "last path = slash")
      case True
      then have p: "path = butlast path @ [slash]" using less.prems(1) by (metis append_butlast_last_id)
      have "components path = components (butlast path)"
        by (subst p, subst components_append) simp
      moreover have "butlast path \<noteq> []" "hd (butlast path) = slash"
        using long less.prems(1,2) by (cases path; auto)+
      moreover have "length (butlast path) < length path" using less.prems(1) by simp
      ultimately show ?thesis
        using less.hyps [of "butlast path"] less.prems long True by (subst ResolvePath.simps) simp
    next
      case False
      obtain e where e: "rfind_slash path = Some e" "e < length path" "path ! e = slash"
        "slash \<notin> set (drop (e + 1) path)"
        using rfind_slash_split [OF less.prems(1,2)] by blast
      have ne: "drop (e + 1) path \<noteq> []"
        using e(2,3) False less.prems(1) by (auto simp: last_conv_nth not_less Suc_le_eq dest: le_antisym)
      have "path = take e path @ slash # drop (e + 1) path"
        using e(2,3) by (metis Suc_eq_plus1 id_take_nth_drop)
      then have comps: "components path = components (take e path) @ [drop (e + 1) path]"
        using components_append [of "take e path" "drop (e + 1) path"] components_no_slash [OF e(4)] ne by simp
      have "path ! 0 = slash" using less.prems(1,2) by (simp add: hd_conv_nth)
      from resolve_loop_ok [OF e(2,3) this, of c 0 0] less.prems(3,4) obtain st i n c' where
        "resolve_loop E path e 0 0 0 c = Inr (st, i, n, c')" "ready c'"
        "walk ns 0 (components (take e path)) = None \<longrightarrow> st = Corruption"
        "\<forall>i'. walk ns 0 (components (take e path)) = Some i' \<longrightarrow>
           st = PathOk \<and> i = i' \<and> n = length (components (take e path))"
        by (auto simp: comps)
      then show ?thesis
        using less.prems(1,2) long False e(1)
        by (subst ResolvePath.simps) (simp add: Internal_ResolvePath_def comps resolved_def split: option.split)
    qed
  qed
qed

end

section \<open>Resolution on a server\<close>

text \<open>The client is connected to a server thread that serves the region its request buffer names.\<close>

definition attached ::
  "('db, 'l) env \<Rightarrow> 'db names_view \<Rightarrow> 'db attrs_view \<Rightarrow> 'db \<Rightarrow>
   (('db, 'l) server_state \<times> mem) client_context \<Rightarrow> bool" where
  "attached e names attrs db c \<longleftrightarrow>
     name_laws (e_kv e) names attrs \<and> metadb (fst (fst (cc_net c))) = db \<and>
     serves (fst (cc_net c)) (req_region (cc_req c)) (get64 (cc_req c) 16) \<and>
     (\<forall>p. \<exists>k. client_route (one_server_env e) c p = Inr k)"

definition short_names :: "u8 list set" where
  "short_names = {f. is_cstr f \<and> length f < METAFS_MAX_FNAME_LEN}"

lemma client_route_cong:
  "cc_region_map c' = cc_region_map c \<Longrightarrow> total_servers c' = total_servers c \<Longrightarrow>
   client_route E c' p = client_route E c p"
  by (simp add: client_route_def Let_def)

lemma getinode_on_server:
  assumes "attached e names attrs db c" "f \<in> short_names"
  shows "\<exists>c'. RPC_Getinode (one_server_env e) p f 0 c =
      Inr (case names db (p, cstring f) of
             None \<Rightarrow> (RespType_code kENOENT, 0, c')
           | Some i \<Rightarrow> (RespType_code kSuccess, i, c')) \<and>
    attached e names attrs db c' \<and> cc_dentry_cache c' = cc_dentry_cache c"
proof -
  obtain s pre where net: "cc_net c = (s, pre)" by (cases "cc_net c")
  from assms(1) have laws: "name_laws (e_kv e) names attrs" and db: "metadb (fst s) = db"
    and srv: "serves s (req_region (cc_req c)) (get64 (cc_req c) 16)"
    and route: "\<And>p. \<exists>k. client_route (one_server_env e) c p = Inr k"
    by (auto simp: attached_def net)
  from assms(2) have f: "is_cstr f" "length f < METAFS_MAX_FNAME_LEN" by (simp_all add: short_names_def)
  let ?req = "put_fname_req p f (cc_req c)"
  have q: "rq_region_id (FSGetinodeReq ?req) = req_region (cc_req c)"
    "rq_pinode_hash (FSGetinodeReq ?req) = get64 (cc_req c) 16"
    "rq_pinode (FSGetinodeReq ?req) = p" "cstr_of (rq_fname (FSGetinodeReq ?req)) = Some f"
    using f by (simp_all add: layout_simps put_req_slots put_fname_req_def req_region_def cstr_of_fname_field)
  define out where "out = (let r = get_fs_resp pre in case names db (p, cstring f) of
      None \<Rightarrow> r\<lparr>rs_type := kENOENT\<rparr> | Some i \<Rightarrow> r\<lparr>rs_inode := i, rs_type := kSuccess\<rparr>)"
  have "fs_getinode_handler (e_kv e) (e_uninit e) (FSGetinodeReq ?req) (get_fs_resp pre) s = Inr (s, [out])"
    using getinode_run [OF _ q(4) laws, of s] srv by (simp add: q db out_def Let_def split: option.split)
  then have call: "one_server e (s, pre) k kFSGetinodeReq ?req old =
      Some ((s, put_fs_resp pre out), put_fs_resp pre out)" for k old
    by (simp add: one_server_def fs_dispatch_def send_all_def Let_def)
  let ?c' = "c\<lparr>cc_req := ?req, cc_resp := put_fs_resp pre out, cc_net := (s, put_fs_resp pre out)\<rparr>"
  obtain k where "client_route (one_server_env e) c p = Inr k" using route by blast
  then have "RPC_Getinode (one_server_env e) p f 0 c = Inr (RespType_code (rs_type out),
      if rs_type out = kSuccess then rs_inode out else 0, ?c')"
    using f(2) call [of k "cc_resp c"]
    by (simp add: RPC_Getinode_def rpc_call_def rpc_exchange_def one_server_env_def net sizeof_wire_req_def
        MSG_ENTEY_MAX_SIZE_def METAFS_MAX_FNAME_LEN_def Let_def RespType_code_inject [of _ kSuccess, simplified])
  moreover have "attached e names attrs db ?c'"
    using laws db srv route client_route_cong [of ?c' c "one_server_env e"] by (simp add: attached_def put_req_slots)
  ultimately show ?thesis
    by (intro exI [of _ ?c']) (simp add: out_def Let_def split: option.split)
qed

interpretation served: name_server "one_server_env e" "attached e names attrs db"
  "\<lambda>(p, f). names db (p, cstring f)" short_names
proof unfold_locales
  fix c f p i
  assume a: "attached e names attrs db c" "f \<in> short_names" and "(\<lambda>(p, f). names db (p, cstring f)) (p, f) = Some i"
  then show "\<exists>c'. RPC_Getinode (one_server_env e) p f 0 c = Inr (RespType_code kSuccess, i, c') \<and>
      attached e names attrs db c' \<and> cc_dentry_cache c' = cc_dentry_cache c"
    using getinode_on_server [OF a, of p] by auto
next
  fix c f p
  assume a: "attached e names attrs db c" "f \<in> short_names" and "(\<lambda>(p, f). names db (p, cstring f)) (p, f) = None"
  then show "\<exists>c'. RPC_Getinode (one_server_env e) p f 0 c = Inr (RespType_code kENOENT, 0, c') \<and>
      attached e names attrs db c' \<and> cc_dentry_cache c' = cc_dentry_cache c"
    using getinode_on_server [OF a, of p] by auto
next
  fix c d
  assume "attached e names attrs db c"
  then show "attached e names attrs db (c\<lparr>cc_dentry_cache := d\<rparr>)"
    using client_route_cong [of "c\<lparr>cc_dentry_cache := d\<rparr>" c "one_server_env e"] by (simp add: attached_def)
qed

text \<open>
  C7: Resolving a path through the server's names. With the client attached to a server thread and a
  cache that agrees with the names stored there, every absolute path with components of up to 127
  bytes is resolved without a crash: repeated and trailing slashes do not matter; the root is its own
  parent; otherwise the result is the inode reached from inode 0 through all components but the last,
  together with the last component and the depth, or \<open>Corruption\<close> if one of them does not exist. The
  cache still agrees with the server afterwards.
\<close>

theorem resolve_path_walks_names:
  assumes "attached e names attrs db c"
    and "dentry.agrees (\<lambda>(p, f). names db (p, cstring f)) (cc_dentry_cache c)"
    and "path \<noteq> []" and "hd path = slash" and "set (components path) \<subseteq> short_names"
  shows "\<exists>st out c'. ResolvePath (one_server_env e) path c = Inr (st, out, c') \<and>
    attached e names attrs db c' \<and>
    dentry.agrees (\<lambda>(p, f). names db (p, cstring f)) (cc_dentry_cache c') \<and>
    resolved (\<lambda>(p, f). names db (p, cstring f)) (components path) st out"
  using served.ResolvePath_ok [OF assms(3-5), of e names attrs db c] assms(1,2)
  unfolding served.ready_def conj_assoc by simp

definition demo_tree :: ref_db where
  "demo_tree = \<lparr>ref_names = [((0, cstring [100]), 5)], ref_attrs = []\<rparr>"

definition demo_attached :: "((ref_db, ref_log) server_state \<times> mem) client_context" where
  "demo_attached = demo_client\<lparr>cc_id := 0,
     cc_region_map := [(mk_ClientRegion 0 (mk_RegionKey 0 0) (mk_RegionKey 0 1023), 0)],
     cc_net := (with_db demo_tree, \<lambda>_. 0)\<rparr>"

lemma word_mod_1024: "(h :: u64) mod 1024 \<le> 1023"
  by (simp add: word_le_nat_alt unat_mod)

lemma demo_attached_ok: "attached demo_env ref_names_view ref_attrs_view demo_tree demo_attached"
  using word_mod_1024
  by (simp add: attached_def ref_kv_name_laws demo_env_def with_db_def demo_state_eq demo_attached_def
      demo_client_def serves_def new_ServerRegion_def mk_RegionKey_def mk_ClientRegion_def
      check_is_blong_to_region_def req_region_def client_route_def one_server_env_def PINODE_HASH_RANGE_def
      session_index_def Let_def)

theorem resolve_path_walks_names_witness:
  "\<exists>st c'. ResolvePath (one_server_env demo_env) [slash, 100, slash, slash, 120, slash] demo_attached =
     Inr (st, (5, [120], 1), c') \<and> st = PathOk"
proof -
  have comps: "components [slash, 100, slash, slash, 120, slash] = [[100], [120]]"
    by (simp add: slash_def)
  have "dentry.agrees (\<lambda>(p, f). ref_names_view demo_tree (p, cstring f)) (cc_dentry_cache demo_attached)"
    by (simp add: dentry.agrees_def demo_attached_def demo_client_def dentry_inv_def DentryCache_def
        dentry_look_def entries_def new_cache_inv) (simp add: new_cache_def)
  from resolve_path_walks_names [OF demo_attached_ok this, of "[slash, 100, slash, slash, 120, slash]",
      unfolded comps]
  obtain st out c' where
    r: "ResolvePath (one_server_env demo_env) [slash, 100, slash, slash, 120, slash] demo_attached =
       Inr (st, out, c')"
    "resolved (\<lambda>(p, f). ref_names_view demo_tree (p, cstring f)) [[100], [120]] st out"
    by (auto simp: short_names_def is_cstr_def METAFS_MAX_FNAME_LEN_def)
  from r(2) have "st = PathOk \<and> out = (5, [120], 1)" by (simp add: resolved_def demo_tree_def)
  with r(1) show ?thesis by simp
qed

end
