(* ===== verification/SystemCalls.thy ===== *)
theory SystemCalls
  imports HookProps PathProps
begin

text \<open>
  System calls from the hook to the server's store and back: the client process of \<open>Hooks\<close> over the path
  resolution of \<open>MetaClient\<close>, the requests of \<open>RpcClient\<close>, the transport to one server thread and the handlers of
  \<open>Handlers\<close>. Creating a directory and asking for its attributes; what is left in the request buffer by a name;
  what is left in the cache by a removal.
\<close>

section \<open>Calls on an attached server\<close>

abbreviation truth :: "'db names_view \<Rightarrow> 'db \<Rightarrow> u64 \<times> u8 list \<Rightarrow> u64 option" where
  "truth names db \<equiv> (\<lambda>(p, f). names db (p, cstring f))"

text \<open>One exchange with the server thread, whatever the request: a single response is what the client gets.\<close>

lemma exchange_on_server:
  assumes "attached e names attrs db c" "n \<le> sizeof_wire_req"
    and "fs_dispatch e t (fill (cc_req c)) (snd (cc_net c)) (fst (cc_net c)) = Inr (s', [m])"
  shows "rpc_call (one_server_env e) t p n fill c = Inr (c\<lparr>cc_req := fill (cc_req c), cc_resp := m, cc_net := (s', m)\<rparr>)"
proof -
  obtain k where "client_route (one_server_env e) c p = Inr k" using assms(1) by (auto simp: attached_def)
  then show ?thesis
    using assms(2,3) by (simp add: rpc_call_def rpc_exchange_def one_server_env_def one_server_def)
qed

lemma exchange_returns:
  assumes "attached e names attrs db c"
    and "rpc_call (one_server_env e) t p n fill c = Inr c'"
  shows "\<exists>s' m. fs_dispatch e t (fill (cc_req c)) (snd (cc_net c)) (fst (cc_net c)) = Inr (s', [m]) \<and>
    c' = c\<lparr>cc_req := fill (cc_req c), cc_resp := m, cc_net := (s', m)\<rparr>"
proof -
  obtain k where "client_route (one_server_env e) c p = Inr k" using assms(1) by (auto simp: attached_def)
  then show ?thesis
    using assms(2) by (auto simp: rpc_call_def rpc_exchange_def one_server_env_def one_server_def
        split: if_splits sum.splits list.splits)
qed

lemma attached_after:
  assumes "attached e names attrs db c" "same_service (fst (cc_net c)) s'" "metadb (fst s') = db'"
    and "req_region req = req_region (cc_req c)" "get64 req 16 = get64 (cc_req c) 16"
  shows "attached e names attrs db' (c\<lparr>cc_req := req, cc_resp := m, cc_net := (s', m)\<rparr>)"
  using assms client_route_cong [of "c\<lparr>cc_req := req, cc_resp := m, cc_net := (s', m)\<rparr>" c "one_server_env e"]
  by (simp add: attached_def same_service_def)

lemma mkdir_on_server:
  assumes att: "attached e names attrs db c" and laws: "attr_laws (e_kv e) names attrs" and f: "f \<in> short_names"
    and run: "RPC_Mkdir (one_server_env e) p f mode out c = Inr (res, out', c')"
  shows "\<exists>db' i t. res = RespType_code t \<and> is_directory i \<and>
    create_spec (names db, attrs db) (p, cstring f) i (stat_of_mode (u_tv (e_uninit e)) mode) t (names db', attrs db') \<and>
    attached e names attrs db' c' \<and> cc_dentry_cache c' = cc_dentry_cache c \<and> res = resp_type (cc_resp c')"
proof -
  let ?req = "put_mode_req p mode f (cc_req c)"
  obtain s pre where net: "cc_net c = (s, pre)" by (cases "cc_net c")
  from run obtain c1 where c1: "rpc_call (one_server_env e) kFSMkdirReq p (28 + length f + 1) (put_mode_req p mode f) c = Inr c1"
    "res = resp_type (cc_resp c1)" "c' = c1"
    by (cases "rpc_call (one_server_env e) kFSMkdirReq p (28 + length f + 1) (put_mode_req p mode f) c")
      (auto simp: RPC_Mkdir_def Let_def)
  from exchange_returns [OF att c1(1)] net obtain s' m where
    d: "fs_dispatch e kFSMkdirReq ?req pre s = Inr (s', [m])"
    "c' = c\<lparr>cc_req := ?req, cc_resp := m, cc_net := (s', m)\<rparr>" using c1(3) by auto
  have q: "rq_region_id (FSMkdirReq ?req) = req_region (cc_req c)"
    "rq_pinode_hash (FSMkdirReq ?req) = get64 (cc_req c) 16" "rq_mode (FSMkdirReq ?req) = mode"
    "rq_pinode (FSMkdirReq ?req) = p" "cstr_of (rq_fname (FSMkdirReq ?req)) = Some f"
    using f by (simp_all add: layout_simps put_req_slots put_mode_req_def req_region_def cstr_of_fname_field short_names_def)
  from d(1) obtain r where
    h: "fs_mkdir_handler (e_kv e) (e_log e) (e_xxh e) (e_uninit e) (FSMkdirReq ?req) (get_fs_resp pre) s = Inr (s', [r])"
    "m = put_fs_resp pre r"
    by (cases "fs_mkdir_handler (e_kv e) (e_log e) (e_xxh e) (e_uninit e) (FSMkdirReq ?req) (get_fs_resp pre) s")
      (auto simp: fs_dispatch_def send_all_def Let_def)
  have "name_laws (e_kv e) names attrs" "serves s (rq_region_id (FSMkdirReq ?req)) (rq_pinode_hash (FSMkdirReq ?req))"
    "metadb (fst s) = db" using att by (auto simp: attached_def net q)
  from mkdir_create_spec [OF this(1) laws this(2) q(5) h(1)] this(3)
  have "create_spec (names db, attrs db) (p, cstring f) (alloc_inode (fst s) OR inode_prefix_msb)
      (stat_of_mode (u_tv (e_uninit e)) mode) (rs_type r) (names (metadb (fst s')), attrs (metadb (fst s')))"
    and "same_service s s'" by (auto simp: q ns_of_def)
  moreover have "attached e names attrs (metadb (fst s')) c'"
    unfolding d(2) using \<open>same_service s s'\<close> by (intro attached_after [OF att]) (simp_all add: net put_req_slots)
  moreover have "resp_type (cc_resp c') = RespType_code (rs_type r)" "cc_dentry_cache c' = cc_dentry_cache c"
    unfolding d(2) h(2) by simp_all
  ultimately show ?thesis using c1(2,3) is_directory_msb by blast
qed

lemma getstat_on_server:
  assumes att: "attached e names attrs db c" and laws: "attr_laws (e_kv e) names attrs" and f: "f \<in> short_names"
    and "names db (p, cstring f) = Some i" "attrs db i = Some st"
  shows "\<exists>c'. RPC_Getstat (one_server_env e) p f out c = Inr (RespType_code kSuccess, (i, st), c')"
proof -
  let ?req = "put_fname_req p f (cc_req c)"
  obtain s pre where net: "cc_net c = (s, pre)" by (cases "cc_net c")
  have q: "rq_region_id (FSStatReq ?req) = req_region (cc_req c)"
    "rq_pinode_hash (FSStatReq ?req) = get64 (cc_req c) 16"
    "rq_pinode (FSStatReq ?req) = p" "cstr_of (rq_fname (FSStatReq ?req)) = Some f"
    using f by (simp_all add: layout_simps put_req_slots put_fname_req_def req_region_def cstr_of_fname_field short_names_def)
  have n: "name_laws (e_kv e) names attrs" "serves s (rq_region_id (FSStatReq ?req)) (rq_pinode_hash (FSStatReq ?req))"
    "metadb (fst s) = db" using att by (auto simp: attached_def net q)
  let ?r = "get_fs_resp pre\<lparr>rs_stat := st, rs_inode := i, rs_type := kSuccess\<rparr>"
  have "fs_dispatch e kFSStatReq ?req pre s = Inr (s, [put_fs_resp pre ?r])"
    using stat_run [OF n(2) q(4) n(1) laws] assms(4,5) n(3) by (simp add: fs_dispatch_def send_all_def Let_def q)
  then have "rpc_call (one_server_env e) kFSStatReq p (24 + length f + 1) (put_fname_req p f) c =
      Inr (c\<lparr>cc_req := ?req, cc_resp := put_fs_resp pre ?r, cc_net := (s, put_fs_resp pre ?r)\<rparr>)"
    using f by (intro exchange_on_server [OF att]) (simp_all add: net short_names_def sizeof_wire_req_def
        MSG_ENTEY_MAX_SIZE_def METAFS_MAX_FNAME_LEN_def)
  then show ?thesis by (simp add: RPC_Getstat_def Let_def)
qed

lemma no_retry:
  assumes "t \<in> {kSuccess, kEXIST, kENOENT, kFail}"
  shows "handle_rpc_resp E (RespType_code t) c = Inr (False, c)"
  using assms by (auto simp: handle_rpc_resp_def)

lemma create_spec_types: "create_spec NA k i st t NA' \<Longrightarrow> t \<in> {kSuccess, kEXIST, kENOENT}"
  by (auto elim: create_spec.cases)

lemma walk_mono:
  assumes "walk ns d fs = Some x" "\<And>k v. ns k = Some v \<Longrightarrow> ns' k = Some v"
  shows "walk ns' d fs = Some x"
  using assms(1)
proof (induction fs arbitrary: d)
  case (Cons f fs)
  then show ?case using assms(2) by (auto split: option.splits)
qed simp

lemma resolve_parent:
  assumes "attached e names attrs db c" "dentry.agrees (truth names db) (cc_dentry_cache c)"
    and "path \<noteq> []" "hd path = slash" "set (components path) \<subseteq> short_names" "components path \<noteq> []"
    and "walk (truth names db) 0 (butlast (components path)) = Some d"
  shows "\<exists>n c'. ResolvePath (one_server_env e) path c = Inr (PathOk, (d, last (components path), n), c') \<and>
    attached e names attrs db c' \<and> dentry.agrees (truth names db) (cc_dentry_cache c')"
proof -
  obtain st out c' where "ResolvePath (one_server_env e) path c = Inr (st, out, c')"
    "attached e names attrs db c'" "dentry.agrees (truth names db) (cc_dentry_cache c')"
    "resolved (truth names db) (components path) st out"
    using served.ResolvePath_ok [OF assms(3-5), of e names attrs db c] assms(1,2)
    unfolding served.ready_def conj_assoc by auto
  then show ?thesis using assms(6,7) by (auto simp: resolved_def)
qed

section \<open>Creating a directory and asking for it\<close>

lemma create_done_names:
  assumes "create_spec (names db, attrs db) k i st kSuccess (names db', attrs db')"
  shows "names db k = None" "names db' = (names db)(k \<mapsto> i)" "attrs db' i = Some st"
  using assms by (auto elim: create_success)

lemma truth_after_create:
  assumes "create_spec (names db, attrs db) (p, cstring f) i st kSuccess (names db', attrs db')"
  shows "truth names db k = Some v \<Longrightarrow> truth names db' k = Some v"
  using create_done_names [OF assms] by (cases k) auto

lemma hook_path:
  assumes "below_mount (he_mountdir H) cpath" "cpath \<noteq> []" "hd cpath = slash" "real_path (he_mountdir H) cpath = Inr rp"
  shows "hook_openat H AT_FDCWD cpath flags mode r s =
      andThen (ResolvePath (he_client H) rp (cl_ctx s)) (\<lambda>(st, (pinode, fname, _), c).
            let s = s\<lparr>cl_ctx := c\<rparr>
            in if st \<noteq> PathOk then Inr (0, - ENOENT, s)
               else if flags AND O_CREAT \<noteq> 0
               then open_create H rp pinode fname flags mode r s
               else open_existing H rp pinode fname flags mode r s)"
    "hook_stat H cpath r s =
      andThen (ResolvePath (he_client H) rp (cl_ctx s)) (\<lambda>(st, (pinode, fname, _), c).
            let s = s\<lparr>cl_ctx := c\<rparr>
            in if st \<noteq> PathOk then Inr (- ENOENT, r, s) else stat_by_name H pinode fname s)"
  using assms by (simp_all add: hook_openat_def hook_stat_def)

lemma mkdir_stat:
  assumes H: "he_client H = one_server_env e"
    and att: "attached e names attrs db (cl_ctx s)" and laws: "attr_laws (e_kv e) names attrs"
    and agr: "dentry.agrees (truth names db) (cc_dentry_cache (cl_ctx s))"
    and path: "below_mount (he_mountdir H) cpath" "cpath \<noteq> []" "hd cpath = slash" "real_path (he_mountdir H) cpath = Inr rp"
    and rp: "rp \<noteq> []" "hd rp = slash" "set (components rp) \<subseteq> short_names" "components rp \<noteq> []"
    and par: "walk (truth names db) 0 (butlast (components rp)) = Some d"
    and run: "hook_mkdirat H AT_FDCWD cpath mode r s = Inr (hooked, ret, s1)"
    and ok: "resp_type (cc_resp (cl_ctx s1)) = RespType_code kSuccess"
  shows "hooked = 0 \<and> ret = 0 \<and> (\<exists>i s2. is_directory i \<and>
    hook_stat H cpath r' s1 = Inr (0, 0, s2) \<and>
    cl_stat s2 = fill_stat i (stat_of_mode (u_tv (e_uninit e)) (mode OR S_IFDIR)))"
proof -
  let ?E = "one_server_env e" and ?f = "last (components rp)" and ?m = "mode OR S_IFDIR"
  have f: "?f \<in> short_names" using rp(3,4) by auto
  obtain n c1 where c1: "ResolvePath ?E rp (cl_ctx s) = Inr (PathOk, (d, ?f, n), c1)"
    "attached e names attrs db c1" "dentry.agrees (truth names db) (cc_dentry_cache c1)"
    using resolve_parent [OF att agr rp par] by auto
  have flags: "(O_CREAT OR O_DIRECTORY) AND O_CREAT \<noteq> 0" "(O_CREAT OR O_DIRECTORY) AND O_DIRECTORY \<noteq> 0"
    by (simp_all add: O_CREAT_def O_DIRECTORY_def)
  let ?out = "fst (he_uninit H)"
  have m: "hook_mkdirat H AT_FDCWD cpath mode r s =
      andThen (Mkdir ?E d ?f ?m ?out c1) (\<lambda>(ret, _, c). Inr (0, 0, s\<lparr>cl_ctx := c\<rparr>))"
    using c1(1) flags
    by (cases "Mkdir ?E d ?f ?m ?out c1") (auto simp: hook_mkdirat_def hook_path [OF path] H open_create_def)
  then obtain ret1 out1 c2 where k: "Mkdir ?E d ?f ?m ?out c1 = Inr (ret1, out1, c2)" "s1 = s\<lparr>cl_ctx := c2\<rparr>" "hooked = 0" "ret = 0"
    using run by (cases "Mkdir ?E d ?f ?m ?out c1") auto
  obtain res x c' where x: "RPC_Mkdir ?E d ?f ?m ?out c1 = Inr (res, x, c')"
    using k(1) by (cases "RPC_Mkdir ?E d ?f ?m ?out c1") (auto simp: Mkdir_def call_with_retry_def)
  obtain db' i t where t: "res = RespType_code t" "is_directory i"
    "create_spec (names db, attrs db) (d, cstring ?f) i (stat_of_mode (u_tv (e_uninit e)) ?m) t (names db', attrs db')"
    "attached e names attrs db' c'" "cc_dentry_cache c' = cc_dentry_cache c1" "res = resp_type (cc_resp c')"
    using mkdir_on_server [OF c1(2) laws f x] by blast
  have "handle_rpc_resp ?E res c' = Inr (False, c')" using no_retry create_spec_types [OF t(3)] t(1) by auto
  then have c2: "c2 = c'" using k(1) x by (simp add: Mkdir_def call_with_retry_def errno_unless_success_def)
  have "t = kSuccess" using ok t(1,6) k(2) c2 by (cases t) simp_all
  note spec = t(3) [unfolded this]
  have mono: "truth names db' k = Some v" if "truth names db k = Some v" for k v
    using truth_after_create [OF spec that] .
  have agr': "dentry.agrees (truth names db') (cc_dentry_cache c')"
    using c1(3) mono unfolding t(5) dentry.agrees_def by blast
  have par': "walk (truth names db') 0 (butlast (components rp)) = Some d" by (rule walk_mono [OF par mono])
  obtain n' c3 where c3: "ResolvePath ?E rp c' = Inr (PathOk, (d, ?f, n'), c3)" "attached e names attrs db' c3"
    using resolve_parent [OF t(4) agr' rp par'] by auto
  have "names db' (d, cstring ?f) = Some i" "attrs db' i = Some (stat_of_mode (u_tv (e_uninit e)) ?m)"
    using create_done_names [OF spec] by auto
  from getstat_on_server [OF c3(2) laws f this, of "he_uninit H"] obtain c4 where
    "RPC_Getstat ?E d ?f (he_uninit H) c3 = Inr (RespType_code kSuccess, (i, stat_of_mode (u_tv (e_uninit e)) ?m), c4)" by auto
  then have "Getstat ?E d ?f (he_uninit H) c3 = Inr (0, (i, stat_of_mode (u_tv (e_uninit e)) ?m), c4)"
    by (simp add: Getstat_def call_with_retry_def handle_rpc_resp_def errno_unless_success_def)
  then have "hook_stat H cpath r' s1 =
      Inr (0, 0, s1\<lparr>cl_ctx := c4, cl_stat := fill_stat i (stat_of_mode (u_tv (e_uninit e)) ?m)\<rparr>)"
    using c3(1) k(2) c2 by (simp add: hook_path [OF path] H stat_by_name_def)
  then show ?thesis using k(3,4) t(2) by auto
qed

section \<open>Names in the hash of a request\<close>

lemma bit_le_word:
  "bit b k \<Longrightarrow> 8 * length xs + k < 64 \<Longrightarrow> bit (le_word (xs @ [b]) :: u64) (8 * length xs + k)"
proof (induction xs)
  case Nil
  then show ?case by (auto simp: bit_simps dest: bit_imp_le_length)
next
  case (Cons x xs)
  have e: "8 * length (x # xs) + k = 8 + (8 * length xs + k)" by simp
  have "bit (le_word (xs @ [b]) :: u64) (8 * length xs + k)" using Cons by simp
  then show ?case using Cons.prems(2) unfolding e by (simp add: bit_or_iff bit_push_bit_iff)
qed

lemma top_byte:
  assumes "length bs = 8" "bs ! 7 \<noteq> 0"
  shows "2 ^ 56 \<le> unat (le_word bs :: u64)"
proof (rule ccontr)
  assume n: "\<not> ?thesis"
  obtain k where k: "bit (bs ! 7) k" using assms(2) by (metis bit_eq_iff bit_0_eq bot_apply bot_bool_def)
  have k8: "k < 8" using bit_imp_le_length [OF k] by simp
  have "bs = take 7 bs @ [bs ! 7]"
    using assms(1) take_Suc_conv_app_nth [of 7 bs] by simp
  then have b: "bit (le_word bs :: u64) (56 + k)"
    using bit_le_word [OF k, of "take 7 bs"] k8 assms(1) by simp
  have "take_bit 56 (unat (le_word bs :: u64)) = unat (le_word bs :: u64)"
    using n by (simp add: take_bit_nat_eq_self)
  then have "\<not> bit (unat (le_word bs :: u64)) (56 + k)"
    by (metis bit_take_bit_iff add_lessD1 less_irrefl)
  then show False using b by (simp add: bit_unsigned_iff)
qed

lemma mknod_hash:
  assumes "16 \<le> length f"
  shows "req_hash kFSMknodReq (put_mknod_req p' mode f' (put_fname_req p f m)) = le_word (take 8 (drop 8 f))"
proof -
  have "mem_read (mem_write m' 24 (cstring f)) 32 8 = take 8 (drop 8 f)" for m'
    using assms by (intro nth_equalityI) (auto simp: mem_read_def mem_write_def cstring_def nth_append less_Suc_eq)
  then have "get64 (put_fname_req p f m) 32 = le_word (take 8 (drop 8 f))" by (simp add: put_fname_req_def get64_def)
  then show ?thesis by (simp add: req_hash_def put_req_slots)
qed

lemma mknod_after_name:
  assumes "is_cstr f" "16 \<le> length f" "region_map (fst s) (req_region m) = Some region" "unat (hi (end_key region)) < 2 ^ 56"
    and run: "fs_dispatch e kFSMknodReq (put_mknod_req p' mode f' (put_fname_req p f m)) pre s = Inr (s', rs)"
  shows "length rs = 2"
proof -
  let ?req = "put_mknod_req p' mode f' (put_fname_req p f m)"
  have "take 8 (drop 8 f) ! 7 = f ! 15" "f ! 15 \<in> set f" using assms(2) by auto
  then have "take 8 (drop 8 f) ! 7 \<noteq> 0" using assms(1) by (auto simp: is_cstr_def)
  then have "2 ^ 56 \<le> unat (req_hash kFSMknodReq ?req)"
    using assms(2) top_byte [of "take 8 (drop 8 f)"] by (simp add: mknod_hash)
  then have "\<not> check_is_blong_to_region region (req_hash kFSMknodReq ?req)"
    using assms(4) by (auto simp: check_is_blong_to_region_def word_le_nat_alt)
  moreover have "rq_pinode_hash (FSMknodReq ?req) = req_hash kFSMknodReq ?req" "rq_region_id (FSMknodReq ?req) = req_region m"
    by (simp_all add: req_fields put_req_slots)
  ultimately show ?thesis
    using run assms(3) by (auto simp: dispatch_simps dest!: mknod.response_count)
qed

section \<open>The cache after a removal\<close>

lemma rmdir_then_lookup:
  assumes att: "attached e names attrs db c" and laws: "attr_laws (e_kv e) names attrs" "scan_laws (e_kv e) names"
    and f: "f \<in> short_names"
    and region: "region_map (fst (fst (cc_net c))) (req_region (cc_req c)) = Some region" "region_status region = Normal"
    and dir: "names db (p, cstring f) = Some i" "is_directory i" "attrs db i = Some st" "dir_entries (names db) fst i \<noteq> {}"
    and cache: "dentry_inv (cc_dentry_cache c)" "dentry_look (cc_dentry_cache c) (p, f) = Some i"
  shows "\<exists>c' c''. Rmdir (one_server_env e) p f c = Inr (0, (), c') \<and>
    names (metadb (fst (fst (cc_net c')))) (p, cstring f) = None \<and>
    lookup_component (one_server_env e) p f c' = Inr (PathOk, i, c'')"
proof -
  let ?req = "put_fname_req p f (cc_req c)"
  obtain s pre where net: "cc_net c = (s, pre)" by (cases "cc_net c")
  have q: "rq_region_id (FSRmdirReq ?req) = req_region (cc_req c)"
    "rq_pinode_hash (FSRmdirReq ?req) = get64 (cc_req c) 16"
    "rq_pinode (FSRmdirReq ?req) = p" "cstr_of (rq_fname (FSRmdirReq ?req)) = Some f"
    using f by (simp_all add: layout_simps put_req_slots put_fname_req_def req_region_def cstr_of_fname_field short_names_def)
  have n: "name_laws (e_kv e) names attrs" "metadb (fst s) = db" "check_is_blong_to_region region (get64 (cc_req c) 16)"
    using att region(1) by (auto simp: attached_def net serves_def)
  obtain s' where h: "fs_rmdir_handler (e_kv e) (e_log e) (e_uninit e) (FSRmdirReq ?req) (get_fs_resp pre) s =
      Inr (s', [get_fs_resp pre\<lparr>rs_type := kSuccess\<rparr>])" "names (metadb (fst s')) (p, cstring f) = None"
    using rmdir_run [OF n(1) laws, of s "FSRmdirReq ?req" region f i st "e_log e" "e_uninit e" "get_fs_resp pre"]
      region n dir q by (auto simp: net ns_of_def)
  let ?m = "put_fs_resp pre (get_fs_resp pre\<lparr>rs_type := kSuccess\<rparr>)"
  let ?c = "c\<lparr>cc_req := ?req, cc_resp := ?m, cc_net := (s', ?m)\<rparr>"
  have "rpc_call (one_server_env e) kFSRmdirReq p (24 + length f + 1) (put_fname_req p f) c = Inr ?c"
    using f h(1) by (intro exchange_on_server [OF att]) (simp_all add: net short_names_def sizeof_wire_req_def
        MSG_ENTEY_MAX_SIZE_def METAFS_MAX_FNAME_LEN_def fs_dispatch_def send_all_def Let_def)
  then have "Rmdir (one_server_env e) p f c = Inr (0, (), ?c)"
    by (simp add: Rmdir_def call_with_retry_def no_out_def RPC_Rmdir_def handle_rpc_resp_def errno_unless_success_def)
  moreover obtain d where "dentry_Get (cc_dentry_cache ?c) p f = Inr (StatusOK, Some i, d)"
    using dentry_Get_ok [OF cache(1), of p f] cache(2) by auto
  then have "lookup_component (one_server_env e) p f ?c = Inr (PathOk, i, ?c\<lparr>cc_dentry_cache := d\<rparr>)"
    by (simp add: lookup_component_def Let_def)
  ultimately show ?thesis using h(2) by auto
qed

section \<open>Examples\<close>

definition demo_hooks :: "((ref_db, ref_log) server_state \<times> mem) hook_env" where
  "demo_hooks = \<lparr>he_client = one_server_env demo_env, he_mountdir = [slash, 109], he_hash = (\<lambda>_. 7),
     he_uninit = (0, stat_of_mode 0 0)\<rparr>"

definition demo_caller :: "((ref_db, ref_log) server_state \<times> mem) client" where
  "demo_caller = \<lparr>cl_ctx = demo_attached, cl_files = new_OpenFileMap, cl_stat = fill_stat 0 (stat_of_mode 0 0),
     cl_statfs = \<lparr>f_type = 0, f_bsize = 0, f_blocks = 0, f_bfree = 0, f_bavail = 0, f_files = 0, f_ffree = 0,
       f_namelen = 0, f_frsize = 0, f_flags = 0\<rparr>,
     cl_dirp = (\<lambda>_. 0)\<rparr>"

lemma demo_mkdir_dispatch:
  "\<exists>s' r. fs_dispatch demo_env kFSMkdirReq (put_mode_req 0 m [120] (\<lambda>_. 0)) (\<lambda>_. 0) (with_db demo_tree) =
     Inr (s', [put_fs_resp (\<lambda>_. 0) r]) \<and> rs_type r = kSuccess"
proof -
  let ?q = "FSMkdirReq (put_mode_req 0 m [120] (\<lambda>_. 0))"
  have "is_cstr [120]" "length [120 :: u8] < METAFS_MAX_FNAME_LEN"
    by (simp_all add: is_cstr_def METAFS_MAX_FNAME_LEN_def)
  then have q: "rq_region_id ?q = 0" "rq_pinode_hash ?q = 0" "rq_pinode ?q = 0" "cstr_of (rq_fname ?q) = Some [120]"
    by (simp_all add: layout_simps put_mode_req_def cstr_of_fname_field)
  have "serves (with_db demo_tree) 0 0"
    by (simp add: serves_def with_db_def set_metadb_def demo_state_eq new_ServerRegion_def mk_RegionKey_def check_is_blong_to_region_def)
  then have "\<exists>s' r. fs_mkdir_handler ref_kv ref_logdb id demo_uninit ?q (get_fs_resp (\<lambda>_. 0)) (with_db demo_tree) =
      Inr (s', [r]) \<and> rs_type r = kSuccess"
    by (simp add: fs_mkdir_handler_def q with_region_serves with_fname_def)
      (simp add: with_db_def demo_tree_def demo_state_eq ref_kv_def check_status_ok_def add_kv_num_def upd_region_def
        set_metadb_def maybe_split_def maybe_log_def finish_resp_def new_ServerRegion_def cstring_def
        over_threshold_def region_split_threshold_def Let_def)
  then show ?thesis by (auto simp: fs_dispatch_def demo_env_def send_all_def Let_def)
qed

lemma demo_resolve: "ResolvePath E [slash, 120] c = Inr (PathOk, (0, [120], 0), c)"
  by (simp add: ResolvePath.simps Internal_ResolvePath_def rfind_slash_def resolve_loop.simps slash_def)

lemma demo_paths:
  "below_mount (he_mountdir demo_hooks) [slash, 109, slash, 120]"
  "real_path (he_mountdir demo_hooks) [slash, 109, slash, 120] = Inr [slash, 120]"
  "components [slash, 120] = [[120]]" "[120] \<in> short_names"
  by (simp_all add: demo_hooks_def below_mount_def real_path_def slash_def short_names_def is_cstr_def METAFS_MAX_FNAME_LEN_def)

lemma demo_agrees: "dentry.agrees (truth ref_names_view demo_tree) (cc_dentry_cache demo_attached)"
  by (simp add: dentry.agrees_def demo_attached_def demo_client_def dentry_inv_def DentryCache_def
      dentry_look_def entries_def new_cache_inv) (simp add: new_cache_def)

lemma demo_mkdir_syscall:
  "\<exists>s1. hook_mkdirat demo_hooks AT_FDCWD [slash, 109, slash, 120] m 0 demo_caller = Inr (0, 0, s1) \<and>
     resp_type (cc_resp (cl_ctx s1)) = RespType_code kSuccess"
proof -
  obtain s' r where d: "fs_dispatch demo_env kFSMkdirReq (put_mode_req 0 (m OR S_IFDIR) [120] (\<lambda>_. 0)) (\<lambda>_. 0) (with_db demo_tree) =
     Inr (s', [put_fs_resp (\<lambda>_. 0) r])" "rs_type r = kSuccess"
    using demo_mkdir_dispatch by blast
  let ?m = "put_fs_resp (\<lambda>_. 0) r"
  let ?c = "demo_attached\<lparr>cc_req := put_mode_req 0 (m OR S_IFDIR) [120] (\<lambda>_. 0), cc_resp := ?m, cc_net := (s', ?m)\<rparr>"
  have n: "cc_net demo_attached = (with_db demo_tree, \<lambda>_. 0)" "cc_req demo_attached = (\<lambda>_. 0)"
    by (simp_all add: demo_attached_def demo_client_def)
  have "rpc_call (one_server_env demo_env) kFSMkdirReq 0 (28 + length [120 :: u8] + 1) (put_mode_req 0 (m OR S_IFDIR) [120]) demo_attached =
      Inr (demo_attached\<lparr>cc_req := put_mode_req 0 (m OR S_IFDIR) [120] (cc_req demo_attached), cc_resp := ?m, cc_net := (s', ?m)\<rparr>)"
    using d(1) n by (intro exchange_on_server [OF demo_attached_ok]) (simp_all add: sizeof_wire_req_def MSG_ENTEY_MAX_SIZE_def)
  then have "Mkdir (one_server_env demo_env) 0 [120] (m OR S_IFDIR) 0 demo_attached = Inr (0, rs_inode r, ?c)"
    using d(2) n by (simp add: Mkdir_def call_with_retry_def RPC_Mkdir_def Let_def handle_rpc_resp_def errno_unless_success_def)
  moreover have "(O_CREAT OR O_DIRECTORY) AND O_CREAT \<noteq> 0" "(O_CREAT OR O_DIRECTORY) AND O_DIRECTORY \<noteq> 0"
    by (simp_all add: O_CREAT_def O_DIRECTORY_def)
  ultimately have "hook_mkdirat demo_hooks AT_FDCWD [slash, 109, slash, 120] m 0 demo_caller = Inr (0, 0, demo_caller\<lparr>cl_ctx := ?c\<rparr>)"
    by (simp add: hook_mkdirat_def hook_path [OF demo_paths(1) _ _ demo_paths(2)] demo_resolve open_create_def)
      (simp add: demo_hooks_def demo_caller_def)
  then show ?thesis using d(2) by simp
qed

lemma demo_long_name:
  "\<exists>s' rs. fs_dispatch demo_env kFSMknodReq (put_mknod_req 0 0 [120] (put_fname_req 0 (replicate 16 97) (\<lambda>_. 0))) (\<lambda>_. 0) demo_state = Inr (s', rs)"
proof -
  let ?m = "put_fname_req 0 (replicate 16 97) (\<lambda>_. 0)"
  let ?q = "FSMknodReq (put_mknod_req 0 0 [120] ?m)"
  have "is_cstr [120]" "length [120 :: u8] < METAFS_MAX_FNAME_LEN" by (simp_all add: is_cstr_def METAFS_MAX_FNAME_LEN_def)
  then have q: "rq_region_id ?q = 0" "rq_pinode ?q = 0" "cstr_of (rq_fname ?q) = Some [120]"
    by (simp_all add: layout_simps put_mknod_req_def put_fname_req_def cstr_of_fname_field)
  show ?thesis
    by (simp add: dispatch_simps fs_mknod_handler_def with_region_def with_fname_def q)
      (simp add: demo_env_def demo_state_eq ref_kv_def empty_db_def
      check_status_ok_def add_kv_num_def upd_region_def set_metadb_def maybe_split_def maybe_log_def finish_resp_def
      new_ServerRegion_def over_threshold_def region_split_threshold_def Let_def send_all_def)
qed

definition demo_cached :: dentry_cache where
  "demo_cached = (case dentry_Put (DentryCache 10000) fs_root_inode [97] 0x8000000000000001 of
     Inr (_, d) \<Rightarrow> d | Inl _ \<Rightarrow> DentryCache 10000)"

definition demo_rmdir_client :: "((ref_db, ref_log) server_state \<times> mem) client_context" where
  "demo_rmdir_client = demo_attached\<lparr>cc_dentry_cache := demo_cached, cc_net := (demo_dir_state, \<lambda>_. 0)\<rparr>"

lemma demo_cached_facts:
  "dentry_inv demo_cached" "dentry_look demo_cached (fs_root_inode, [97]) = Some 0x8000000000000001"
proof -
  have "dentry_inv (DentryCache 10000)" by (simp add: dentry_inv_def DentryCache_def new_cache_inv)
  from dentry.ins_ok [OF this, where k = "(fs_root_inode, [97])" and v = "0x8000000000000001"] obtain c' where
    "map_sum id snd (dentry_Put (DentryCache 10000) fs_root_inode [97] 0x8000000000000001) = Inr c'"
    "dentry_inv c'" "dentry_look c' (fs_root_inode, [97]) = Some 0x8000000000000001" by auto
  moreover from this(1) have "demo_cached = c'"
    by (cases "dentry_Put (DentryCache 10000) fs_root_inode [97] 0x8000000000000001") (auto simp: demo_cached_def)
  ultimately show "dentry_inv demo_cached" "dentry_look demo_cached (fs_root_inode, [97]) = Some 0x8000000000000001" by simp_all
qed

lemma demo_rmdir_attached:
  "attached demo_env ref_names_view ref_attrs_view (metadb (fst demo_dir_state)) demo_rmdir_client"
  using word_mod_1024
  by (simp add: attached_def ref_kv_name_laws demo_env_def with_db_def demo_state_eq demo_attached_def demo_rmdir_client_def
      demo_dir_state_def
      demo_client_def serves_def new_ServerRegion_def mk_RegionKey_def mk_ClientRegion_def
      check_is_blong_to_region_def req_region_def client_route_def one_server_env_def PINODE_HASH_RANGE_def
      session_index_def Let_def)

end
