(* ===== verification/Sync.thy ===== *)
theory Sync
  imports Prelude
begin

text \<open>
  The read-write lock of \<open>include/util/rwlock.h\<close>, which guards the region map and the pinode table of a
  server. Its functions run under one mutex, so each is split at the points where it may sleep on a
  condition variable, and \<open>rw_step\<close> interleaves the pieces of any number of threads. The guards
  \<open>ReadGuard\<close> and \<open>WriteGuard\<close> only call the four functions, from constructor and destructor. The
  counters are C++ ints bounded by the number of threads, so they are kept as integers.
\<close>

section \<open>The read-write lock\<close>

record rwlock =
  m_readCount :: int
  m_writeCount :: int
  m_isWriting :: bool

definition new_rwlock :: rwlock where
  "new_rwlock = \<lparr>m_readCount = 0, m_writeCount = 0, m_isWriting = False\<rparr>"

text \<open>
  The bodies between the points where a thread may wait. \<open>lockWrite\<close> announces the writer, waits for
  \<open>can_write\<close> and then takes the lock; \<open>lockRead\<close> waits for \<open>can_read\<close> and then counts the reader. The
  unlocking functions return whom they notify.
\<close>

definition can_write :: "rwlock \<Rightarrow> bool" where
  "can_write l \<longleftrightarrow> m_readCount l = 0 \<and> \<not> m_isWriting l"

definition can_read :: "rwlock \<Rightarrow> bool" where
  "can_read l \<longleftrightarrow> m_writeCount l = 0"

definition lockWrite_enter :: "rwlock \<Rightarrow> rwlock" where
  "lockWrite_enter l = l\<lparr>m_writeCount := m_writeCount l + 1\<rparr>"

definition lockWrite_leave :: "rwlock \<Rightarrow> rwlock" where
  "lockWrite_leave l = l\<lparr>m_isWriting := True\<rparr>"

definition lockRead_leave :: "rwlock \<Rightarrow> rwlock" where
  "lockRead_leave l = l\<lparr>m_readCount := m_readCount l + 1\<rparr>"

datatype notification = NotifyNone | NotifyAllReaders | NotifyOneWriter

definition unlockWrite :: "rwlock \<Rightarrow> notification \<times> rwlock" where
  "unlockWrite l =
     (let l = l\<lparr>m_isWriting := False, m_writeCount := m_writeCount l - 1\<rparr>
      in (if m_writeCount l = 0 then NotifyAllReaders else NotifyOneWriter, l))"

definition unlockRead :: "rwlock \<Rightarrow> notification \<times> rwlock" where
  "unlockRead l =
     (let l = l\<lparr>m_readCount := m_readCount l - 1\<rparr>
      in (if m_readCount l = 0 \<and> m_writeCount l > 0 then NotifyOneWriter else NotifyNone, l))"

text \<open>
  A thread is outside, asleep on a condition variable, awake but not yet past the test of its
  predicate, or holds the lock.
\<close>

datatype tstate = Idle | WAsleep | WAwake | Writing | RAsleep | RAwake | Reading

definition wake_readers :: "tstate list \<Rightarrow> tstate list" where
  "wake_readers = map (\<lambda>t. if t = RAsleep then RAwake else t)"

text \<open>\<open>notify_one\<close> wakes one sleeping writer, any of them, and is lost if there is none.\<close>

inductive notified :: "notification \<Rightarrow> tstate list \<Rightarrow> tstate list \<Rightarrow> bool" where
  notify_none: "notified NotifyNone ts ts"
| notify_all: "notified NotifyAllReaders ts (wake_readers ts)"
| notify_lost: "WAsleep \<notin> set ts \<Longrightarrow> notified NotifyOneWriter ts ts"
| notify_one: "j < length ts \<Longrightarrow> ts ! j = WAsleep \<Longrightarrow> notified NotifyOneWriter ts (ts[j := WAwake])"

text \<open>
  One step of one thread; the mutex makes each body atomic. The \<open>spurious\<close> rules are wakeups without
  notification, which condition variables allow.
\<close>

inductive rw_step :: "rwlock \<times> tstate list \<Rightarrow> rwlock \<times> tstate list \<Rightarrow> bool" where
  write_now: "i < length ts \<Longrightarrow> ts ! i = Idle \<Longrightarrow> can_write (lockWrite_enter l) \<Longrightarrow>
    rw_step (l, ts) (lockWrite_leave (lockWrite_enter l), ts[i := Writing])"
| write_wait: "i < length ts \<Longrightarrow> ts ! i = Idle \<Longrightarrow> \<not> can_write (lockWrite_enter l) \<Longrightarrow>
    rw_step (l, ts) (lockWrite_enter l, ts[i := WAsleep])"
| write_wake: "i < length ts \<Longrightarrow> ts ! i = WAwake \<Longrightarrow> can_write l \<Longrightarrow>
    rw_step (l, ts) (lockWrite_leave l, ts[i := Writing])"
| write_sleep: "i < length ts \<Longrightarrow> ts ! i = WAwake \<Longrightarrow> \<not> can_write l \<Longrightarrow> rw_step (l, ts) (l, ts[i := WAsleep])"
| write_spurious: "i < length ts \<Longrightarrow> ts ! i = WAsleep \<Longrightarrow> rw_step (l, ts) (l, ts[i := WAwake])"
| write_done: "i < length ts \<Longrightarrow> ts ! i = Writing \<Longrightarrow> unlockWrite l = (n, l') \<Longrightarrow>
    notified n (ts[i := Idle]) ts' \<Longrightarrow> rw_step (l, ts) (l', ts')"
| read_now: "i < length ts \<Longrightarrow> ts ! i = Idle \<Longrightarrow> can_read l \<Longrightarrow>
    rw_step (l, ts) (lockRead_leave l, ts[i := Reading])"
| read_wait: "i < length ts \<Longrightarrow> ts ! i = Idle \<Longrightarrow> \<not> can_read l \<Longrightarrow> rw_step (l, ts) (l, ts[i := RAsleep])"
| read_wake: "i < length ts \<Longrightarrow> ts ! i = RAwake \<Longrightarrow> can_read l \<Longrightarrow>
    rw_step (l, ts) (lockRead_leave l, ts[i := Reading])"
| read_sleep: "i < length ts \<Longrightarrow> ts ! i = RAwake \<Longrightarrow> \<not> can_read l \<Longrightarrow> rw_step (l, ts) (l, ts[i := RAsleep])"
| read_spurious: "i < length ts \<Longrightarrow> ts ! i = RAsleep \<Longrightarrow> rw_step (l, ts) (l, ts[i := RAwake])"
| read_done: "i < length ts \<Longrightarrow> ts ! i = Reading \<Longrightarrow> unlockRead l = (n, l') \<Longrightarrow>
    notified n (ts[i := Idle]) ts' \<Longrightarrow> rw_step (l, ts) (l', ts')"

inductive_cases notified_cases:
  "notified NotifyNone ts ts'" "notified NotifyAllReaders ts ts'" "notified NotifyOneWriter ts ts'"

definition rw_reachable :: "nat \<Rightarrow> rwlock \<times> tstate list \<Rightarrow> bool" where
  "rw_reachable n s \<longleftrightarrow> rw_step\<^sup>*\<^sup>* (new_rwlock, replicate n Idle) s"

section \<open>Counting threads\<close>

definition threads :: "tstate set \<Rightarrow> tstate list \<Rightarrow> int" where
  "threads S ts = int (length (filter (\<lambda>t. t \<in> S) ts))"

lemma threads_update:
  "i < length ts \<Longrightarrow> threads S (ts[i := t]) = threads S ts - of_bool (ts ! i \<in> S) + of_bool (t \<in> S)"
proof (induction ts arbitrary: i)
  case (Cons u ts)
  then show ?case by (cases i) (auto simp: threads_def)
qed simp

lemma threads_nonneg [simp]: "0 \<le> threads S ts"
  by (simp add: threads_def)

lemma threads_zero: "threads S ts = 0 \<longleftrightarrow> (\<forall>t\<in>set ts. t \<notin> S)"
  by (auto simp: threads_def filter_empty_conv)

lemma threads_pos: "0 < threads S ts \<longleftrightarrow> (\<exists>i<length ts. ts ! i \<in> S)"
proof -
  have "0 < threads S ts \<longleftrightarrow> threads S ts \<noteq> 0" using threads_nonneg [of S ts] by linarith
  then show ?thesis by (auto simp: threads_zero set_conv_nth)
qed

lemma threads_wake_readers:
  "RAsleep \<notin> S \<Longrightarrow> RAwake \<notin> S \<Longrightarrow> threads S (wake_readers ts) = threads S ts"
  "threads {RAsleep} (wake_readers ts) = 0"
proof -
  show "threads S (wake_readers ts) = threads S ts" if "RAsleep \<notin> S" "RAwake \<notin> S"
    using that by (induction ts) (auto simp: threads_def wake_readers_def)
  show "threads {RAsleep} (wake_readers ts) = 0"
    by (auto simp: threads_zero wake_readers_def)
qed

lemma threads_mono: "S \<subseteq> T \<Longrightarrow> threads S ts \<le> threads T ts"
  by (induction ts) (auto simp: threads_def)

abbreviation all_writers :: "tstate set" where "all_writers \<equiv> {WAsleep, WAwake, Writing}"

text \<open>
  The counters count the threads, at most one thread writes and none reads meanwhile, and no sleeper
  is forgotten: a writer sleeps beside a free lock only if another writer is awake, a reader sleeps
  only while a writer is announced.
\<close>

definition rw_inv :: "rwlock \<times> tstate list \<Rightarrow> bool" where
  "rw_inv = (\<lambda>(l, ts).
     m_readCount l = threads {Reading} ts \<and> m_writeCount l = threads all_writers ts \<and>
     threads {Writing} ts = of_bool (m_isWriting l) \<and> (m_isWriting l \<longrightarrow> m_readCount l = 0) \<and>
     (can_write l \<and> 0 < threads {WAsleep} ts \<longrightarrow> 0 < threads {WAwake} ts) \<and>
     (0 < threads {RAsleep} ts \<longrightarrow> 0 < m_writeCount l))"

lemma rw_inv_init: "rw_inv (new_rwlock, replicate n Idle)"
  by (simp add: rw_inv_def new_rwlock_def threads_def)

lemmas rw_defs = rw_inv_def can_write_def can_read_def lockWrite_enter_def lockWrite_leave_def
  lockRead_leave_def unlockWrite_def unlockRead_def Let_def

lemma rw_inv_notified:
  assumes "notified n ts ts'"
  shows "threads {Reading} ts' = threads {Reading} ts" "threads all_writers ts' = threads all_writers ts"
    "threads {Writing} ts' = threads {Writing} ts"
    "n = NotifyOneWriter \<Longrightarrow> 0 < threads {WAsleep} ts' \<Longrightarrow> 0 < threads {WAwake} ts'"
    "n = NotifyAllReaders \<Longrightarrow> threads {RAsleep} ts' = 0"
    "n \<noteq> NotifyAllReaders \<Longrightarrow> threads {RAsleep} ts' = threads {RAsleep} ts"
    "n = NotifyNone \<Longrightarrow> ts' = ts"
proof -
  have "threads {Reading} ts' = threads {Reading} ts \<and> threads all_writers ts' = threads all_writers ts \<and>
    threads {Writing} ts' = threads {Writing} ts \<and>
    (n = NotifyOneWriter \<longrightarrow> 0 < threads {WAsleep} ts' \<longrightarrow> 0 < threads {WAwake} ts') \<and>
    (n = NotifyAllReaders \<longrightarrow> threads {RAsleep} ts' = 0) \<and>
    (n \<noteq> NotifyAllReaders \<longrightarrow> threads {RAsleep} ts' = threads {RAsleep} ts) \<and> (n = NotifyNone \<longrightarrow> ts' = ts)"
    using assms
  proof cases
    case notify_lost
    then have "threads {WAsleep} ts = 0" by (auto simp: threads_zero)
    with notify_lost show ?thesis by simp
  next
    case (notify_one j)
    with threads_nonneg [of "{WAwake}" ts] show ?thesis by (simp add: threads_update)
  qed (simp_all add: threads_wake_readers)
  then show "threads {Reading} ts' = threads {Reading} ts" "threads all_writers ts' = threads all_writers ts"
    "threads {Writing} ts' = threads {Writing} ts"
    "n = NotifyOneWriter \<Longrightarrow> 0 < threads {WAsleep} ts' \<Longrightarrow> 0 < threads {WAwake} ts'"
    "n = NotifyAllReaders \<Longrightarrow> threads {RAsleep} ts' = 0"
    "n \<noteq> NotifyAllReaders \<Longrightarrow> threads {RAsleep} ts' = threads {RAsleep} ts"
    "n = NotifyNone \<Longrightarrow> ts' = ts" by simp_all
qed

lemma holder_facts:
  assumes "rw_inv (l, ts)" "i < length ts"
  shows "ts ! i = Writing \<Longrightarrow> m_isWriting l \<and> m_readCount l = 0"
    and "ts ! i = Reading \<Longrightarrow> \<not> m_isWriting l \<and> 0 < m_readCount l"
proof -
  have p: "0 < threads {ts ! i} ts" using assms(2) by (auto simp: threads_pos)
  { assume "ts ! i = Writing"
    with p assms(1) show "m_isWriting l \<and> m_readCount l = 0" by (auto simp: rw_inv_def split: if_splits) }
  { assume "ts ! i = Reading"
    with p assms(1) show "\<not> m_isWriting l \<and> 0 < m_readCount l" by (auto simp: rw_inv_def) }
qed

lemma write_done_inv:
  assumes inv: "rw_inv (l, ts)" and i: "i < length ts" "ts ! i = Writing"
    and u: "unlockWrite l = (n, l')" and nt: "notified n (ts[i := Idle]) ts'"
  shows "rw_inv (l', ts')"
proof -
  have h: "m_isWriting l" "m_readCount l = 0" using holder_facts(1) [OF inv i(1)] i(2) by simp_all
  note nf = rw_inv_notified [OF nt, simplified threads_update [OF i(1)], simplified i(2), simplified]
  from u have l': "\<not> m_isWriting l'" "m_readCount l' = 0" "m_writeCount l' = m_writeCount l - 1"
    and n: "n = (if m_writeCount l' = 0 then NotifyAllReaders else NotifyOneWriter)"
    using h(2) by (auto simp: unlockWrite_def Let_def)
  have c: "threads {Reading} ts' = 0" "threads all_writers ts' = m_writeCount l'" "threads {Writing} ts' = 0"
    using nf(1-3) inv h l' by (simp_all add: rw_inv_def)
  have "0 < threads {WAsleep} ts' \<longrightarrow> 0 < threads {WAwake} ts'"
    using nf(4) n c(2) threads_mono [of "{WAsleep}" all_writers ts'] by (auto split: if_splits)
  moreover have "0 < threads {RAsleep} ts' \<longrightarrow> 0 < m_writeCount l'"
    using nf(5) n c(2) threads_nonneg [of all_writers ts'] by (auto split: if_splits)
  ultimately show ?thesis using c l' by (simp add: rw_inv_def)
qed

lemma read_done_inv:
  assumes inv: "rw_inv (l, ts)" and i: "i < length ts" "ts ! i = Reading"
    and u: "unlockRead l = (n, l')" and nt: "notified n (ts[i := Idle]) ts'"
  shows "rw_inv (l', ts')"
proof -
  have h: "\<not> m_isWriting l" "0 < m_readCount l" using holder_facts(2) [OF inv i(1)] i(2) by simp_all
  note nf = rw_inv_notified [OF nt, simplified threads_update [OF i(1)], simplified i(2), simplified]
  from u have l': "m_isWriting l' = m_isWriting l" "m_readCount l' = m_readCount l - 1" "m_writeCount l' = m_writeCount l"
    and n: "n = (if m_readCount l' = 0 \<and> 0 < m_writeCount l' then NotifyOneWriter else NotifyNone)"
    by (auto simp: unlockRead_def Let_def)
  have c: "threads {Reading} ts' = m_readCount l'" "threads all_writers ts' = m_writeCount l'"
    "threads {Writing} ts' = 0" "threads {RAsleep} ts' = threads {RAsleep} ts"
    using nf(1-3,6) inv h l' n by (simp_all add: rw_inv_def)
  have "m_readCount l' = 0 \<and> 0 < threads {WAsleep} ts' \<longrightarrow> 0 < threads {WAwake} ts'"
    using nf(4) n c(2) threads_mono [of "{WAsleep}" all_writers ts'] by (auto split: if_splits)
  with inv h l' c show ?thesis by (auto simp: rw_inv_def can_write_def)
qed

lemma rw_step_inv:
  assumes "rw_step s s'" "rw_inv s"
  shows "rw_inv s'"
  using assms(1)
proof cases
  case (write_done i ts l n l' ts')
  with assms(2) write_done_inv show ?thesis by simp
next
  case (read_done i ts l n l' ts')
  with assms(2) read_done_inv show ?thesis by simp
next
  case (write_now i ts l)
  have "threads all_writers ts = 0 \<or> 0 < threads all_writers ts" using threads_nonneg [of all_writers ts] by linarith
  with write_now assms(2) show ?thesis
    using threads_nonneg [of "{WAwake}" ts] threads_nonneg [of all_writers ts]
    by (auto simp: rw_inv_def can_write_def lockWrite_enter_def lockWrite_leave_def threads_update)
next
  case (write_wait i ts l)
  with assms(2) show ?thesis
    using threads_nonneg [of all_writers ts]
    by (auto simp: rw_inv_def can_write_def lockWrite_enter_def threads_update)
next
  case (write_wake i ts l)
  with assms(2) show ?thesis
    by (auto simp: rw_inv_def can_write_def lockWrite_leave_def threads_update)
next
  case (read_now i ts l)
  then have "threads {WAsleep} ts \<le> m_writeCount l"
    using assms(2) threads_mono [of "{WAsleep}" all_writers ts] by (simp add: rw_inv_def)
  moreover have "threads {Writing} ts \<le> m_writeCount l"
    using read_now assms(2) threads_mono [of "{Writing}" all_writers ts] by (simp add: rw_inv_def)
  ultimately show ?thesis
    using read_now assms(2) by (auto simp: rw_inv_def can_read_def lockRead_leave_def threads_update split: if_splits)
next
  case (read_wake i ts l)
  then have "threads {WAsleep} ts \<le> m_writeCount l"
    using assms(2) threads_mono [of "{WAsleep}" all_writers ts] by (simp add: rw_inv_def)
  moreover have "threads {Writing} ts \<le> m_writeCount l"
    using read_wake assms(2) threads_mono [of "{Writing}" all_writers ts] by (simp add: rw_inv_def)
  ultimately show ?thesis
    using read_wake assms(2) by (auto simp: rw_inv_def can_read_def lockRead_leave_def threads_update split: if_splits)
next
  case (read_wait i ts l)
  have "0 < threads all_writers ts" if "threads all_writers ts \<noteq> 0"
    using that threads_nonneg [of all_writers ts] by linarith
  with read_wait assms(2) show ?thesis
    by (auto simp: rw_inv_def can_write_def can_read_def threads_update)
next
  case (read_sleep i ts l)
  have "0 < threads all_writers ts" if "threads all_writers ts \<noteq> 0"
    using that threads_nonneg [of all_writers ts] by linarith
  with read_sleep assms(2) show ?thesis
    by (auto simp: rw_inv_def can_write_def can_read_def threads_update)
next
  case (write_sleep i ts l)
  with assms(2) show ?thesis by (auto simp: rw_inv_def threads_update)
next
  case (write_spurious i ts l)
  with assms(2) threads_nonneg [of "{WAwake}" ts] show ?thesis by (auto simp: rw_inv_def threads_update)
next
  case (read_spurious i ts l)
  with assms(2) show ?thesis by (auto simp: rw_inv_def threads_update can_write_def)
qed

lemma rw_reachable_init: "rw_reachable n (new_rwlock, replicate n Idle)"
  by (simp add: rw_reachable_def)

lemma rw_reachable_step: "rw_reachable n s \<Longrightarrow> rw_step s s' \<Longrightarrow> rw_reachable n s'"
  unfolding rw_reachable_def by (rule rtranclp.rtrancl_into_rtrancl)

lemma rw_reachable_inv:
  assumes "rw_reachable n s"
  shows "rw_inv s"
  using assms unfolding rw_reachable_def
  by (induction rule: rtranclp_induct) (auto intro: rw_inv_init rw_step_inv)

section \<open>Exclusion and progress\<close>

text \<open>
  C5: Whatever the order in which threads lock and unlock, at most one of them writes, nobody reads
  while one writes, and the three fields of the lock say how many threads read, whether one writes
  and how many writers hold the lock or wait for it. In particular the counters never go negative.
\<close>

theorem rwlock_exclusion:
  assumes "rw_reachable n (l, ts)"
  shows "threads {Writing} ts \<le> 1 \<and> (0 < threads {Writing} ts \<longrightarrow> threads {Reading} ts = 0) \<and>
    m_readCount l = threads {Reading} ts \<and> (m_isWriting l \<longleftrightarrow> 0 < threads {Writing} ts) \<and>
    m_writeCount l = threads {WAsleep, WAwake, Writing} ts"
  using rw_reachable_inv [OF assms] by (auto simp: rw_inv_def)

text \<open>
  C6: No wakeup is lost: when no thread holds the lock and some thread is inside a locking function,
  then a thread that is already awake can take the lock in its next step, without any notification
  and without a spurious wakeup. A waiting thread is therefore never left asleep beside a free lock.
\<close>

theorem rwlock_progress:
  assumes "rw_reachable n (l, ts)" "threads {Writing, Reading} ts = 0"
    "0 < threads {WAsleep, WAwake, RAsleep, RAwake} ts"
  shows "\<exists>i l' t. i < length ts \<and> ts ! i \<in> {WAwake, RAwake} \<and> t \<in> {Writing, Reading} \<and>
    rw_step (l, ts) (l', ts[i := t])"
proof -
  have inv: "rw_inv (l, ts)" using assms(1) by (rule rw_reachable_inv)
  have free: "threads {Writing} ts = 0" "threads {Reading} ts = 0"
    using assms(2) by (simp_all add: threads_zero)
  then have cw: "can_write l" using inv by (auto simp: rw_inv_def can_write_def)
  show ?thesis
  proof (cases "0 < threads {WAwake} ts")
    case True
    then obtain i where "i < length ts" "ts ! i = WAwake" by (auto simp: threads_pos)
    then show ?thesis using cw by (blast intro: write_wake)
  next
    case False
    then have z: "threads {WAwake} ts = 0" "threads {WAsleep} ts = 0"
      using inv cw threads_nonneg [of "{WAwake}" ts] threads_nonneg [of "{WAsleep}" ts]
      by (auto simp: rw_inv_def simp del: threads_nonneg)
    then have "threads all_writers ts = 0" using free by (auto simp: threads_zero)
    then have cr: "can_read l" and "\<not> 0 < threads {RAsleep} ts" using inv by (auto simp: rw_inv_def can_read_def)
    then have "0 < threads {RAwake} ts" using assms(3) z by (fastforce simp: threads_zero threads_pos)
    then obtain i where "i < length ts" "ts ! i = RAwake" by (auto simp: threads_pos)
    then show ?thesis using cr by (blast intro: read_wake)
  qed
qed

text \<open>A run of two threads: the first writes, the second waits to write, the first unlocks.\<close>

lemma run_one_writer:
  "rw_reachable 2 (\<lparr>m_readCount = 0, m_writeCount = 1, m_isWriting = True\<rparr>, [Writing, Idle])"
  using rw_reachable_step [OF rw_reachable_init [of 2] write_now [of 0]]
  by (simp add: new_rwlock_def rw_defs numeral_2_eq_2)

lemma run_two_writers:
  "rw_reachable 2 (\<lparr>m_readCount = 0, m_writeCount = 2, m_isWriting = True\<rparr>, [Writing, WAsleep])"
  using rw_reachable_step [OF run_one_writer write_wait [of 1]] by (simp add: rw_defs)

lemma run_handover:
  "rw_reachable 2 (\<lparr>m_readCount = 0, m_writeCount = 1, m_isWriting = False\<rparr>, [Idle, WAwake])"
proof -
  have "notified NotifyOneWriter [Idle, WAsleep] [Idle, WAwake]"
    using notify_one [of 1 "[Idle, WAsleep]"] by simp
  then show ?thesis
    using rw_reachable_step [OF run_two_writers write_done [of 0]] by (simp add: unlockWrite_def)
qed

theorem rwlock_exclusion_witness:
  "threads {Writing} [Writing, WAsleep] = 1 \<and> threads {Reading} [Writing, WAsleep] = 0"
  using rwlock_exclusion [OF run_two_writers] by (auto simp: threads_def)

theorem rwlock_progress_witness:
  "\<exists>i l' t. i < 2 \<and> [Idle, WAwake] ! i \<in> {WAwake, RAwake} \<and> t \<in> {Writing, Reading} \<and>
    rw_step (\<lparr>m_readCount = 0, m_writeCount = 1, m_isWriting = False\<rparr>, [Idle, WAwake]) (l', [Idle, WAwake][i := t])"
  using rwlock_progress [OF run_handover] by (simp add: threads_def numeral_2_eq_2)

end
