(* ===== verification/CJson.thy ===== *)
theory CJson
  imports JumpHash
begin

text \<open>
  The JSON library \<open>src/common/cJSON.cc\<close>, with which both programs read their configuration: the
  parser with its buffer, numbers, strings and nested values, and the functions that read a tree. Reads and
  writes that the code does not guard are checked here and end in \<open>OutOfBounds\<close>. Allocation always succeeds. The
  loops and the mutual recursion terminate because every item that is closed ends behind its start.
\<close>

declare andThen_cong [fundef_cong]

section \<open>Items\<close>

definition cJSON_Invalid :: u32 where "cJSON_Invalid = 0"
definition cJSON_False :: u32 where "cJSON_False = 1"
definition cJSON_True :: u32 where "cJSON_True = 2"
definition cJSON_NULL :: u32 where "cJSON_NULL = 4"
definition cJSON_Number :: u32 where "cJSON_Number = 8"
definition cJSON_String :: u32 where "cJSON_String = 16"
definition cJSON_Array :: u32 where "cJSON_Array = 32"
definition cJSON_Object :: u32 where "cJSON_Object = 64"
definition cJSON_Raw :: u32 where "cJSON_Raw = 128"

lemmas cJSON_types = cJSON_Invalid_def cJSON_False_def cJSON_True_def cJSON_NULL_def cJSON_Number_def
  cJSON_String_def cJSON_Array_def cJSON_Object_def cJSON_Raw_def

definition CJSON_NESTING_LIMIT :: nat where "CJSON_NESTING_LIMIT = 1000"

text \<open>A double is a rational or an infinity; the parser never makes a NaN. The sign of zero is dropped.\<close>

datatype dbl = Fin rat | Infinity bool

text \<open>
  An item. The chain of children that hangs off \<open>child\<close> is a list; a string pointer is the bytes up to
  the terminator the parser wrote.
\<close>

datatype cJSON = Item
  (item_type: u32) (item_child: "cJSON list") (item_valuestring: "u8 list option")
  (item_valueint: int) (item_valuedouble: dbl) (item_string: "u8 list option")

definition cJSON_New_Item :: cJSON where
  "cJSON_New_Item = Item cJSON_Invalid [] None 0 (Fin 0) None"

primrec set_type :: "u32 \<Rightarrow> cJSON \<Rightarrow> cJSON" where
  "set_type t (Item _ ch vs vi vd s) = Item t ch vs vi vd s"

primrec set_child :: "cJSON list \<Rightarrow> cJSON \<Rightarrow> cJSON" where
  "set_child ch (Item t _ vs vi vd s) = Item t ch vs vi vd s"

primrec set_valuestring :: "u8 list option \<Rightarrow> cJSON \<Rightarrow> cJSON" where
  "set_valuestring vs (Item t ch _ vi vd s) = Item t ch vs vi vd s"

primrec set_valueint :: "int \<Rightarrow> cJSON \<Rightarrow> cJSON" where
  "set_valueint vi (Item t ch vs _ vd s) = Item t ch vs vi vd s"

primrec set_valuedouble :: "dbl \<Rightarrow> cJSON \<Rightarrow> cJSON" where
  "set_valuedouble vd (Item t ch vs vi _ s) = Item t ch vs vi vd s"

primrec set_string :: "u8 list option \<Rightarrow> cJSON \<Rightarrow> cJSON" where
  "set_string s (Item t ch vs vi vd _) = Item t ch vs vi vd s"

section \<open>The parse buffer\<close>

text \<open>\<open>content\<close> and \<open>length\<close> are one list. Reads that no test protects go through \<open>read_at\<close>.\<close>

record parse_buffer =
  pb_content :: "u8 list"
  pb_offset :: nat
  pb_depth :: nat

definition pb_can_read :: "parse_buffer \<Rightarrow> nat \<Rightarrow> bool" where
  "pb_can_read b n \<longleftrightarrow> pb_offset b + n \<le> length (pb_content b)"

definition can_access_at_index :: "parse_buffer \<Rightarrow> nat \<Rightarrow> bool" where
  "can_access_at_index b i \<longleftrightarrow> pb_offset b + i < length (pb_content b)"

definition at_is :: "parse_buffer \<Rightarrow> u8 \<Rightarrow> bool" where
  "at_is b c \<longleftrightarrow> can_access_at_index b 0 \<and> pb_content b ! pb_offset b = c"

definition read_at :: "u8 list \<Rightarrow> nat \<Rightarrow> crash + u8" where
  "read_at xs i = (if i < length xs then Inr (xs ! i) else Inl OutOfBounds)"

definition looking_at :: "parse_buffer \<Rightarrow> u8 list \<Rightarrow> bool" where
  "looking_at b s \<longleftrightarrow> pb_can_read b (length s) \<and> take (length s) (drop (pb_offset b) (pb_content b)) = s"

definition advance :: "nat \<Rightarrow> parse_buffer \<Rightarrow> parse_buffer" where
  "advance n b = b\<lparr>pb_offset := pb_offset b + n\<rparr>"

function skip_spaces :: "u8 list \<Rightarrow> nat \<Rightarrow> nat" where
  "skip_spaces xs i = (if i < length xs \<and> xs ! i \<le> 32 then skip_spaces xs (i + 1) else i)"
  by pat_completeness auto
termination by (relation "measure (\<lambda>(xs, i). length xs - i)") auto

declare skip_spaces.simps [simp del]

definition buffer_skip_whitespace :: "parse_buffer \<Rightarrow> parse_buffer" where
  "buffer_skip_whitespace b =
     (if \<not> can_access_at_index b 0 then b
      else
        let i = skip_spaces (pb_content b) (pb_offset b)
        in b\<lparr>pb_offset := (if i = length (pb_content b) then i - 1 else i)\<rparr>)"

definition skip_utf8_bom :: "parse_buffer \<Rightarrow> parse_buffer option" where
  "skip_utf8_bom b =
     (if pb_offset b \<noteq> 0 then None
      else if can_access_at_index b 4 \<and> take 3 (pb_content b) = [0xEF, 0xBB, 0xBF] then Some (advance 3 b)
      else Some b)"

section \<open>Numbers\<close>

definition pow2 :: "int \<Rightarrow> rat" where
  "pow2 e = (if 0 \<le> e then 2 ^ nat e else 1 / 2 ^ nat (- e))"

text \<open>The exponent of a positive rational: \<open>pow2 e \<le> x < pow2 (e + 1)\<close>.\<close>

definition exponent_of :: "rat \<Rightarrow> int" where
  "exponent_of x =
     (case quotient_of x of
        (n, d) \<Rightarrow>
          let e = int (ilog2 (nat n)) - int (ilog2 (nat d)) in if pow2 e \<le> x then e else e - 1)"

definition binary64_magnitude :: "rat \<Rightarrow> rat" where
  "binary64_magnitude x =
     (if x = 0 then 0
      else let u = pow2 (max (exponent_of x) (- 1022) - 52) in of_int (round_half_even (x / u)) * u)"

text \<open>The binary64 number nearest to \<open>\<plusminus>x\<close>, ties to even, infinite from \<open>2 ^ 1024\<close> on.\<close>

definition binary64 :: "bool \<Rightarrow> rat \<Rightarrow> dbl" where
  "binary64 neg x =
     (let r = binary64_magnitude x
      in if 2 ^ 1024 \<le> r then Infinity neg else Fin (if neg then - r else r))"

definition is_digit :: "u8 \<Rightarrow> bool" where
  "is_digit c \<longleftrightarrow> 48 \<le> c \<and> c \<le> 57"

definition digits_value :: "u8 list \<Rightarrow> nat" where
  "digits_value ds = foldl (\<lambda>n d. 10 * n + (unat d - 48)) 0 ds"

text \<open>The digits of a number, as \<open>sprintf\<close> and \<open>to_string\<close> write them.\<close>

fun decimal_nat :: "nat \<Rightarrow> u8 list" where
  "decimal_nat n = (if n < 10 then [48 + of_nat n] else decimal_nat (n div 10) @ [48 + of_nat (n mod 10)])"

declare decimal_nat.simps [simp del]

definition pow10 :: "int \<Rightarrow> rat" where
  "pow10 e = (if 0 \<le> e then 10 ^ nat e else 1 / 10 ^ nat (- e))"

text \<open>An exponent counts only if at least one digit follows the letter and the sign.\<close>

definition strtod_exponent :: "u8 list \<Rightarrow> int \<times> nat" where
  "strtod_exponent s =
     (case s of
        [] \<Rightarrow> (0, 0)
      | c # r \<Rightarrow>
          if c = 101 \<or> c = 69
          then
            let signed = (r \<noteq> [] \<and> (hd r = 43 \<or> hd r = 45));
                ds = takeWhile is_digit (if signed then tl r else r);
                e = int (digits_value ds)
            in if ds = [] then (0, 0)
               else (if signed \<and> hd r = 45 then - e else e, 1 + (if signed then 1 else 0) + length ds)
          else (0, 0))"

text \<open>
  \<open>strtod\<close> on the characters that \<open>parse_number\<close> lets through, which leave only decimal numbers: the
  correctly rounded value and the number of characters used, none if there is no number.
\<close>

definition strtod :: "u8 list \<Rightarrow> dbl \<times> nat" where
  "strtod s =
     (let signed = (s \<noteq> [] \<and> (hd s = 43 \<or> hd s = 45));
          neg = (signed \<and> hd s = 45);
          s1 = (if signed then tl s else s);
          ds = takeWhile is_digit s1;
          s2 = drop (length ds) s1;
          point = (s2 \<noteq> [] \<and> hd s2 = 46);
          fs = (if point then takeWhile is_digit (tl s2) else []);
          s3 = (if point then drop (length fs) (tl s2) else s2)
      in if ds = [] \<and> fs = [] then (Fin 0, 0)
         else
           case strtod_exponent s3 of
             (e, k) \<Rightarrow>
               (binary64 neg (of_nat (digits_value (ds @ fs)) * pow10 (e - int (length fs))),
                (if signed then 1 else 0) + length ds + (if point then 1 else 0) + length fs + k))"

definition truncate :: "rat \<Rightarrow> int" where
  "truncate x = (if 0 \<le> x then \<lfloor>x\<rfloor> else \<lceil>x\<rceil>)"

primrec saturate :: "dbl \<Rightarrow> int" where
  "saturate (Fin x) =
     (if of_int INT_MAX \<le> x then INT_MAX else if x \<le> of_int INT_MIN then INT_MIN else truncate x)"
| "saturate (Infinity neg) = (if neg then INT_MIN else INT_MAX)"

definition number_char :: "u8 \<Rightarrow> bool" where
  "number_char c \<longleftrightarrow> is_digit c \<or> c = 43 \<or> c = 45 \<or> c = 101 \<or> c = 69 \<or> c = 46"

definition number_c_string :: "parse_buffer \<Rightarrow> u8 list" where
  "number_c_string b = takeWhile number_char (take 63 (drop (pb_offset b) (pb_content b)))"

definition parse_number :: "cJSON \<Rightarrow> parse_buffer \<Rightarrow> cJSON option \<times> parse_buffer" where
  "parse_number item b =
     (case strtod (number_c_string b) of
        (number, used) \<Rightarrow>
          if used = 0 then (None, b)
          else
            (Some (set_type cJSON_Number (set_valueint (saturate number) (set_valuedouble number item))),
             advance used b))"

section \<open>Strings\<close>

definition hex_digit :: "u8 \<Rightarrow> u32 option" where
  "hex_digit c =
     (if 48 \<le> c \<and> c \<le> 57 then Some (ucast c - 48)
      else if 65 \<le> c \<and> c \<le> 70 then Some (10 + ucast c - 65)
      else if 97 \<le> c \<and> c \<le> 102 then Some (10 + ucast c - 97)
      else None)"

fun parse_hex4_loop :: "u8 list \<Rightarrow> nat \<Rightarrow> u32 \<Rightarrow> u32" where
  "parse_hex4_loop [] i h = h"
| "parse_hex4_loop (c # cs) i h =
     (case hex_digit c of
        None \<Rightarrow> 0
      | Some d \<Rightarrow> let h = h + d in parse_hex4_loop cs (i + 1) (if i < 3 then push_bit 4 h else h))"

definition parse_hex4 :: "u8 list \<Rightarrow> u32" where
  "parse_hex4 cs = parse_hex4_loop (take 4 cs) 0 0"

text \<open>The bytes of a code point, the last ones first; \<open>cp\<close> loses six bits with each.\<close>

primrec utf8_tail :: "nat \<Rightarrow> u64 \<Rightarrow> u8 list \<Rightarrow> u64 \<times> u8 list" where
  "utf8_tail 0 cp acc = (cp, acc)"
| "utf8_tail (Suc n) cp acc = utf8_tail n (drop_bit 6 cp) (ucast ((cp OR 0x80) AND 0xBF) # acc)"

definition encode_utf8 :: "u64 \<Rightarrow> u8 list option" where
  "encode_utf8 cp =
     (let encode = (\<lambda>len mark.
        case utf8_tail (len - 1) cp [] of
          (cp, tail) \<Rightarrow> ucast (if len > 1 then (cp OR mark) AND 0xFF else cp AND 0x7F) # tail)
      in if cp < 0x80 then Some (encode 1 0)
         else if cp < 0x800 then Some (encode 2 0xC0)
         else if cp < 0x10000 then Some (encode 3 0xE0)
         else if cp \<le> 0x10FFFF then Some (encode 4 0xF0)
         else None)"

definition surrogate_pair :: "u32 \<Rightarrow> u32 \<Rightarrow> u64" where
  "surrogate_pair hi lo = ucast (0x10000 + (push_bit 10 (hi AND 0x3FF) OR (lo AND 0x3FF)))"

text \<open>\<open>None\<close> is the return value 0; otherwise the bytes written and the length of the sequence.\<close>

definition utf16_literal_to_utf8 :: "u8 list \<Rightarrow> nat \<Rightarrow> nat \<Rightarrow> (u8 list \<times> nat) option" where
  "utf16_literal_to_utf8 xs p input_end =
     (if input_end - p < 6 then None
      else
        let first_code = parse_hex4 (drop (p + 2) xs)
        in if 0xDC00 \<le> first_code \<and> first_code \<le> 0xDFFF then None
           else if 0xD800 \<le> first_code \<and> first_code \<le> 0xDBFF
           then
             (if input_end - (p + 6) < 6 then None
              else if xs ! (p + 6) \<noteq> 92 \<or> xs ! (p + 7) \<noteq> 117 then None
              else
                let second_code = parse_hex4 (drop (p + 8) xs)
                in if second_code < 0xDC00 \<or> 0xDFFF < second_code then None
                   else map_option (\<lambda>bs. (bs, 12)) (encode_utf8 (surrogate_pair first_code second_code)))
           else map_option (\<lambda>bs. (bs, 6)) (encode_utf8 (ucast first_code)))"

text \<open>The first pass: the position of the closing quote and the number of escape sequences.\<close>

function scan_string :: "u8 list \<Rightarrow> nat \<Rightarrow> nat \<Rightarrow> (nat \<times> nat) option" where
  "scan_string xs input_end skipped_bytes =
     (if input_end < length xs \<and> xs ! input_end \<noteq> 34
      then
        if xs ! input_end = 92
        then
          if length xs \<le> input_end + 1 then None
          else scan_string xs (input_end + 2) (skipped_bytes + 1)
        else scan_string xs (input_end + 1) skipped_bytes
      else if length xs \<le> input_end then None
      else Some (input_end, skipped_bytes))"
  by pat_completeness auto
termination by (relation "measure (\<lambda>(xs, i, k). length xs - i)") auto

declare scan_string.simps [simp del]

definition simple_escape :: "u8 \<Rightarrow> u8 option" where
  "simple_escape c =
     (if c = 98 then Some 8 else if c = 102 then Some 12 else if c = 110 then Some 10
      else if c = 114 then Some 13 else if c = 116 then Some 9
      else if c = 34 \<or> c = 92 \<or> c = 47 then Some c else None)"

text \<open>Storing through \<open>output_pointer\<close> in the block of \<open>alloc\<close> bytes.\<close>

definition emit :: "nat \<Rightarrow> u8 list \<Rightarrow> u8 list \<Rightarrow> crash + u8 list" where
  "emit alloc out cs = (if length out + length cs \<le> alloc then Inr (out @ cs) else Inl OutOfBounds)"

text \<open>The second pass: the bytes of the string, or failure, and where the input pointer stands.\<close>

function unescape :: "u8 list \<Rightarrow> nat \<Rightarrow> nat \<Rightarrow> nat \<Rightarrow> u8 list \<Rightarrow> crash + u8 list option \<times> nat" where
  "unescape xs input_end alloc p out =
     (if p < input_end
      then
        andThen (read_at xs p) (\<lambda>c.
          if c \<noteq> 92
          then andThen (emit alloc out [c]) (\<lambda>out. unescape xs input_end alloc (p + 1) out)
          else
            andThen (read_at xs (p + 1)) (\<lambda>c.
              if c = 117
              then
                (case utf16_literal_to_utf8 xs p input_end of
                   None \<Rightarrow> Inr (None, p)
                 | Some (bs, n) \<Rightarrow>
                     if n = 0 then Inr (None, p)
                     else andThen (emit alloc out bs) (\<lambda>out. unescape xs input_end alloc (p + n) out))
              else
                (case simple_escape c of
                   None \<Rightarrow> Inr (None, p)
                 | Some d \<Rightarrow> andThen (emit alloc out [d]) (\<lambda>out. unescape xs input_end alloc (p + 2) out))))
      else andThen (emit alloc out [0]) (\<lambda>_. Inr (Some out, p)))"
  by pat_completeness auto
termination by (relation "measure (\<lambda>(xs, e, a, p, out). e - p)") auto

declare unescape.simps [simp del]

definition parse_string :: "cJSON \<Rightarrow> parse_buffer \<Rightarrow> crash + cJSON option \<times> parse_buffer" where
  "parse_string item b =
     (let xs = pb_content b; p = pb_offset b + 1
      in andThen (read_at xs (pb_offset b)) (\<lambda>c.
           if c \<noteq> 34 then Inr (None, b\<lparr>pb_offset := p\<rparr>)
           else
             case scan_string xs p 0 of
               None \<Rightarrow> Inr (None, b\<lparr>pb_offset := p\<rparr>)
             | Some (input_end, skipped_bytes) \<Rightarrow>
                 let allocation_length = input_end - pb_offset b - skipped_bytes
                 in andThen (unescape xs input_end (allocation_length + 1) p []) (\<lambda>(r, p).
                      case r of
                        None \<Rightarrow> Inr (None, b\<lparr>pb_offset := p\<rparr>)
                      | Some out \<Rightarrow>
                          Inr (Some (set_valuestring (Some out) (set_type cJSON_String item)),
                               b\<lparr>pb_offset := input_end + 1\<rparr>))))"

lemma skip_spaces_ge: "i \<le> skip_spaces xs i"
proof (induction xs i rule: skip_spaces.induct)
  case (1 xs i)
  then show ?case by (subst skip_spaces.simps) (auto dest: Suc_leD)
qed

lemma skip_spaces_le: "i \<le> length xs \<Longrightarrow> skip_spaces xs i \<le> length xs"
proof (induction xs i rule: skip_spaces.induct)
  case (1 xs i)
  then show ?case by (subst skip_spaces.simps) auto
qed

text \<open>A step of the parser keeps the input and never moves the offset back.\<close>

definition forward :: "parse_buffer \<Rightarrow> parse_buffer \<Rightarrow> bool" where
  "forward b b' \<longleftrightarrow> pb_content b' = pb_content b \<and> pb_offset b \<le> pb_offset b'"

lemma forward_trans: "forward a b \<Longrightarrow> forward b c \<Longrightarrow> forward a c"
  by (simp add: forward_def)

lemma forward_advance: "forward b (advance n b)"
  by (simp add: forward_def advance_def)

lemma forward_skip: "forward b (buffer_skip_whitespace b)"
proof -
  have "skip_spaces (pb_content b) (pb_offset b) \<noteq> length (pb_content b)"
    if "skip_spaces (pb_content b) (pb_offset b) = pb_offset b" "pb_offset b < length (pb_content b)"
    using that by simp
  then show ?thesis using skip_spaces_ge [of "pb_offset b" "pb_content b"]
    by (auto simp: forward_def buffer_skip_whitespace_def can_access_at_index_def Let_def)
qed

lemma scan_string_bounds:
  "scan_string xs i k = Some (e, k') \<Longrightarrow> i \<le> e \<and> e < length xs \<and> xs ! e = 34"
proof (induction xs i k rule: scan_string.induct)
  case (1 xs i k)
  from "1.prems" "1.IH" show ?case
    by (subst (asm) scan_string.simps) (auto split: if_splits)
qed

lemma parse_string_forward:
  "parse_string item b = Inr (Some it, b') \<Longrightarrow> forward b b'"
  by (auto simp: parse_string_def Let_def forward_def split: if_splits option.splits prod.splits dest!: scan_string_bounds)

lemma parse_number_forward: "parse_number item b = (r, b') \<Longrightarrow> forward b b'"
  by (auto simp: parse_number_def forward_def advance_def split: prod.splits if_splits)

section \<open>Values\<close>

definition json_null :: "u8 list" where "json_null = [110, 117, 108, 108]"
definition json_false :: "u8 list" where "json_false = [102, 97, 108, 115, 101]"
definition json_true :: "u8 list" where "json_true = [116, 114, 117, 101]"

text \<open>The label \<open>success\<close> of \<open>parse_array\<close> and \<open>parse_object\<close>.\<close>

definition parsed_children ::
  "u32 \<Rightarrow> cJSON \<Rightarrow> cJSON list option \<times> parse_buffer \<Rightarrow> cJSON option \<times> parse_buffer" where
  "parsed_children t item = (\<lambda>(r, b).
     case r of
       None \<Rightarrow> (None, b)
     | Some ch \<Rightarrow> (Some (set_child ch (set_type t item)), advance 1 (b\<lparr>pb_depth := pb_depth b - 1\<rparr>)))"

lemma parsed_children_forward:
  "parsed_children t item (r, b) = (Some it, b') \<Longrightarrow> \<exists>ch. r = Some ch \<and> forward b b'"
  by (auto simp: parsed_children_def forward_def advance_def split: option.splits)

lemma member_forward:
  assumes "parse_string cJSON_New_Item (buffer_skip_whitespace b) = Inr x" "fst x = Some it"
  shows "forward b (buffer_skip_whitespace (advance 1 (buffer_skip_whitespace (snd x))))"
proof -
  have "forward (buffer_skip_whitespace b) (snd x)"
    using assms parse_string_forward [of _ _ it "snd x"] by (cases x) simp
  then show ?thesis using forward_skip forward_advance forward_trans by meson
qed

text \<open>The end of a round of the loops in \<open>parse_array\<close> and \<open>parse_object\<close>, with \<open>again\<close> for the next round.\<close>

lemma item_tail_forward:
  assumes "(case fst rb of
       None \<Rightarrow> Inr (None, snd rb)
     | Some it \<Rightarrow>
         let b = buffer_skip_whitespace (snd rb); acc = acc @ [it]
         in if at_is b 44 then again acc (advance 1 b)
            else if at_is b close then Inr (Some acc, b)
            else Inr (None, b)) = Inr (Some ch, b')"
    and "\<And>it. fst rb = Some it \<Longrightarrow> forward b (snd rb)"
    and "\<And>it. fst rb = Some it \<Longrightarrow> at_is (buffer_skip_whitespace (snd rb)) 44 \<Longrightarrow>
      again (acc @ [it]) (advance 1 (buffer_skip_whitespace (snd rb))) = Inr (Some ch, b') \<Longrightarrow>
      forward (advance 1 (buffer_skip_whitespace (snd rb))) b'"
  shows "forward b b'"
proof -
  obtain it where it: "fst rb = Some it" using assms(1) by (cases "fst rb") auto
  have f: "forward b (buffer_skip_whitespace (snd rb))"
    using assms(2) [OF it] forward_skip forward_trans by blast
  show ?thesis
  proof (cases "at_is (buffer_skip_whitespace (snd rb)) 44")
    case True
    with assms(1) it have "forward (advance 1 (buffer_skip_whitespace (snd rb))) b'"
      by (intro assms(3) [OF it]) (simp_all add: Let_def)
    then show ?thesis using f forward_advance forward_trans by meson
  next
    case False
    with assms(1) it f show ?thesis by (auto simp: Let_def split: if_splits)
  qed
qed

lemma forward_opened: "forward b (buffer_skip_whitespace (advance 1 (b\<lparr>pb_depth := d\<rparr>)))"
  using forward_skip [of "advance 1 (b\<lparr>pb_depth := d\<rparr>)"] by (simp add: forward_def advance_def)

text \<open>The input that is left: it shrinks with every call, as a closed item ends behind its start.\<close>

definition left_to_parse :: "nat \<Rightarrow> parse_buffer \<Rightarrow> nat" where
  "left_to_parse rank b = 3 * (length (pb_content b) - pb_offset b) + rank"

lemma left_to_parse_inside:
  assumes "forward b b'" "pb_offset b < length (pb_content b)" "r' < 3"
  shows "left_to_parse r' (buffer_skip_whitespace (advance 1 b')) < left_to_parse r b"
proof -
  have "forward b (buffer_skip_whitespace (advance 1 b'))" "pb_offset b < pb_offset (buffer_skip_whitespace (advance 1 b'))"
    using assms(1) forward_skip [of "advance 1 b'"] by (auto simp: forward_def advance_def)
  then show ?thesis using assms(2,3) by (auto simp: forward_def left_to_parse_def)
qed

lemma left_to_parse_mono: "forward b b' \<Longrightarrow> r' < r \<Longrightarrow> left_to_parse r' b' < left_to_parse r b"
  by (auto simp: forward_def left_to_parse_def)

lemma left_to_parse_next: "forward b b' \<Longrightarrow> at_is b' c \<Longrightarrow> left_to_parse r (advance 1 b') < left_to_parse r b"
  by (auto simp: forward_def left_to_parse_def at_is_def can_access_at_index_def advance_def)

function parse_value :: "cJSON \<Rightarrow> parse_buffer \<Rightarrow> crash + cJSON option \<times> parse_buffer"
  and parse_array :: "cJSON \<Rightarrow> parse_buffer \<Rightarrow> crash + cJSON option \<times> parse_buffer"
  and parse_elements :: "cJSON list \<Rightarrow> parse_buffer \<Rightarrow> crash + cJSON list option \<times> parse_buffer"
  and parse_object :: "cJSON \<Rightarrow> parse_buffer \<Rightarrow> crash + cJSON option \<times> parse_buffer"
  and parse_members :: "cJSON list \<Rightarrow> parse_buffer \<Rightarrow> crash + cJSON list option \<times> parse_buffer" where
  "parse_value item b =
     (if looking_at b json_null then Inr (Some (set_type cJSON_NULL item), advance 4 b)
      else if looking_at b json_false then Inr (Some (set_type cJSON_False item), advance 5 b)
      else if looking_at b json_true then Inr (Some (set_valueint 1 (set_type cJSON_True item)), advance 4 b)
      else if at_is b 34 then parse_string item b
      else if at_is b 45 \<or> (can_access_at_index b 0 \<and> is_digit (pb_content b ! pb_offset b))
      then Inr (parse_number item b)
      else if at_is b 91 then parse_array item b
      else if at_is b 123 then parse_object item b
      else Inr (None, b))"
| "parse_array item b =
     (if CJSON_NESTING_LIMIT \<le> pb_depth b then Inr (None, b)
      else
        andThen (read_at (pb_content b) (pb_offset b)) (\<lambda>c.
          let b = b\<lparr>pb_depth := pb_depth b + 1\<rparr>
          in if c \<noteq> 91 then Inr (None, b)
             else
               let b = buffer_skip_whitespace (advance 1 b)
               in if at_is b 93 then Inr (parsed_children cJSON_Array item (Some [], b))
                  else if \<not> can_access_at_index b 0 then Inr (None, b\<lparr>pb_offset := pb_offset b - 1\<rparr>)
                  else andThen (parse_elements [] b) (\<lambda>r. Inr (parsed_children cJSON_Array item r))))"
| "parse_elements acc b =
     andThen (parse_value cJSON_New_Item (buffer_skip_whitespace b)) (\<lambda>rb.
       case fst rb of
         None \<Rightarrow> Inr (None, snd rb)
       | Some it \<Rightarrow>
           let b = buffer_skip_whitespace (snd rb); acc = acc @ [it]
           in if at_is b 44 then parse_elements acc (advance 1 b)
              else if at_is b 93 then Inr (Some acc, b)
              else Inr (None, b))"
| "parse_object item b =
     (if CJSON_NESTING_LIMIT \<le> pb_depth b then Inr (None, b)
      else
        let b = b\<lparr>pb_depth := pb_depth b + 1\<rparr>
        in if \<not> at_is b 123 then Inr (None, b)
           else
             let b = buffer_skip_whitespace (advance 1 b)
             in if at_is b 125 then Inr (parsed_children cJSON_Object item (Some [], b))
                else if \<not> can_access_at_index b 0 then Inr (None, b\<lparr>pb_offset := pb_offset b - 1\<rparr>)
                else andThen (parse_members [] b) (\<lambda>r. Inr (parsed_children cJSON_Object item r)))"
| "parse_members acc b =
     andThen (parse_string cJSON_New_Item (buffer_skip_whitespace b)) (\<lambda>rb.
       case fst rb of
         None \<Rightarrow> Inr (None, snd rb)
       | Some it \<Rightarrow>
           let b = buffer_skip_whitespace (snd rb);
               it = set_valuestring None (set_string (item_valuestring it) it)
           in if \<not> at_is b 58 then Inr (None, b)
              else
                andThen (parse_value it (buffer_skip_whitespace (advance 1 b))) (\<lambda>rb.
                  case fst rb of
                    None \<Rightarrow> Inr (None, snd rb)
                  | Some it \<Rightarrow>
                      let b = buffer_skip_whitespace (snd rb); acc = acc @ [it]
                      in if at_is b 44 then parse_members acc (advance 1 b)
                         else if at_is b 125 then Inr (Some acc, b)
                         else Inr (None, b)))"
  by pat_completeness auto
termination
proof -
  have fwd: "parse_value_parse_array_parse_elements_parse_object_parse_members_dom (Inl (Inl (item, b))) \<Longrightarrow> parse_value item b = Inr (Some it, b') \<Longrightarrow> forward b b'"
    "parse_value_parse_array_parse_elements_parse_object_parse_members_dom (Inl (Inr (item, b))) \<Longrightarrow> parse_array item b = Inr (Some it, b') \<Longrightarrow> forward b b'"
    "parse_value_parse_array_parse_elements_parse_object_parse_members_dom (Inr (Inl (acc, b))) \<Longrightarrow> parse_elements acc b = Inr (Some ch, b') \<Longrightarrow> forward b b'"
    "parse_value_parse_array_parse_elements_parse_object_parse_members_dom (Inr (Inr (Inl (item, b)))) \<Longrightarrow> parse_object item b = Inr (Some it, b') \<Longrightarrow> forward b b'"
    "parse_value_parse_array_parse_elements_parse_object_parse_members_dom (Inr (Inr (Inr (acc, b)))) \<Longrightarrow> parse_members acc b = Inr (Some ch, b') \<Longrightarrow> forward b b'"
    for item b it b' acc ch
  proof (induction item b and item b and acc b and item b and acc b
      arbitrary: it b' and it b' and ch b' and it b' and ch b' rule: parse_value_parse_array_parse_elements_parse_object_parse_members.pinduct)
    case (1 item b)
    from "1.prems" show ?case
      by (simp add: parse_value.psimps [OF "1.hyps"] split: if_splits)
        (auto simp: forward_advance intro: parse_string_forward parse_number_forward "1.IH")
  next
    case (2 item b)
    from "2.prems" show ?case
      using forward_opened [of b "pb_depth b + 1"] "2.IH"
      by (auto simp: parse_array.psimps [OF "2.hyps"] Let_def split: if_splits dest!: parsed_children_forward)
        (meson forward_trans)+
  next
    case (3 acc b)
    from "3.prems" obtain rb where v: "parse_value cJSON_New_Item (buffer_skip_whitespace b) = Inr rb"
      and t: "(case fst rb of None \<Rightarrow> Inr (None, snd rb) | Some it \<Rightarrow>
        let b = buffer_skip_whitespace (snd rb); acc = acc @ [it]
        in if at_is b 44 then parse_elements acc (advance 1 b)
           else if at_is b 93 then Inr (Some acc, b) else Inr (None, b)) = Inr (Some ch, b')"
      by (auto simp: parse_elements.psimps [OF "3.hyps"])
    show ?case
    proof (rule item_tail_forward [OF t])
      show "forward b (snd rb)" if "fst rb = Some it" for it
        using "3.IH"(1) [of it "snd rb"] v that forward_trans [OF forward_skip] by (cases rb) simp
    qed (use "3.IH"(2) [OF v _ refl refl] in blast)
  next
    case (4 item b)
    from "4.prems" show ?case
      using forward_opened [of b "pb_depth b + 1"] "4.IH"
      by (auto simp: parse_object.psimps [OF "4.hyps"] Let_def split: if_splits dest!: parsed_children_forward)
        (meson forward_trans)+
  next
    case (5 acc b)
    from "5.prems" obtain it1 b1 where p: "parse_string cJSON_New_Item (buffer_skip_whitespace b) = Inr (Some it1, b1)"
      and c: "at_is (buffer_skip_whitespace b1) 58"
      by (simp add: parse_members.psimps [OF "5.hyps"] split_paired_Ex) (auto simp: Let_def split: option.splits if_splits)
    let ?b = "buffer_skip_whitespace (advance 1 (buffer_skip_whitespace b1))"
    let ?it = "set_valuestring None (set_string (item_valuestring it1) it1)"
    from "5.prems" p c obtain rb where v: "parse_value ?it ?b = Inr rb"
      and t: "(case fst rb of None \<Rightarrow> Inr (None, snd rb) | Some it \<Rightarrow>
        let b = buffer_skip_whitespace (snd rb); acc = acc @ [it]
        in if at_is b 44 then parse_members acc (advance 1 b)
           else if at_is b 125 then Inr (Some acc, b) else Inr (None, b)) = Inr (Some ch, b')"
      by (simp add: parse_members.psimps [OF "5.hyps"]) (auto simp: Let_def)
    have f: "forward b ?b" using member_forward [OF p] by simp
    note ih = "5.IH" [of "(Some it1, b1)" it1 "buffer_skip_whitespace b1" ?it]
    show ?case
    proof (rule item_tail_forward [OF t])
      show "forward b (snd rb)" if "fst rb = Some it" for it
        using ih(1) [of it "snd rb"] p c v that forward_trans [OF f] by (cases rb) simp
    qed (use ih(2) [OF _ _ _ _ _ v] p c in simp)
  qed
  show ?thesis
  proof (relation "measure (case_sum
      (case_sum (\<lambda>(_, b). left_to_parse 1 b) (\<lambda>(_, b). left_to_parse 0 b))
      (case_sum (\<lambda>(_, b). left_to_parse 2 b)
        (case_sum (\<lambda>(_, b). left_to_parse 0 b) (\<lambda>(_, b). left_to_parse 2 b))))", goal_cases)
    case (4 item b x xa xb)
    then show ?case
      using left_to_parse_inside [of b xa 2 0] by (simp add: read_at_def forward_def split: if_splits)
  next
    case (5 acc b)
    show ?case using left_to_parse_mono [OF forward_skip, of 1 2 b] by simp
  next
    case (6 acc b x it xa xb)
    then have "forward (buffer_skip_whitespace b) (snd x)" using fwd(1) [of _ _ it "snd x"] by (cases x) auto
    then have "forward b xa" using 6 forward_skip forward_trans by blast
    then show ?case using 6 left_to_parse_next by simp
  next
    case (7 item b x xa)
    then show ?case
      using left_to_parse_inside [of b x 2 0] by (simp add: at_is_def can_access_at_index_def forward_def)
  next
    case (8 acc b x it xa xb)
    then have "forward b (buffer_skip_whitespace (advance 1 xa))" using member_forward [of b x it] by simp
    then show ?case using left_to_parse_mono by simp
  next
    case (9 acc b x it xa xb xc it2 xd xe)
    then have "forward b (buffer_skip_whitespace (advance 1 xa))" using member_forward [of b x it] by simp
    moreover have "forward (buffer_skip_whitespace (advance 1 xa)) (snd xc)"
      using 9 fwd(1) [of _ _ it2 "snd xc"] by (cases xc) auto
    ultimately have "forward b xd" using 9 forward_skip forward_trans by meson
    then show ?case using 9 left_to_parse_next by simp
  qed (simp_all add: left_to_parse_def)
qed

declare parse_value.simps [simp del] parse_array.simps [simp del] parse_elements.simps [simp del]
  parse_object.simps [simp del] parse_members.simps [simp del]

lemmas parse_induct = parse_value_parse_array_parse_elements_parse_object_parse_members.induct

section \<open>The entry points\<close>

text \<open>
  A call returns the item or a null pointer, the offset stored through \<open>return_parse_end\<close> and the offset in \<open>global_error\<close>
  (\<open>None\<close>: that variable holds a null pointer, or nothing is stored).
\<close>

type_synonym parse_result = "cJSON option \<times> nat option \<times> nat option"

definition error_position :: "parse_buffer \<Rightarrow> nat" where
  "error_position b =
     (if pb_offset b < length (pb_content b) then pb_offset b else length (pb_content b) - 1)"

definition parse_failed :: "parse_buffer \<Rightarrow> parse_result" where
  "parse_failed b = (None, Some (error_position b), Some (error_position b))"

definition cJSON_ParseWithLengthOpts :: "u8 list option \<Rightarrow> bool \<Rightarrow> crash + parse_result" where
  "cJSON_ParseWithLengthOpts value require_null_terminated =
     (case value of
        None \<Rightarrow> Inr (None, None, None)
      | Some content \<Rightarrow>
          let b = \<lparr>pb_content = content, pb_offset = 0, pb_depth = 0\<rparr>
          in if content = [] then Inr (parse_failed b)
             else
               case skip_utf8_bom b of
                 None \<Rightarrow> Inr (parse_failed b)
               | Some b \<Rightarrow>
                   andThen (parse_value cJSON_New_Item (buffer_skip_whitespace b)) (\<lambda>(r, b).
                     case r of
                       None \<Rightarrow> Inr (parse_failed b)
                     | Some item \<Rightarrow>
                         let b = (if require_null_terminated then buffer_skip_whitespace b else b)
                         in if require_null_terminated \<and> \<not> at_is b 0 then Inr (parse_failed b)
                            else Inr (Some item, Some (pb_offset b), None)))"

text \<open>\<open>strlen\<close> reads until it meets a terminator; a block without one makes it run past the end.\<close>

definition cJSON_ParseWithOpts :: "u8 list option \<Rightarrow> bool \<Rightarrow> crash + parse_result" where
  "cJSON_ParseWithOpts value require_null_terminated =
     (case value of
        None \<Rightarrow> Inr (None, None, None)
      | Some block \<Rightarrow>
          (case cstr_of block of
             None \<Rightarrow> Inl OutOfBounds
           | Some s \<Rightarrow> cJSON_ParseWithLengthOpts (Some (cstring s)) require_null_terminated))"

definition cJSON_Parse :: "u8 list option \<Rightarrow> crash + cJSON option" where
  "cJSON_Parse value = map_sum id fst (cJSON_ParseWithOpts value False)"

definition cJSON_ParseWithLength :: "u8 list option \<Rightarrow> crash + cJSON option" where
  "cJSON_ParseWithLength value = map_sum id fst (cJSON_ParseWithLengthOpts value False)"

section \<open>Reading a tree\<close>

text \<open>What a C function sees of a stored string: the bytes before the first terminator.\<close>

definition cview :: "u8 list \<Rightarrow> u8 list" where
  "cview s = takeWhile (\<lambda>c. c \<noteq> 0) s"

definition tolower :: "u8 \<Rightarrow> u8" where
  "tolower c = (if 65 \<le> c \<and> c \<le> 90 then c + 32 else c)"

fun strcmp_tolower :: "u8 list \<Rightarrow> u8 list \<Rightarrow> int" where
  "strcmp_tolower [] [] = 0"
| "strcmp_tolower [] (d # ds) = - uint (tolower d)"
| "strcmp_tolower (c # cs) [] = uint (tolower c)"
| "strcmp_tolower (c # cs) (d # ds) =
     (if tolower c = tolower d then strcmp_tolower cs ds else uint (tolower c) - uint (tolower d))"

definition case_insensitive_strcmp :: "u8 list option \<Rightarrow> u8 list option \<Rightarrow> int" where
  "case_insensitive_strcmp s t =
     (case (s, t) of (Some s, Some t) \<Rightarrow> strcmp_tolower (cview s) (cview t) | _ \<Rightarrow> 1)"

fun first_named :: "u8 list \<Rightarrow> cJSON list \<Rightarrow> cJSON option" where
  "first_named name [] = None"
| "first_named name (c # cs) =
     (case item_string c of
        None \<Rightarrow> None
      | Some s \<Rightarrow> if cview name = cview s then Some c else first_named name cs)"

fun first_named_nocase :: "u8 list \<Rightarrow> cJSON list \<Rightarrow> cJSON option" where
  "first_named_nocase name [] = None"
| "first_named_nocase name (c # cs) =
     (if case_insensitive_strcmp (Some name) (item_string c) = 0
      then (if item_string c = None then None else Some c)
      else first_named_nocase name cs)"

definition get_object_item :: "cJSON option \<Rightarrow> u8 list option \<Rightarrow> bool \<Rightarrow> cJSON option" where
  "get_object_item object name case_sensitive =
     (case (object, name) of
        (Some object, Some name) \<Rightarrow>
          if case_sensitive then first_named name (item_child object)
          else first_named_nocase name (item_child object)
      | _ \<Rightarrow> None)"

definition cJSON_GetObjectItem :: "cJSON option \<Rightarrow> u8 list option \<Rightarrow> cJSON option" where
  "cJSON_GetObjectItem object name = get_object_item object name False"

definition cJSON_GetObjectItemCaseSensitive :: "cJSON option \<Rightarrow> u8 list option \<Rightarrow> cJSON option" where
  "cJSON_GetObjectItemCaseSensitive object name = get_object_item object name True"

definition cJSON_HasObjectItem :: "cJSON option \<Rightarrow> u8 list option \<Rightarrow> bool" where
  "cJSON_HasObjectItem object name \<longleftrightarrow> cJSON_GetObjectItem object name \<noteq> None"

definition cJSON_GetArraySize :: "cJSON option \<Rightarrow> int" where
  "cJSON_GetArraySize array =
     (case array of None \<Rightarrow> 0 | Some a \<Rightarrow> sint (of_nat (length (item_child a)) :: u32))"

fun get_array_item :: "cJSON list \<Rightarrow> nat \<Rightarrow> cJSON option" where
  "get_array_item [] index = None"
| "get_array_item (c # cs) index = (if 0 < index then get_array_item cs (index - 1) else Some c)"

definition cJSON_GetArrayItem :: "cJSON option \<Rightarrow> int \<Rightarrow> cJSON option" where
  "cJSON_GetArrayItem array index =
     (if index < 0 then None
      else case array of None \<Rightarrow> None | Some a \<Rightarrow> get_array_item (item_child a) (nat index))"

definition has_type :: "u32 \<Rightarrow> cJSON option \<Rightarrow> bool" where
  "has_type t item = (case item of None \<Rightarrow> False | Some i \<Rightarrow> item_type i AND 0xFF = t)"

definition cJSON_IsInvalid :: "cJSON option \<Rightarrow> bool" where "cJSON_IsInvalid = has_type cJSON_Invalid"
definition cJSON_IsFalse :: "cJSON option \<Rightarrow> bool" where "cJSON_IsFalse = has_type cJSON_False"
definition cJSON_IsTrue :: "cJSON option \<Rightarrow> bool" where "cJSON_IsTrue = has_type cJSON_True"
definition cJSON_IsNull :: "cJSON option \<Rightarrow> bool" where "cJSON_IsNull = has_type cJSON_NULL"
definition cJSON_IsNumber :: "cJSON option \<Rightarrow> bool" where "cJSON_IsNumber = has_type cJSON_Number"
definition cJSON_IsString :: "cJSON option \<Rightarrow> bool" where "cJSON_IsString = has_type cJSON_String"
definition cJSON_IsArray :: "cJSON option \<Rightarrow> bool" where "cJSON_IsArray = has_type cJSON_Array"
definition cJSON_IsObject :: "cJSON option \<Rightarrow> bool" where "cJSON_IsObject = has_type cJSON_Object"
definition cJSON_IsRaw :: "cJSON option \<Rightarrow> bool" where "cJSON_IsRaw = has_type cJSON_Raw"

definition cJSON_IsBool :: "cJSON option \<Rightarrow> bool" where
  "cJSON_IsBool item =
     (case item of None \<Rightarrow> False | Some i \<Rightarrow> item_type i AND (cJSON_True OR cJSON_False) \<noteq> 0)"

definition cJSON_GetStringValue :: "cJSON option \<Rightarrow> u8 list option" where
  "cJSON_GetStringValue item = (if cJSON_IsString item then item_valuestring (the item) else None)"

lemmas cJSON_Is_defs = cJSON_IsInvalid_def cJSON_IsFalse_def cJSON_IsTrue_def cJSON_IsNull_def
  cJSON_IsNumber_def cJSON_IsString_def cJSON_IsArray_def cJSON_IsObject_def cJSON_IsRaw_def cJSON_IsBool_def

end
