(* ===== verification/CJsonProps.thy ===== *)
theory CJsonProps
  imports CJson
begin

text \<open>
  The parser of JSON text is safe: on a terminated string it reads inside the string, the block it allocates for a
  string value is never overrun, and what it returns is a tree of items whose fields agree with their
  type and whose nesting is bounded.
\<close>

section \<open>The output block of a string\<close>

text \<open>The escape sequences that the first pass meets before position \<open>p\<close>.\<close>

function begun :: "u8 list \<Rightarrow> nat \<Rightarrow> nat \<Rightarrow> nat" where
  "begun xs i p =
     (if i < p then if xs ! i = 92 then Suc (begun xs (i + 2) p) else begun xs (i + 1) p else 0)"
  by pat_completeness auto
termination by (relation "measure (\<lambda>(xs, i, p). p - i)") auto

declare begun.simps [simp del]

lemma scan_string_begun: "scan_string xs i k = Some (e, k') \<Longrightarrow> k' = k + begun xs i e"
proof (induction xs i k rule: scan_string.induct)
  case (1 xs i k)
  show ?case
  proof (cases "i < length xs \<and> xs ! i \<noteq> 34")
    case True
    show ?thesis
    proof (cases "xs ! i = 92")
      case e: True
      with True "1.prems" have n: "\<not> length xs \<le> i + 1" and p: "scan_string xs (i + 2) (k + 1) = Some (e, k')"
        by (subst (asm) scan_string.simps, simp split: if_splits)+
      have "i < e" using scan_string_bounds [OF p] by simp
      then show ?thesis using "1.IH"(1) [OF True e n p] e by (simp add: begun.simps [of xs i e])
    next
      case e: False
      with True "1.prems" have p: "scan_string xs (i + 1) k = Some (e, k')"
        by (subst (asm) scan_string.simps) simp
      have "i < e" using scan_string_bounds [OF p] by simp
      then show ?thesis using "1.IH"(2) [OF True e p] e by (simp add: begun.simps [of xs i e])
    qed
  next
    case False
    with "1.prems" show ?thesis
      by (subst (asm) scan_string.simps) (auto simp: begun.simps [of xs e e] split: if_splits)
  qed
qed

lemma begun_Suc: "begun xs i (Suc p) \<le> begun xs i p + (if xs ! p = 92 then 1 else 0)"
proof (induction xs i p rule: begun.induct)
  case (1 xs i p)
  have z: "begun xs (Suc i) (Suc i) = 0" "begun xs (Suc (Suc i)) (Suc i) = 0" by (simp_all add: begun.simps)
  consider "i < p" | "i = p" | "p < i" by linarith
  then show ?case
  proof cases
    case 1
    with "1.IH" show ?thesis by (auto simp: begun.simps [of xs i])
  next
    case 2
    with z show ?thesis by (simp add: begun.simps [of xs p "Suc p"] begun.simps [of xs p p])
  next
    case 3
    then show ?thesis by (simp add: begun.simps [of xs i])
  qed
qed

lemma begun_Suc2: "begun xs i (Suc (Suc p)) \<le> Suc (begun xs i p)"
proof (induction xs i p rule: begun.induct)
  case (1 xs i p)
  have z: "begun xs (Suc (Suc i)) (Suc (Suc i)) = 0" "begun xs (Suc (Suc (Suc i))) (Suc (Suc i)) = 0"
    "begun xs (Suc i) (Suc i) = 0" "begun xs (Suc (Suc i)) (Suc i) = 0"
    by (simp_all add: begun.simps)
  then have one: "begun xs (Suc i) (Suc (Suc i)) \<le> 1" by (simp add: begun.simps [of xs "Suc i"])
  consider "i < p" | "i = p" | "i = Suc p" | "Suc p < i" by linarith
  then show ?case
  proof cases
    case 1
    with "1.IH" show ?thesis by (auto simp: begun.simps [of xs i])
  next
    case 2
    with z one show ?thesis by (simp add: begun.simps [of xs p "Suc (Suc p)"] begun.simps [of xs p p])
  next
    case 3
    with z show ?thesis by (simp add: begun.simps [of xs "Suc p" "Suc (Suc p)"] begun.simps [of xs "Suc p" p])
  next
    case 4
    then show ?thesis by (simp add: begun.simps [of xs i])
  qed
qed

lemma begun_6: "begun xs i (p + 6) \<le> begun xs i p + 3"
  using begun_Suc2 [of xs i p] begun_Suc2 [of xs i "Suc (Suc p)"] begun_Suc2 [of xs i "Suc (Suc (Suc (Suc p)))"]
  by (simp add: eval_nat_numeral)

lemma begun_12: "begun xs i (p + 12) \<le> begun xs i p + 6"
  using begun_6 [of xs i p] begun_6 [of xs i "p + 6"] by (simp add: ac_simps)

lemma begun_gap: "p \<le> q \<Longrightarrow> begun xs i q \<le> begun xs i p + (q - p)"
proof (induction q)
  case (Suc q)
  show ?case
  proof (cases "p = Suc q")
    case False
    with Suc have "begun xs i q \<le> begun xs i p + (q - p)" by simp
    moreover have "begun xs i (Suc q) \<le> begun xs i q + 1" using begun_Suc [of xs i q] by (simp split: if_splits)
    ultimately show ?thesis using Suc.prems False by simp
  qed simp
qed simp

section \<open>Code points\<close>

lemma unat_ucast_byte: "unat (ucast (c :: u8) :: u32) = unat c"
proof -
  have "unat c < 2 ^ 8" using unsigned_less [of c] by simp
  then show ?thesis by (simp add: unsigned_ucast_eq take_bit_nat_eq_self)
qed

lemma hex_digit_bound: "hex_digit c = Some d \<Longrightarrow> unat d < 16"
  by (auto simp: hex_digit_def unat_ucast_byte word_le_nat_alt unat_sub_if_size unat_word_ariths split: if_splits)

lemma unat_push_nibble:
  assumes "unat h + 16 \<le> n" "n \<le> 65536" "unat d < 16"
  shows "unat (push_bit 4 (h + d) :: u32) + 16 \<le> 16 * n" "unat (h + d) < n"
proof -
  have u: "unat (h + d) = unat h + unat d" using assms by (subst unat_add_lem [THEN iffD1]) simp_all
  then show "unat (h + d) < n" using assms by simp
  have "push_bit 4 (h + d) = 16 * (h + d)" by (simp add: push_bit_eq_mult)
  moreover have "unat (16 * (h + d)) = 16 * unat (h + d)"
    using u assms by (subst unat_mult_lem [THEN iffD1]) simp_all
  ultimately show "unat (push_bit 4 (h + d) :: u32) + 16 \<le> 16 * n" using u assms by simp
qed

lemma parse_hex4_loop_bound:
  "i \<le> 3 \<Longrightarrow> unat h + 16 \<le> 16 ^ Suc i \<Longrightarrow> length cs \<le> 4 - i \<Longrightarrow> unat (parse_hex4_loop cs i h) < 65536"
proof (induction cs i h rule: parse_hex4_loop.induct)
  case (1 i h)
  have "(16 :: nat) ^ Suc i \<le> 16 ^ 4" using "1.prems"(1) by (intro power_increasing) simp_all
  with "1.prems"(2) show ?case by simp
next
  case (2 c cs i h)
  have le: "(16 :: nat) ^ Suc i \<le> 16 ^ 4" using "2.prems"(1) by (intro power_increasing) simp_all
  show ?case
  proof (cases "hex_digit c")
    case (Some d)
    note b = unat_push_nibble [OF "2.prems"(2) _ hex_digit_bound [OF Some]]
    show ?thesis
    proof (cases "i < 3")
      case True
      then show ?thesis using "2.IH" [OF Some refl] b(1) le "2.prems"(3) Some by simp
    next
      case False
      with "2.prems"(1,3) have "i = 3" "cs = []" by simp_all
      then show ?thesis using Some b(2) le by simp
    qed
  qed simp
qed

lemma parse_hex4_bound: "unat (parse_hex4 cs) < 65536"
  unfolding parse_hex4_def by (rule parse_hex4_loop_bound) simp_all

lemma length_utf8_tail: "length (snd (utf8_tail n cp acc)) = n + length acc"
  by (induction n arbitrary: cp acc) simp_all

lemma length_encode_utf8:
  "encode_utf8 cp = Some bs \<Longrightarrow> length bs \<le> (if cp < 0x10000 then 3 else 4)"
  by (auto simp: encode_utf8_def Let_def length_utf8_tail split: if_splits prod.splits
      dest!: arg_cong [where f = snd and x = "utf8_tail _ _ _"] arg_cong [where f = length])

lemma utf16_literal_length:
  assumes "utf16_literal_to_utf8 xs p e = Some (bs, n)"
  shows "p + n \<le> e \<and> (n = 6 \<and> length bs \<le> 3 \<or> n = 12 \<and> length bs \<le> 4)"
proof -
  have l4: "length bs \<le> 4" if "encode_utf8 cp = Some bs" for cp bs
    using length_encode_utf8 [OF that] by (simp split: if_splits)
  have l3: "length bs \<le> 3" if "encode_utf8 (ucast (parse_hex4 cs)) = Some bs" for cs bs
  proof -
    have "(ucast (parse_hex4 cs) :: u64) < 0x10000"
      using parse_hex4_bound [of cs] by (simp add: word_less_nat_alt unsigned_ucast_eq take_bit_nat_eq_self)
    then show ?thesis using length_encode_utf8 [OF that] by simp
  qed
  show ?thesis using assms l3 l4
    by (simp add: utf16_literal_to_utf8_def Let_def split: if_splits) (elim exE conjE, simp)+
qed

text \<open>
  The block that \<open>parse_string\<close> allocates is large enough: between \<open>start\<close> and \<open>p\<close> the output grows by no more than the
  bytes read minus the escape sequences the first pass counted.
\<close>

lemma begun_mono: "begun xs i p \<le> begun xs i (Suc p)"
proof (induction xs i p rule: begun.induct)
  case (1 xs i p)
  then show ?case by (auto simp: begun.simps [of xs i p] begun.simps [of xs i "Suc p"])
qed

lemma output_room:
  assumes "scan_string xs start 0 = Some (e, k)" "start \<le> q" "q \<le> Suc e" "n + begun xs start q \<le> q - start"
  shows "n < e + 2 - start - k"
proof -
  have k: "k = begun xs start e" using scan_string_begun [OF assms(1)] by simp
  have "start \<le> e" using scan_string_bounds [OF assms(1)] by simp
  show ?thesis
  proof (cases "q \<le> e")
    case True
    then show ?thesis using begun_gap [OF True, of xs start] assms(2,4) k by linarith
  next
    case False
    with assms(3) have q: "q = Suc e" by simp
    then show ?thesis using begun_mono [of xs start e] assms(4) [unfolded q] k \<open>start \<le> e\<close> by linarith
  qed
qed

lemma unescape_safe:
  assumes "scan_string xs start 0 = Some (e, k)" "a = e + 2 - start - k" "start \<le> p" "p \<le> Suc e"
    and "length out + begun xs start p \<le> p - start"
  shows "\<exists>r. unescape xs e a p out = Inr r"
  using assms
proof (induction xs e a p out rule: unescape.induct)
  case (1 xs e a p out)
  note scan = "1.prems"(1) and a = "1.prems"(2) and le = "1.prems"(3,4) and len = "1.prems"(5)
  have e: "e < length xs" using scan_string_bounds [OF scan] by simp
  have room: "length out + m < a" if "start \<le> q" "q \<le> Suc e" "length out + m + begun xs start q \<le> q - start" for m q
    using output_room [OF scan that] a by simp
  show ?case
  proof (cases "p < e")
    case False
    then show ?thesis using room [OF le, of 0] len by (subst unescape.simps) (simp add: emit_def)
  next
    case p: True
    then have rd: "read_at xs p = Inr (xs ! p)" "read_at xs (p + 1) = Inr (xs ! (p + 1))"
      using e by (simp_all add: read_at_def)
    have go: "\<exists>r. andThen (emit a out cs) (\<lambda>out. unescape xs e a (p + n) out) = Inr r"
      if n: "p + n \<le> Suc e" "length cs + begun xs start (p + n) \<le> begun xs start p + n"
        and ih: "emit a out cs = Inr (out @ cs) \<Longrightarrow> start \<le> p + n \<Longrightarrow> p + n \<le> Suc e \<Longrightarrow>
          length (out @ cs) + begun xs start (p + n) \<le> p + n - start \<Longrightarrow>
          \<exists>r. unescape xs e a (p + n) (out @ cs) = Inr r" for cs n
    proof -
      have l: "length (out @ cs) + begun xs start (p + n) \<le> p + n - start" using len n le by simp
      then have "emit a out cs = Inr (out @ cs)" using room [of "p + n" "length cs"] n le by (simp add: emit_def)
      with ih [OF _ _ n(1) l] le show ?thesis by simp
    qed
    show ?thesis
    proof (cases "xs ! p = 92")
      case False
      have "length [xs ! p] + begun xs start (p + 1) \<le> begun xs start p + 1"
        using begun_Suc [of xs start p] False by simp
      then show ?thesis
        using go [of 1 "[xs ! p]"] "1.IH"(1) [OF p rd(1) False] scan a p False rd
        by (subst unescape.simps) simp
    next
      case bs: True
      show ?thesis
      proof (cases "xs ! (p + 1) = 117")
        case u: True
        show ?thesis
        proof (cases "utf16_literal_to_utf8 xs p e")
          case None
          then show ?thesis using p rd bs u by (subst unescape.simps) simp
        next
          case (Some r)
          obtain cs n where r: "r = (cs, n)" by (cases r)
          note b = utf16_literal_length [OF Some [unfolded r]]
          then have "length cs + begun xs start (p + n) \<le> begun xs start p + n"
            using begun_6 [of xs start p] begun_12 [of xs start p] by auto
          then show ?thesis
            using go [of n cs] "1.IH"(2) [OF p rd(1) _ rd(2) u Some r [symmetric]] b scan a p rd bs u Some r
            by (subst unescape.simps) auto
        qed
      next
        case u: False
        show ?thesis
        proof (cases "simple_escape (xs ! (p + 1))")
          case None
          then show ?thesis using p rd bs u by (subst unescape.simps) simp
        next
          case (Some d)
          have "length [d] + begun xs start (p + 2) \<le> begun xs start p + 2"
            using begun_Suc2 [of xs start p] by simp
          then show ?thesis
            using go [of 2 "[d]"] "1.IH"(3) [OF p rd(1) _ rd(2) u Some] scan a p rd bs u Some
            by (subst unescape.simps) simp
        qed
      qed
    qed
  qed
qed

lemma parse_string_safe:
  assumes "can_access_at_index b 0"
  shows "\<exists>r. parse_string item b = Inr r"
proof -
  let ?xs = "pb_content b" and ?s = "pb_offset b + 1"
  have u: "\<exists>r. unescape ?xs e (e - pb_offset b - k + 1) ?s [] = Inr r" if "scan_string ?xs ?s 0 = Some (e, k)" for e k
  proof (rule unescape_safe [OF that])
    have "k \<le> e - ?s" using scan_string_begun [OF that] begun_gap [of ?s e ?xs ?s] scan_string_bounds [OF that]
      by (simp add: begun.simps [of ?xs "Suc (pb_offset b)" "Suc (pb_offset b)"])
    then show "e - pb_offset b - k + 1 = e + 2 - ?s - k" using scan_string_bounds [OF that] by linarith
  qed (use scan_string_bounds [OF that] in \<open>simp_all add: begun.simps [of ?xs "Suc (pb_offset b)" "Suc (pb_offset b)"]\<close>)
  have rd: "read_at ?xs (pb_offset b) = Inr (?xs ! pb_offset b)"
    using assms by (simp add: read_at_def can_access_at_index_def)
  show ?thesis
  proof (cases "scan_string ?xs ?s 0")
    case (Some r)
    obtain e k where r: "r = (e, k)" by (cases r)
    with u [of e k] Some obtain r' p where "unescape ?xs e (e - pb_offset b - k + 1) ?s [] = Inr (r', p)" by auto
    then show ?thesis using Some r rd by (cases r') (simp_all add: parse_string_def Let_def)
  qed (simp add: parse_string_def rd Let_def)
qed

section \<open>Staying inside the input\<close>

text \<open>The input ends in a terminator and the offset is not behind it.\<close>

definition inside :: "parse_buffer \<Rightarrow> bool" where
  "inside b \<longleftrightarrow> pb_offset b < length (pb_content b) \<and> last (pb_content b) = 0"

lemma inside_access: "inside b \<Longrightarrow> can_access_at_index b 0"
  by (simp add: inside_def can_access_at_index_def)

lemma inside_depth [simp]: "inside (b\<lparr>pb_depth := d\<rparr>) = inside b"
  by (simp add: inside_def)

lemma before_last:
  assumes "i < length xs" "xs ! i \<noteq> 0" "last xs = (0 :: u8)"
  shows "Suc i < length xs"
proof (rule ccontr)
  assume "\<not> ?thesis"
  with assms(1) have i: "i = length xs - 1" "xs \<noteq> []" by auto
  with assms(2,3) show False by (simp add: last_conv_nth)
qed

lemma inside_next: "inside b \<Longrightarrow> at_is b c \<Longrightarrow> c \<noteq> 0 \<Longrightarrow> inside (advance 1 b)"
  using before_last [of "pb_offset b" "pb_content b"]
  by (auto simp: inside_def at_is_def can_access_at_index_def advance_def)

lemma inside_skip: "inside b \<Longrightarrow> inside (buffer_skip_whitespace b)"
  using skip_spaces_le [of "pb_offset b" "pb_content b"]
  by (auto simp: inside_def buffer_skip_whitespace_def can_access_at_index_def Let_def)

text \<open>Bytes other than the terminator can be passed.\<close>

lemma inside_pass:
  assumes "inside b" "take n (drop (pb_offset b) (pb_content b)) = s" "length s = n" "0 \<notin> set s"
  shows "inside (advance n b)"
proof (cases n)
  case 0
  with assms(1) show ?thesis by (simp add: advance_def)
next
  case (Suc m)
  have len: "pb_offset b + n \<le> length (pb_content b)"
  proof -
    have "length (take n (drop (pb_offset b) (pb_content b))) = n" by (simp only: assms(2,3))
    then show ?thesis using Suc by simp
  qed
  have "s ! m = take n (drop (pb_offset b) (pb_content b)) ! m" by (simp only: assms(2))
  then have "pb_content b ! (pb_offset b + m) = s ! m" using Suc len by simp
  moreover have "s ! m \<noteq> 0" using assms(3,4) Suc by (metis lessI nth_mem)
  ultimately show ?thesis using before_last [of "pb_offset b + m" "pb_content b"] assms(1) len Suc
    by (simp add: inside_def advance_def)
qed

lemma inside_looking: "inside b \<Longrightarrow> looking_at b s \<Longrightarrow> 0 \<notin> set s \<Longrightarrow> length s = n \<Longrightarrow> inside (advance n b)"
  by (rule inside_pass) (auto simp: looking_at_def)

lemma strtod_exponent_used: "snd (strtod_exponent s) \<le> length s"
proof (cases s)
  case (Cons c r)
  then show ?thesis
    using length_takeWhile_le [of is_digit r] length_takeWhile_le [of is_digit "tl r"]
    by (cases r) (auto simp: strtod_exponent_def Let_def)
qed (simp add: strtod_exponent_def)

lemma strtod_used: "snd (strtod s) \<le> length s"
proof -
  define signed where "signed \<longleftrightarrow> s \<noteq> [] \<and> (hd s = 43 \<or> hd s = 45)"
  define s1 where "s1 = (if signed then tl s else s)"
  define ds where "ds = takeWhile is_digit s1"
  define s2 where "s2 = drop (length ds) s1"
  define point where "point \<longleftrightarrow> s2 \<noteq> [] \<and> hd s2 = 46"
  define fs where "fs = (if point then takeWhile is_digit (tl s2) else [])"
  define s3 where "s3 = (if point then drop (length fs) (tl s2) else s2)"
  have "length s = (if signed then 1 else 0) + length s1"
    by (cases s) (auto simp: s1_def signed_def)
  moreover have "length s1 = length ds + length s2"
    using length_takeWhile_le [of is_digit s1] by (simp add: s2_def ds_def)
  moreover have "length s2 = (if point then 1 else 0) + length fs + length s3"
    using length_takeWhile_le [of is_digit "tl s2"] by (cases s2) (auto simp: s3_def fs_def point_def)
  moreover have "snd (strtod s) \<le> (if signed then 1 else 0) + length ds + (if point then 1 else 0) + length fs + length s3"
    using strtod_exponent_used [of s3]
    unfolding strtod_def Let_def signed_def [symmetric] s1_def [symmetric] ds_def [symmetric] s2_def [symmetric]
      point_def [symmetric] fs_def [symmetric] s3_def [symmetric]
    by (auto split: prod.split)
  ultimately show ?thesis by simp
qed

lemma number_char_nonzero: "number_char c \<Longrightarrow> c \<noteq> 0"
  by (auto simp: number_char_def is_digit_def)

lemma inside_parse_number:
  assumes "inside b"
  shows "inside (snd (parse_number item b))"
proof -
  let ?s = "number_c_string b" and ?n = "snd (strtod (number_c_string b))"
  let ?ys = "drop (pb_offset b) (pb_content b)"
  have "length ?s \<le> 63" unfolding number_c_string_def by (rule order_trans [OF length_takeWhile_le]) simp
  then have "take (length ?s) ?ys = take (length ?s) (take 63 ?ys)" by (simp add: min_absorb1)
  also have "\<dots> = ?s" unfolding number_c_string_def by (rule takeWhile_eq_take [symmetric])
  finally have s: "take (length ?s) ?ys = ?s" .
  have "take ?n ?ys = take ?n (take (length ?s) ?ys)" using strtod_used [of ?s] by (simp add: min_absorb1)
  then have "take ?n ?ys = take ?n ?s" by (simp only: s)
  moreover have "0 \<notin> set (take ?n ?s)"
    using number_char_nonzero by (auto simp: number_c_string_def dest!: in_set_takeD set_takeWhileD)
  ultimately have "inside (advance ?n b)"
    using assms strtod_used [of ?s] by (intro inside_pass) auto
  with assms show ?thesis by (auto simp: parse_number_def split: prod.splits)
qed

lemma inside_parse_string:
  assumes "inside b" "parse_string item b = Inr (Some it, b')"
  shows "inside b'"
proof -
  from assms(2) obtain e k where e: "scan_string (pb_content b) (pb_offset b + 1) 0 = Some (e, k)"
    and b': "b' = b\<lparr>pb_offset := e + 1\<rparr>"
    by (auto simp: parse_string_def Let_def split: if_splits option.splits prod.splits)
  then show ?thesis
    using before_last [of e "pb_content b"] scan_string_bounds [OF e] assms(1) by (simp add: inside_def)
qed

definition parses_inside :: "crash + 'a option \<times> parse_buffer \<Rightarrow> bool" where
  "parses_inside m \<longleftrightarrow> (\<exists>r b. m = Inr (r, b) \<and> (r \<noteq> None \<longrightarrow> inside b))"

lemma parses_inside_Inr [simp]: "parses_inside (Inr (r, b)) \<longleftrightarrow> (r \<noteq> None \<longrightarrow> inside b)"
  by (simp add: parses_inside_def)

lemma parses_inside_bind:
  assumes "parses_inside m" "\<And>b. m = Inr (None, b) \<Longrightarrow> parses_inside (f (None, b))"
    "\<And>x b. m = Inr (Some x, b) \<Longrightarrow> inside b \<Longrightarrow> parses_inside (f (Some x, b))"
  shows "parses_inside (andThen m f)"
proof -
  obtain r b where m: "m = Inr (r, b)" "r \<noteq> None \<longrightarrow> inside b" using assms(1) by (auto simp: parses_inside_def)
  with assms(2) [of b] assms(3) [of "the r" b] show ?thesis by (cases r) simp_all
qed

lemma parses_inside_children:
  assumes "parses_inside m" "\<And>ch b. m = Inr (Some ch, b) \<Longrightarrow> inside b \<Longrightarrow> inside (advance 1 b)"
  shows "parses_inside (andThen m (\<lambda>r. Inr (parsed_children t item r)))"
  by (rule parses_inside_bind [OF assms(1)])
    (use assms(2) in \<open>auto simp: parsed_children_def advance_def inside_def\<close>)

lemma parse_elements_SomeE:
  assumes "parse_elements acc b = Inr (Some ch, b')"
  obtains (comma) it b1 where "parse_value cJSON_New_Item (buffer_skip_whitespace b) = Inr (Some it, b1)"
      "at_is (buffer_skip_whitespace b1) 44"
      "parse_elements (acc @ [it]) (advance 1 (buffer_skip_whitespace b1)) = Inr (Some ch, b')"
    | (close) it b1 where "parse_value cJSON_New_Item (buffer_skip_whitespace b) = Inr (Some it, b1)"
      "at_is (buffer_skip_whitespace b1) 93" "ch = acc @ [it]" "b' = buffer_skip_whitespace b1"
proof -
  from assms obtain it b1 where v: "parse_value cJSON_New_Item (buffer_skip_whitespace b) = Inr (Some it, b1)"
    and r: "(if at_is (buffer_skip_whitespace b1) 44
             then parse_elements (acc @ [it]) (advance 1 (buffer_skip_whitespace b1))
             else if at_is (buffer_skip_whitespace b1) 93 then Inr (Some (acc @ [it]), buffer_skip_whitespace b1)
             else Inr (None, buffer_skip_whitespace b1)) = Inr (Some ch, b')"
    by (simp add: parse_elements.simps [of acc b] split_paired_Ex) (auto simp: Let_def split: option.splits)
  from r show thesis by (auto split: if_splits intro: comma [OF v] close [OF v])
qed

lemma parse_members_SomeE:
  assumes "parse_members acc b = Inr (Some ch, b')"
  obtains it1 b1 it b2 where
    "parse_string cJSON_New_Item (buffer_skip_whitespace b) = Inr (Some it1, b1)"
    "at_is (buffer_skip_whitespace b1) 58"
    "parse_value (set_valuestring None (set_string (item_valuestring it1) it1))
       (buffer_skip_whitespace (advance 1 (buffer_skip_whitespace b1))) = Inr (Some it, b2)"
    "at_is (buffer_skip_whitespace b2) 44 \<and>
       parse_members (acc @ [it]) (advance 1 (buffer_skip_whitespace b2)) = Inr (Some ch, b') \<or>
     at_is (buffer_skip_whitespace b2) 125 \<and> ch = acc @ [it] \<and> b' = buffer_skip_whitespace b2"
proof -
  from assms obtain it1 b1 where p: "parse_string cJSON_New_Item (buffer_skip_whitespace b) = Inr (Some it1, b1)"
    and c: "at_is (buffer_skip_whitespace b1) 58"
    by (simp add: parse_members.simps [of acc b] split_paired_Ex) (auto simp: Let_def split: option.splits if_splits)
  let ?it = "set_valuestring None (set_string (item_valuestring it1) it1)"
  from assms p c obtain it b2
    where v: "parse_value ?it (buffer_skip_whitespace (advance 1 (buffer_skip_whitespace b1))) = Inr (Some it, b2)"
    and r: "(if at_is (buffer_skip_whitespace b2) 44
             then parse_members (acc @ [it]) (advance 1 (buffer_skip_whitespace b2))
             else if at_is (buffer_skip_whitespace b2) 125 then Inr (Some (acc @ [it]), buffer_skip_whitespace b2)
             else Inr (None, buffer_skip_whitespace b2)) = Inr (Some ch, b')"
    by (simp add: parse_members.simps [of acc b] split_paired_Ex) (auto simp: Let_def split: option.splits)
  from r show thesis by (intro that [OF p c v]) (auto split: if_splits)
qed

lemma parse_ends:
  "parse_value item b = r \<Longrightarrow> True" "parse_array item b = r \<Longrightarrow> True"
  "parse_elements acc b = Inr (Some ch, b') \<Longrightarrow> at_is b' 93"
  "parse_object item b = r \<Longrightarrow> True"
  "parse_members acc b = Inr (Some ch, b') \<Longrightarrow> at_is b' 125"
proof (induction item b and item b and acc b and item b and acc b
    arbitrary: r and r and ch b' and r and ch b'
    rule: parse_induct)
  case (3 acc b)
  from "3.prems" show ?case by (cases rule: parse_elements_SomeE) (auto dest: "3.IH"(2))
next
  case (5 acc b)
  from "5.prems" show ?case by (cases rule: parse_members_SomeE) (auto dest: "5.IH"(2))
qed simp_all

lemmas elements_end = parse_ends(3) and members_end = parse_ends(5)

lemma parse_inside:
  "inside b \<Longrightarrow> parses_inside (parse_value item b)"
  "inside b \<Longrightarrow> parses_inside (parse_array item b)"
  "inside b \<Longrightarrow> parses_inside (parse_elements acc b)"
  "inside b \<Longrightarrow> parses_inside (parse_object item b)"
  "inside b \<Longrightarrow> parses_inside (parse_members acc b)"
proof (induction item b and item b and acc b and item b and acc b rule: parse_induct)
  case (1 item b)
  have s: "parses_inside (parse_string item b)"
    using parse_string_safe [OF inside_access, OF "1.prems", of item] inside_parse_string [OF "1.prems"]
    by (fastforce simp: parses_inside_def)
  have n: "parses_inside (Inr (parse_number item b))"
    using inside_parse_number [OF "1.prems", of item] by (cases "parse_number item b") simp
  have l: "inside (advance 4 b)" if "looking_at b json_null \<or> looking_at b json_true"
    using that inside_looking [OF "1.prems", of json_null 4] inside_looking [OF "1.prems", of json_true 4]
    by (auto simp: json_null_def json_true_def)
  have f: "inside (advance 5 b)" if "looking_at b json_false"
    using inside_looking [OF "1.prems" that, of 5] by (simp add: json_false_def)
  show ?case
    using "1.prems" "1.IH" s n l f by (simp add: parse_value.simps [of item b])
next
  case (2 item b)
  let ?b = "buffer_skip_whitespace (advance 1 (b\<lparr>pb_depth := pb_depth b + 1\<rparr>))"
  have rd: "read_at (pb_content b) (pb_offset b) = Inr (pb_content b ! pb_offset b)"
    using "2.prems" by (simp add: read_at_def inside_def)
  have i: "inside ?b" if "pb_content b ! pb_offset b = 91"
    using inside_next [of "b\<lparr>pb_depth := pb_depth b + 1\<rparr>" 91] "2.prems" that
    by (intro inside_skip) (simp add: at_is_def can_access_at_index_def inside_def)
  have c: "parses_inside (andThen (parse_elements [] ?b) (\<lambda>r. Inr (parsed_children cJSON_Array item r)))"
    if "parses_inside (parse_elements [] ?b)"
    by (rule parses_inside_children [OF that]) (rule inside_next [OF _ elements_end], assumption+, simp)
  have e: "parses_inside (Inr (parsed_children cJSON_Array item (Some [], ?b)))" if "inside ?b" "at_is ?b 93"
    using inside_next [OF that] by (simp add: parsed_children_def advance_def inside_def)
  show ?case
    using "2.IH" rd i c e by (simp add: parse_array.simps [of item b] Let_def)
next
  case (3 acc b)
  have v: "parses_inside (parse_value cJSON_New_Item (buffer_skip_whitespace b))"
    using "3.IH"(1) inside_skip [OF "3.prems"] .
  show ?case
    unfolding parse_elements.simps [of acc b]
  proof (rule parses_inside_bind [OF v], goal_cases)
    case (2 it b')
    then show ?case
      using "3.IH"(2) [OF 2(1)] inside_skip [OF 2(2)] inside_next [OF inside_skip [OF 2(2)], of 44]
      by (simp add: Let_def)
  qed simp
next
  case (4 item b)
  let ?b = "buffer_skip_whitespace (advance 1 (b\<lparr>pb_depth := pb_depth b + 1\<rparr>))"
  have i: "inside ?b" if "at_is (b\<lparr>pb_depth := pb_depth b + 1\<rparr>) 123"
    using inside_next [OF _ that] "4.prems" by (intro inside_skip) simp
  have c: "parses_inside (andThen (parse_members [] ?b) (\<lambda>r. Inr (parsed_children cJSON_Object item r)))"
    if "parses_inside (parse_members [] ?b)"
    by (rule parses_inside_children [OF that]) (rule inside_next [OF _ members_end], assumption+, simp)
  have e: "parses_inside (Inr (parsed_children cJSON_Object item (Some [], ?b)))" if "inside ?b" "at_is ?b 125"
    using inside_next [OF that] by (simp add: parsed_children_def advance_def inside_def)
  show ?case
    using "4.IH" i c e by (simp add: parse_object.simps [of item b] Let_def)
next
  case (5 acc b)
  have s: "parses_inside (parse_string cJSON_New_Item (buffer_skip_whitespace b))"
    using parse_string_safe [OF inside_access, OF inside_skip, OF "5.prems", of cJSON_New_Item]
      inside_parse_string [OF inside_skip, OF "5.prems"] by (fastforce simp: parses_inside_def)
  show ?case
    unfolding parse_members.simps [of acc b]
  proof (rule parses_inside_bind [OF s], goal_cases)
    case (2 it b1)
    note p = 2(1)
    let ?b1 = "buffer_skip_whitespace b1" and ?it = "set_valuestring None (set_string (item_valuestring it) it)"
    let ?v = "parse_value ?it (buffer_skip_whitespace (advance 1 ?b1))"
    have v: "parses_inside ?v" if "at_is ?b1 58"
      using "5.IH"(1) [OF 2(1)] that inside_skip [OF inside_next [OF inside_skip [OF 2(2)] that]] by simp
    have r: "parses_inside (andThen ?v (\<lambda>rb.
        case fst rb of None \<Rightarrow> Inr (None, snd rb)
        | Some it \<Rightarrow>
            let b = buffer_skip_whitespace (snd rb); acc = acc @ [it]
            in if at_is b 44 then parse_members acc (advance 1 b)
               else if at_is b 125 then Inr (Some acc, b) else Inr (None, b)))" if c: "at_is ?b1 58"
    proof (rule parses_inside_bind [OF v [OF c]], goal_cases)
      case (2 it2 b2)
      then show ?case
        using "5.IH"(2) [of "(Some it, b1)" it ?b1 ?it "(Some it2, b2)" it2 "buffer_skip_whitespace b2" "acc @ [it2]"]
          p c inside_skip [OF 2(2)] inside_next [OF inside_skip [OF 2(2)], of 44]
        by (simp add: Let_def)
    qed simp
    then show ?case by (simp add: Let_def)
  qed simp
qed

section \<open>What a parsed tree is\<close>

fun json_height :: "cJSON \<Rightarrow> nat" where
  "json_height (Item t ch vs vi vd s) =
     (if t = cJSON_Array \<or> t = cJSON_Object then Suc (foldr max (map json_height ch) 0) else 0)"

fun json_ok :: "cJSON \<Rightarrow> bool" where
  "json_ok (Item t ch vs vi vd s) \<longleftrightarrow>
     t \<in> {cJSON_NULL, cJSON_False, cJSON_True, cJSON_Number, cJSON_String, cJSON_Array, cJSON_Object} \<and>
     (t = cJSON_String \<longleftrightarrow> vs \<noteq> None) \<and>
     (t = cJSON_Number \<longrightarrow> vi = saturate vd) \<and>
     (t \<noteq> cJSON_Array \<and> t \<noteq> cJSON_Object \<longrightarrow> ch = []) \<and>
     (t = cJSON_Array \<longrightarrow> list_all (\<lambda>c. item_string c = None) ch) \<and>
     (t = cJSON_Object \<longrightarrow> list_all (\<lambda>c. item_string c \<noteq> None) ch) \<and>
     list_all json_ok ch"

lemma foldr_max_append [simp]: "foldr max (xs @ ys) (0 :: nat) = max (foldr max xs 0) (foldr max ys 0)"
  by (induction xs) (auto simp: max.assoc)

text \<open>An item that the parser is about to fill.\<close>

definition fresh :: "cJSON \<Rightarrow> bool" where
  "fresh item \<longleftrightarrow> item_child item = [] \<and> item_valuestring item = None"

text \<open>A filled item: it keeps the name, fits the tree and stays within the nesting limit; the depth is restored.\<close>

definition filled :: "cJSON \<Rightarrow> parse_buffer \<Rightarrow> cJSON \<Rightarrow> parse_buffer \<Rightarrow> bool" where
  "filled item b it b' \<longleftrightarrow>
     json_ok it \<and> item_string it = item_string item \<and> pb_depth b' = pb_depth b \<and>
     (pb_depth b \<le> CJSON_NESTING_LIMIT \<longrightarrow> pb_depth b + json_height it \<le> CJSON_NESTING_LIMIT)"

definition filled_list :: "bool \<Rightarrow> cJSON list \<Rightarrow> parse_buffer \<Rightarrow> cJSON list \<Rightarrow> parse_buffer \<Rightarrow> bool" where
  "filled_list named acc b ch b' \<longleftrightarrow>
     (\<exists>new. ch = acc @ new \<and> list_all json_ok new \<and> list_all (\<lambda>c. (item_string c \<noteq> None) = named) new \<and>
        pb_depth b' = pb_depth b \<and>
        (pb_depth b \<le> CJSON_NESTING_LIMIT \<longrightarrow>
           pb_depth b + foldr max (map json_height new) 0 \<le> CJSON_NESTING_LIMIT))"

lemma depth_skip [simp]: "pb_depth (buffer_skip_whitespace b) = pb_depth b"
  by (simp add: buffer_skip_whitespace_def Let_def)

lemma depth_advance [simp]: "pb_depth (advance n b) = pb_depth b"
  by (simp add: advance_def)

lemma item_string_set [simp]:
  "item_string (set_type t it) = item_string it" "item_string (set_child ch it) = item_string it"
  "item_string (set_valuestring vs it) = item_string it" "item_string (set_valueint vi it) = item_string it"
  "item_string (set_valuedouble vd it) = item_string it" "item_string (set_string s it) = s"
  by (cases it; simp)+

lemma parse_string_result:
  assumes "parse_string item b = Inr (Some it, b')"
  obtains out where "it = set_valuestring (Some out) (set_type cJSON_String item)" "pb_depth b' = pb_depth b"
  using assms by (auto simp: parse_string_def Let_def split: if_splits option.splits prod.splits)

lemma filled_string:
  assumes "parse_string item b = Inr (Some it, b')" "fresh item"
  shows "filled item b it b'"
proof -
  obtain out where "it = set_valuestring (Some out) (set_type cJSON_String item)" "pb_depth b' = pb_depth b"
    using parse_string_result [OF assms(1)] .
  with assms(2) show ?thesis by (cases item) (simp add: filled_def fresh_def cJSON_types)
qed

lemma filled_number:
  assumes "parse_number item b = (Some it, b')" "fresh item"
  shows "filled item b it b'"
  using assms by (cases item) (auto simp: parse_number_def filled_def fresh_def cJSON_types split: prod.splits if_splits)

lemma filled_children:
  assumes "parsed_children t item (Some ch, b1) = (Some it, b')" "fresh item"
    and "filled_list named [] (b\<lparr>pb_depth := pb_depth b + 1\<rparr>) ch b1" "pb_depth b < CJSON_NESTING_LIMIT"
    and "t = cJSON_Array \<and> \<not> named \<or> t = cJSON_Object \<and> named"
  shows "filled item b it b'"
  using assms by (cases item) (auto simp: parsed_children_def filled_def filled_list_def fresh_def cJSON_types advance_def)

lemma filled_list_nil: "filled_list named acc b acc b" if "pb_depth b \<le> CJSON_NESTING_LIMIT"
  using that by (simp add: filled_list_def)

lemma filled_list_step:
  assumes "json_ok it" "(item_string it \<noteq> None) = named" "pb_depth b1 = pb_depth b"
    "pb_depth b \<le> CJSON_NESTING_LIMIT \<longrightarrow> pb_depth b + json_height it \<le> CJSON_NESTING_LIMIT"
    "filled_list named (acc @ [it]) b1 ch b'"
  shows "filled_list named acc b ch b'"
  using assms by (auto simp: filled_list_def)

lemma filled_list_last:
  assumes "json_ok it" "(item_string it \<noteq> None) = named" "pb_depth b' = pb_depth b"
    "pb_depth b \<le> CJSON_NESTING_LIMIT \<longrightarrow> pb_depth b + json_height it \<le> CJSON_NESTING_LIMIT"
  shows "filled_list named acc b (acc @ [it]) b'"
  using assms by (auto simp: filled_list_def)

lemma fresh_New_Item: "fresh cJSON_New_Item" "item_string cJSON_New_Item = None"
  by (simp_all add: fresh_def cJSON_New_Item_def)

abbreviation opened :: "parse_buffer \<Rightarrow> parse_buffer" where
  "opened b \<equiv> buffer_skip_whitespace (advance 1 (b\<lparr>pb_depth := pb_depth b + 1\<rparr>))"

lemma parsed_children_Some:
  "parsed_children t item (r, b) = (Some it, b') \<Longrightarrow> \<exists>ch. r = Some ch"
  by (auto simp: parsed_children_def split: option.splits)

lemma parse_array_SomeE:
  assumes "parse_array item b = Inr (Some it, b')"
  obtains (empty) "pb_depth b < CJSON_NESTING_LIMIT"
      "parsed_children cJSON_Array item (Some [], opened b) = (Some it, b')"
    | (elements) ch b1 where "pb_depth b < CJSON_NESTING_LIMIT"
      "read_at (pb_content b) (pb_offset b) = Inr 91" "\<not> at_is (opened b) 93" "can_access_at_index (opened b) 0"
      "parse_elements [] (opened b) = Inr (Some ch, b1)"
      "parsed_children cJSON_Array item (Some ch, b1) = (Some it, b')"
proof -
  from assms have d: "pb_depth b < CJSON_NESTING_LIMIT" and r: "read_at (pb_content b) (pb_offset b) = Inr 91"
    by (auto simp: parse_array.simps [of item b] Let_def split: if_splits)
  show thesis
  proof (cases "at_is (opened b) 93")
    case True
    with assms d r show thesis by (intro empty) (simp_all add: parse_array.simps [of item b] Let_def)
  next
    case False
    with assms d r have a: "can_access_at_index (opened b) 0"
      and p: "andThen (parse_elements [] (opened b)) (\<lambda>r. Inr (parsed_children cJSON_Array item r)) = Inr (Some it, b')"
      by (simp_all add: parse_array.simps [of item b] Let_def split: if_splits)
    then obtain rs b1 where e: "parse_elements [] (opened b) = Inr (rs, b1)"
      "parsed_children cJSON_Array item (rs, b1) = (Some it, b')" by auto
    with parsed_children_Some obtain ch where "rs = Some ch" by blast
    with elements [OF d r False a] e show thesis by simp
  qed
qed

lemma parse_object_SomeE:
  assumes "parse_object item b = Inr (Some it, b')"
  obtains (empty) "pb_depth b < CJSON_NESTING_LIMIT"
      "parsed_children cJSON_Object item (Some [], opened b) = (Some it, b')"
    | (members) ch b1 where "pb_depth b < CJSON_NESTING_LIMIT"
      "at_is (b\<lparr>pb_depth := pb_depth b + 1\<rparr>) 123" "\<not> at_is (opened b) 125" "can_access_at_index (opened b) 0"
      "parse_members [] (opened b) = Inr (Some ch, b1)"
      "parsed_children cJSON_Object item (Some ch, b1) = (Some it, b')"
proof -
  from assms have d: "pb_depth b < CJSON_NESTING_LIMIT" and r: "at_is (b\<lparr>pb_depth := pb_depth b + 1\<rparr>) 123"
    by (auto simp: parse_object.simps [of item b] Let_def split: if_splits)
  show thesis
  proof (cases "at_is (opened b) 125")
    case True
    with assms d r show thesis by (intro empty) (simp_all add: parse_object.simps [of item b] Let_def)
  next
    case False
    with assms d r have a: "can_access_at_index (opened b) 0"
      and p: "andThen (parse_members [] (opened b)) (\<lambda>r. Inr (parsed_children cJSON_Object item r)) = Inr (Some it, b')"
      by (simp_all add: parse_object.simps [of item b] Let_def split: if_splits)
    then obtain rs b1 where e: "parse_members [] (opened b) = Inr (rs, b1)"
      "parsed_children cJSON_Object item (rs, b1) = (Some it, b')" by auto
    with parsed_children_Some obtain ch where "rs = Some ch" by blast
    with members [OF d r False a] e show thesis by simp
  qed
qed

lemma filled_list_opened:
  "filled_list named [] (opened b) ch b1 \<Longrightarrow> filled_list named [] (b\<lparr>pb_depth := pb_depth b + 1\<rparr>) ch b1"
  by (simp add: filled_list_def)

lemma filled_empty:
  assumes "parsed_children t item (Some [], opened b) = (Some it, b')" "fresh item" "pb_depth b < CJSON_NESTING_LIMIT"
    and "t = cJSON_Array \<or> t = cJSON_Object"
  shows "filled item b it b'"
  using assms(2-) filled_children [OF assms(1,2), of "t = cJSON_Object" b]
  by (auto simp: filled_list_def cJSON_types)

lemma parse_filled:
  "parse_value item b = Inr (Some it, b') \<Longrightarrow> fresh item \<Longrightarrow> filled item b it b'"
  "parse_array item b = Inr (Some it, b') \<Longrightarrow> fresh item \<Longrightarrow> filled item b it b'"
  "parse_elements acc b = Inr (Some ch, b') \<Longrightarrow> filled_list False acc b ch b'"
  "parse_object item b = Inr (Some it, b') \<Longrightarrow> fresh item \<Longrightarrow> filled item b it b'"
  "parse_members acc b = Inr (Some ch, b') \<Longrightarrow> filled_list True acc b ch b'"
proof (induction item b and item b and acc b and item b and acc b
    arbitrary: it b' and it b' and ch b' and it b' and ch b' rule: parse_induct)
  case (1 item b)
  have lit: "filled item b (set_type t item) (advance n b)" if "t \<in> {cJSON_NULL, cJSON_False, cJSON_True}" for t n
    using that "1.prems"(2) by (cases item) (auto simp: filled_def fresh_def cJSON_types)
  have tr: "filled item b (set_valueint 1 (set_type cJSON_True item)) (advance n b)" for n
    using "1.prems"(2) by (cases item) (auto simp: filled_def fresh_def cJSON_types)
  from "1.prems" show ?case
    using lit tr "1.IH" filled_string filled_number by (auto simp: parse_value.simps [of item b] split: if_splits)
next
  case (2 item b)
  from "2.prems"(1) show ?case
  proof (cases rule: parse_array_SomeE)
    case empty
    then show ?thesis using filled_empty "2.prems"(2) by blast
  next
    case (elements ch b1)
    have "filled_list False [] (opened b) ch b1"
      using "2.IH" [OF _ elements(2) refl _ refl] elements by simp
    then show ?thesis
      using filled_children [OF elements(6) "2.prems"(2) filled_list_opened] elements(1) by blast
  qed
next
  case (3 acc b)
  from "3.prems" show ?case
  proof (cases rule: parse_elements_SomeE)
    case (comma it b1)
    note v = "3.IH"(1) [OF comma(1) fresh_New_Item(1)]
    show ?thesis
      by (rule filled_list_step [where it = it and ?b1.0 = "advance 1 (buffer_skip_whitespace b1)"])
        (use v comma "3.IH"(2) [OF comma(1) _ refl refl] in \<open>simp_all add: filled_def fresh_New_Item\<close>)
  next
    case (close it b1)
    with "3.IH"(1) [OF close(1) fresh_New_Item(1)] show ?thesis
      by (simp add: filled_list_last filled_def fresh_New_Item)
  qed
next
  case (4 item b)
  from "4.prems"(1) show ?case
  proof (cases rule: parse_object_SomeE)
    case empty
    then show ?thesis using filled_empty "4.prems"(2) by blast
  next
    case (members ch b1)
    have "filled_list True [] (opened b) ch b1"
      using "4.IH" [OF _ refl _ refl] members by simp
    then show ?thesis
      using filled_children [OF members(6) "4.prems"(2) filled_list_opened] members(1) by blast
  qed
next
  case (5 acc b)
  from "5.prems" show ?case
  proof (cases rule: parse_members_SomeE)
    case (1 it1 b1 it b2)
    let ?it = "set_valuestring None (set_string (item_valuestring it1) it1)"
    obtain out where it1: "it1 = set_valuestring (Some out) (set_type cJSON_String cJSON_New_Item)" "pb_depth b1 = pb_depth b"
      by (rule parse_string_result [OF 1(1)]) simp
    have "fresh ?it" "item_string ?it \<noteq> None"
      using it1 by (simp_all add: fresh_def cJSON_New_Item_def)
    with "5.IH"(1) [of "(Some it1, b1)" it1 "buffer_skip_whitespace b1" ?it] 1(1-3)
    have v: "filled ?it (buffer_skip_whitespace (advance 1 (buffer_skip_whitespace b1))) it b2" by simp
    from 1(4) show ?thesis
    proof (elim disjE conjE)
      assume c: "at_is (buffer_skip_whitespace b2) 44"
        and m: "parse_members (acc @ [it]) (advance 1 (buffer_skip_whitespace b2)) = Inr (Some ch, b')"
      have "filled_list True (acc @ [it]) (advance 1 (buffer_skip_whitespace b2)) ch b'"
        using "5.IH"(2) [of "(Some it1, b1)" it1 "buffer_skip_whitespace b1" ?it "(Some it, b2)" it
            "buffer_skip_whitespace b2" "acc @ [it]" ch b'] 1(1-3) c m by simp
      with v \<open>item_string ?it \<noteq> None\<close> it1(2) show ?thesis
        using filled_list_step [of it True "advance 1 (buffer_skip_whitespace b2)" b acc ch b'] by (simp add: filled_def)
    next
      assume "ch = acc @ [it]" "b' = buffer_skip_whitespace b2"
      with v \<open>item_string ?it \<noteq> None\<close> it1(2) show ?thesis by (simp add: filled_list_last filled_def)
    qed
  qed
qed

section \<open>Parsing a string\<close>

lemma inside_start:
  assumes "skip_utf8_bom \<lparr>pb_content = cstring s, pb_offset = 0, pb_depth = 0\<rparr> = Some b"
  shows "inside b" "pb_depth b = 0"
  using assms
  by (auto simp: skip_utf8_bom_def inside_def cstring_def advance_def can_access_at_index_def split: if_splits)

lemma cJSON_Parse_cstring:
  "is_cstr s \<Longrightarrow> cJSON_Parse (Some (cstring s @ rest)) = map_sum id fst (cJSON_ParseWithLengthOpts (Some (cstring s)) False)"
  by (simp add: cJSON_Parse_def cJSON_ParseWithOpts_def)

lemma cstring_not_Nil [simp]: "cstring s \<noteq> []"
  by (simp add: cstring_def)

text \<open>
  C30: Parsing a C string always returns, with a tree or with a null pointer: the loops and the recursion end, no byte
  outside the string is read, whatever the text, and the block allocated for a string value, whose size the first
  pass over the literal estimates, is never overrun while escapes and UTF-16 literals are decoded.
\<close>

theorem cJSON_Parse_safe:
  assumes "is_cstr s"
  shows "\<exists>r. cJSON_Parse (Some (cstring s @ rest)) = Inr r"
proof (cases "skip_utf8_bom \<lparr>pb_content = cstring s, pb_offset = 0, pb_depth = 0\<rparr>")
  case None
  then show ?thesis
    using assms by (simp add: cJSON_Parse_cstring cJSON_ParseWithLengthOpts_def)
next
  case (Some b)
  obtain r b' where "parse_value cJSON_New_Item (buffer_skip_whitespace b) = Inr (r, b')"
    using parse_inside(1) [OF inside_skip [OF inside_start(1) [OF Some]], of cJSON_New_Item]
    by (auto simp: parses_inside_def)
  then show ?thesis
    using assms Some by (cases r) (simp_all add: cJSON_Parse_cstring cJSON_ParseWithLengthOpts_def)
qed

lemma parsed_tree_ok:
  assumes "cJSON_Parse (Some block) = Inr (Some item)"
  shows "json_ok item \<and> item_string item = None \<and> json_height item \<le> CJSON_NESTING_LIMIT"
proof -
  from assms obtain s b b' where "skip_utf8_bom \<lparr>pb_content = cstring s, pb_offset = 0, pb_depth = 0\<rparr> = Some b"
    and p: "parse_value cJSON_New_Item (buffer_skip_whitespace b) = Inr (Some item, b')"
    by (auto simp: cJSON_Parse_def cJSON_ParseWithOpts_def cJSON_ParseWithLengthOpts_def parse_failed_def Let_def
        map_sum_def split: option.splits if_splits sum.splits)
  then have "pb_depth b = 0" using inside_start(2) by blast
  with parse_filled(1) [OF p fresh_New_Item(1)] show ?thesis by (simp add: filled_def fresh_New_Item)
qed

text \<open>
  C31: A tree that \<open>cJSON_Parse\<close> returns is well formed: every item has exactly one of the seven JSON types, a
  string item and only it has a string value, the integer of a number is its double truncated and saturated to the
  range of \<open>int\<close>, only arrays and objects have children, the children of an object have names and those of an array
  have none. Arrays and objects are nested at most \<open>CJSON_NESTING_LIMIT\<close> deep.
\<close>

theorem cJSON_Parse_tree:
  assumes "cJSON_Parse (Some block) = Inr (Some item)"
  shows "json_ok item \<and> item_string item = None \<and> json_height item \<le> CJSON_NESTING_LIMIT"
  using parsed_tree_ok [OF assms] .

text \<open>\<open>["a",{}]\<close>\<close>

definition demo_json :: "u8 list" where
  "demo_json = [91, 34, 97, 34, 44, 123, 125, 93]"

theorem cJSON_Parse_safe_witness:
  "is_cstr demo_json \<and> (\<exists>r. cJSON_Parse (Some (cstring demo_json @ [])) = Inr r)"
proof -
  have "is_cstr demo_json" by (simp add: is_cstr_def demo_json_def)
  with cJSON_Parse_safe [of demo_json "[]"] show ?thesis by simp
qed

lemma demo_json_parsed:
  "cJSON_Parse (Some (cstring demo_json)) =
     Inr (Some (Item cJSON_Array
       [Item cJSON_String [] (Some [97]) 0 (Fin 0) None, Item cJSON_Object [] None 0 (Fin 0) None] None 0 (Fin 0) None))"
  by code_simp

theorem cJSON_Parse_tree_witness:
  "\<exists>item. cJSON_Parse (Some (cstring demo_json)) = Inr (Some item) \<and> json_ok item \<and> json_height item = 2"
  using cJSON_Parse_tree [OF demo_json_parsed] demo_json_parsed by (simp add: cJSON_types)

text \<open>\<open>cJSON_ParseWithLength\<close> has no such guarantee: after a last comma the name of a member is read past the end.\<close>

lemma ParseWithLength_overread:
  "cJSON_ParseWithLength (Some [123, 34, 97, 34, 58, 123, 125, 44]) = Inl OutOfBounds"
  by code_simp

text \<open>Four characters that are no hexadecimal number decode to a terminator instead of being refused.\<close>

lemma bad_hex_accepted: "parse_hex4 [90, 90, 90, 90] = 0"
  by code_simp

end
