(* ===== verification/Config.thy ===== *)
theory Config
  imports CJsonProps
begin

text \<open>
  Start-up: the table-driven reader of configuration files of \<open>include/util/parser.h\<close>, the tables and the
  start-up code of client (\<open>src/client/hooks.cc\<close>) and server (\<open>src/server/metafs_server.cc\<close>) that use it, the
  identifiers drawn from memcached, and the filter of \<open>src/client/preload.cc\<close> that decides whether a process is
  hooked at all. A configuration structure is the map from the offsets of its fields to the values
  stored there; \<open>safe_alloc\<close> clears it, which is the empty map.
\<close>

section \<open>The table-driven reader\<close>

record conf_parser =
  cp_name :: "u8 list"
  cp_off :: nat
  cp_type :: u32
  cp_default :: "u8 list option"

datatype conf_value = ConfInt int | ConfString "u8 list" | ConfStrings "u8 list list" | ConfNull

type_synonym conf = "nat \<rightharpoonup> conf_value"

text \<open>\<open>atoi\<close>: optional spaces, an optional sign and digits.\<close>

definition atoi :: "u8 list \<Rightarrow> int" where
  "atoi s =
     (let s = dropWhile (\<lambda>c. c = 32 \<or> (9 \<le> c \<and> c \<le> 13)) s;
          signed = (s \<noteq> [] \<and> (hd s = 43 \<or> hd s = 45));
          n = int (digits_value (takeWhile is_digit (if signed then tl s else s)))
      in if signed \<and> hd s = 45 then - n else n)"

definition strdump :: "u8 list option \<Rightarrow> conf_value" where
  "strdump s = (case s of None \<Rightarrow> ConfNull | Some s \<Rightarrow> ConfString (cview s))"

text \<open>
  The default of an entry that is absent or has another type. The second comparison of the code is with
  \<open>cJSON_Number\<close> again, so a string's default is never copied.
\<close>

definition store_default :: "conf_parser \<Rightarrow> u8 list \<Rightarrow> conf \<Rightarrow> conf" where
  "store_default cpr d conf =
     (if cp_type cpr = cJSON_Number then conf(cp_off cpr \<mapsto> ConfInt (atoi d))
      else if cp_type cpr = cJSON_Number then conf(cp_off cpr \<mapsto> strdump (Some d))
      else conf(cp_off cpr \<mapsto> ConfNull))"

fun copy_strings :: "cJSON list \<Rightarrow> crash + u8 list list" where
  "copy_strings [] = Inr []"
| "copy_strings (ele # es) =
     (if \<not> cJSON_IsString (Some ele) then Inl PAssert
      else
        andThen (copy_strings es) (\<lambda>arr.
          Inr ((case item_valuestring ele of None \<Rightarrow> [] | Some s \<Rightarrow> cview s) # arr)))"

definition store_item :: "conf_parser \<Rightarrow> cJSON \<Rightarrow> conf \<Rightarrow> crash + conf" where
  "store_item cpr obj conf =
     (if cJSON_IsNumber (Some obj) then Inr (conf(cp_off cpr \<mapsto> ConfInt (item_valueint obj)))
      else if cJSON_IsString (Some obj) then Inr (conf(cp_off cpr \<mapsto> strdump (item_valuestring obj)))
      else if cJSON_IsArray (Some obj)
      then andThen (copy_strings (item_child obj)) (\<lambda>arr. Inr (conf(cp_off cpr \<mapsto> ConfStrings arr)))
      else Inr conf)"

definition parse_entry :: "cJSON \<Rightarrow> conf_parser \<Rightarrow> conf \<Rightarrow> crash + conf" where
  "parse_entry conf_json cpr conf =
     (case cJSON_GetObjectItem (Some conf_json) (Some (cp_name cpr)) of
        Some obj \<Rightarrow>
          if item_type obj AND 0xFF = cp_type cpr then store_item cpr obj conf
          else
            (case cp_default cpr of None \<Rightarrow> Inl PAssert | Some d \<Rightarrow> Inr (store_default cpr d conf))
      | None \<Rightarrow>
          (case cp_default cpr of None \<Rightarrow> Inl PAssert | Some d \<Rightarrow> Inr (store_default cpr d conf)))"

fun parse_entries_of :: "cJSON \<Rightarrow> conf_parser list \<Rightarrow> conf \<Rightarrow> crash + conf" where
  "parse_entries_of conf_json [] conf = Inr conf"
| "parse_entries_of conf_json (cpr # cprs) conf =
     andThen (parse_entry conf_json cpr conf) (parse_entries_of conf_json cprs)"

definition parse_from_str :: "conf \<Rightarrow> u8 list \<Rightarrow> conf_parser list \<Rightarrow> crash + conf" where
  "parse_from_str conf str cparser =
     andThen (cJSON_Parse (Some str)) (\<lambda>conf_json.
       case conf_json of
         None \<Rightarrow> Inl PAssert
       | Some conf_json \<Rightarrow> parse_entries_of conf_json cparser conf)"

text \<open>
  The file is read into a block of exactly its size, \<open>files\<close> giving the contents of the files that can be
  opened, and the block is handed to the parser as a string.
\<close>

definition parse_from_file ::
  "(u8 list \<Rightarrow> u8 list option) \<Rightarrow> conf \<Rightarrow> u8 list \<Rightarrow> conf_parser list \<Rightarrow> crash + conf" where
  "parse_from_file files conf fn cparser =
     (case files fn of None \<Rightarrow> Inl PAssert | Some buf \<Rightarrow> parse_from_str conf buf cparser)"

section \<open>Client and server configuration\<close>

text \<open>The tables, with the offsets of the fields in \<open>client_config\<close> and \<open>server_config\<close>.\<close>

definition entry :: "string \<Rightarrow> nat \<Rightarrow> u32 \<Rightarrow> string option \<Rightarrow> conf_parser" where
  "entry name off t d = \<lparr>cp_name = bytes_of name, cp_off = off, cp_type = t, cp_default = map_option bytes_of d\<rparr>"

definition client_cparser :: "conf_parser list" where
  "client_cparser =
     [entry ''client_threads'' 0 cJSON_Number (Some ''1''),
      entry ''local_ip'' 8 cJSON_String (Some ''localhost''),
      entry ''num_servers'' 16 cJSON_Number (Some ''1''),
      entry ''server_list'' 24 cJSON_Array None,
      entry ''server_fg_threads'' 32 cJSON_Number (Some ''1''),
      entry ''server_bg_threads'' 36 cJSON_Number (Some ''0''),
      entry ''mount_dir'' 40 cJSON_String (Some ''/tmp/metafs''),
      entry ''memcached_ip'' 56 cJSON_String (Some ''localhost''),
      entry ''memcached_port'' 64 cJSON_Number (Some ''0'')]"

definition server_cparser :: "conf_parser list" where
  "server_cparser =
     [entry ''local_ip'' 8 cJSON_String (Some ''localhost''),
      entry ''local_port'' 16 cJSON_Number (Some ''31851''),
      entry ''num_servers'' 20 cJSON_Number (Some ''1''),
      entry ''server_list'' 24 cJSON_Array None,
      entry ''server_fg_threads'' 32 cJSON_Number (Some ''1''),
      entry ''server_bg_threads'' 36 cJSON_Number (Some ''0''),
      entry ''metakv_pm_space'' 40 cJSON_Number (Some ''8''),
      entry ''metakv_path'' 48 cJSON_String (Some ''/tmp/''),
      entry ''rocksdb_path'' 56 cJSON_String (Some ''/tmp/''),
      entry ''memcached_ip'' 64 cJSON_String (Some ''localhost''),
      entry ''memcached_port'' 72 cJSON_Number (Some ''0'')]"

text \<open>Reading a field: a cleared integer is 0, a cleared pointer is null.\<close>

definition conf_int :: "conf \<Rightarrow> nat \<Rightarrow> int" where
  "conf_int conf off = (case conf off of Some (ConfInt n) \<Rightarrow> n | _ \<Rightarrow> 0)"

definition conf_string :: "conf \<Rightarrow> nat \<Rightarrow> crash + u8 list" where
  "conf_string conf off = (case conf off of Some (ConfString s) \<Rightarrow> Inr s | _ \<Rightarrow> Inl NullDeref)"

definition conf_pointer :: "conf \<Rightarrow> nat \<Rightarrow> u8 list option" where
  "conf_pointer conf off = (case conf off of Some (ConfString s) \<Rightarrow> Some s | _ \<Rightarrow> None)"

definition with_mountdir_len :: "conf \<Rightarrow> crash + conf" where
  "with_mountdir_len conf =
     andThen (conf_string conf 40) (\<lambda>mountdir. Inr (conf(48 \<mapsto> ConfInt (int (length mountdir)))))"

definition client_parse_config :: "(u8 list \<Rightarrow> u8 list option) \<Rightarrow> u8 list option \<Rightarrow> crash + conf" where
  "client_parse_config files fn =
     (case fn of
        None \<Rightarrow> Inl PAssert
      | Some fn \<Rightarrow> andThen (parse_from_file files Map.empty fn client_cparser) with_mountdir_len)"

definition server_parse_config :: "(u8 list \<Rightarrow> u8 list option) \<Rightarrow> u8 list option \<Rightarrow> crash + conf" where
  "server_parse_config files fn =
     (case fn of None \<Rightarrow> Inl PAssert | Some fn \<Rightarrow> parse_from_file files Map.empty fn server_cparser)"

section \<open>Identifiers and addresses\<close>

text \<open>
  What the code uses of memcached: whether a server with a host and a port can be attached, and the increment of a
  counter, with its success, the new value and the new state of the cache.
\<close>

record 'm memcached =
  mc_attach :: "u8 list option \<Rightarrow> int \<Rightarrow> bool"
  mc_increment :: "u8 list \<Rightarrow> 'm \<Rightarrow> bool \<times> u64 \<times> 'm"

definition mt_create_ctx :: "'m memcached \<Rightarrow> u8 list option \<Rightarrow> int \<Rightarrow> crash + u8 list \<times> int" where
  "mt_create_ctx M ip port =
     (if \<not> mc_attach M ip port then Inl PAssert
      else case ip of
             None \<Rightarrow> Inl NullDeref
           | Some ip \<Rightarrow> if length (cstring ip) \<le> 64 then Inr (ip, port) else Inl OutOfBounds)"

definition mt_incr :: "'m memcached \<Rightarrow> u8 list \<Rightarrow> 'm \<Rightarrow> crash + u32 \<times> 'm" where
  "mt_incr M key m =
     (case mc_increment M key m of
        (ok, val, m) \<Rightarrow> if ok \<and> val \<noteq> 0 then Inr (ucast val - 1, m) else Inl PAssert)"

text \<open>
  Storing and fetching values, which the start-up code does not use: \<open>mc_get\<close> returns the value found, or none, and its length.
\<close>

datatype memcached_return = MemcachedSuccess | MemcachedNotFound | MemcachedError

record 'm memcached_kv = "'m memcached" +
  mc_set :: "u8 list \<Rightarrow> u8 list \<Rightarrow> 'm \<Rightarrow> memcached_return \<times> 'm"
  mc_get :: "u8 list \<Rightarrow> 'm \<Rightarrow> memcached_return \<times> u8 list option \<times> u64"

definition mt_set ::
  "'m memcached_kv \<Rightarrow> (u8 list \<times> int) option \<Rightarrow> u8 list option \<Rightarrow> u8 list option \<Rightarrow> int \<Rightarrow> 'm \<Rightarrow> crash + 'm" where
  "mt_set M mi key value len m =
     (case (mi, key, value) of
        (Some _, Some key, Some value) \<Rightarrow>
          if len \<le> 0 then Inl PAssert
          else if length value < nat len then Inl OutOfBounds
          else (case mc_set M (cview key) (take (nat len) value) m of
                  (rc, m) \<Rightarrow> if rc = MemcachedSuccess then Inr m else Inl PAssert)
      | _ \<Rightarrow> Inl PAssert)"

text \<open>\<open>value\<close> and \<open>len\<close> say whether the caller passes pointers for the results; the result has what is stored there.\<close>

definition mt_get ::
  "'m memcached_kv \<Rightarrow> (u8 list \<times> int) option \<Rightarrow> u8 list option \<Rightarrow> bool \<Rightarrow> bool \<Rightarrow> 'm \<Rightarrow>
   crash + int \<times> u8 list option option \<times> u32 option" where
  "mt_get M mi key value len m =
     (case (mi, key) of
        (Some _, Some key) \<Rightarrow>
          (case mc_get M (cview key) m of
             (rt, val, slen) \<Rightarrow>
               if rt = MemcachedSuccess \<or> rt = MemcachedNotFound
               then Inr (if rt = MemcachedSuccess then 0 else 1,
                      if value then Some val else None, if len then Some (ucast slen) else None)
               else Inl PAssert)
      | _ \<Rightarrow> Inl PAssert)"

definition init_server_config ::
  "(u8 list \<Rightarrow> u8 list option) \<Rightarrow> u8 list option \<Rightarrow> 'm memcached \<Rightarrow> 'm \<Rightarrow> crash + conf \<times> 'm" where
  "init_server_config files fn M m =
     andThen (server_parse_config files fn) (\<lambda>s_cfg.
       if conf_int s_cfg 32 \<le> 40 \<and> 0 < conf_int s_cfg 32
       then
         andThen (mt_create_ctx M (conf_pointer s_cfg 64) (conf_int s_cfg 72)) (\<lambda>_.
         andThen (mt_incr M (bytes_of ''SERVER_ID'') m) (\<lambda>(sid, m).
           Inr (s_cfg(0 \<mapsto> ConfInt (sint sid)), m)))
       else Inl PAssert)"

definition to_string :: "int \<Rightarrow> u8 list" where
  "to_string n = (if n < 0 then 45 # decimal_nat (nat (- n)) else decimal_nat (nat n))"

definition kUDPPort_Client :: int where "kUDPPort_Client = 31855"

text \<open>The address \<open>ip:port\<close> goes into a block of 24 bytes with \<open>strcpy\<close>.\<close>

definition client_uri :: "u8 list \<Rightarrow> u32 \<Rightarrow> u8 list" where
  "client_uri ip cid = ip @ 58 # to_string (kUDPPort_Client + sint cid)"

definition copy_uri :: "u8 list \<Rightarrow> crash + u8 list" where
  "copy_uri uri = (if length (cstring uri) \<le> 24 then Inr uri else Inl OutOfBounds)"

text \<open>The part of \<open>init_client_ctx\<close> before the connections: configuration, id, address, number of server threads.\<close>

definition init_client_ids ::
  "(u8 list \<Rightarrow> u8 list option) \<Rightarrow> u8 list option \<Rightarrow> 'm memcached \<Rightarrow> 'm \<Rightarrow>
   crash + (conf \<times> u32 \<times> u8 list \<times> u32) \<times> 'm" where
  "init_client_ids files fn M m =
     andThen (client_parse_config files fn) (\<lambda>c_cfg.
     andThen (mt_create_ctx M (conf_pointer c_cfg 56) (conf_int c_cfg 64)) (\<lambda>_.
     andThen (mt_incr M (bytes_of ''CLIENT_ID'') m) (\<lambda>(cid, m).
     andThen (conf_string c_cfg 8) (\<lambda>ip.
     andThen (copy_uri (client_uri ip cid)) (\<lambda>uri.
       Inr ((c_cfg, cid, uri, of_int (conf_int c_cfg 16 * conf_int c_cfg 32)), m))))))"

section \<open>Which processes are hooked\<close>

definition cmdline_match :: "u8 list option \<Rightarrow> u8 list \<Rightarrow> bool" where
  "cmdline_match flt cmdline =
     (case flt of
        None \<Rightarrow> True
      | Some f \<Rightarrow>
          let flen = length f; clen = length cmdline
          in if clen < flen then False
             else if flen < clen \<and> cmdline ! (clen - flen - 1) \<noteq> 47 then False
             else drop (clen - flen) cmdline = f)"

text \<open>The two static variables of \<open>is_process_allowed\<close> are the decision, once taken.\<close>

definition is_process_allowed ::
  "u8 list option \<Rightarrow> u8 list option \<Rightarrow> bool option \<Rightarrow> bool \<times> bool option" where
  "is_process_allowed flt cmdline decided =
     (case decided of
        Some result \<Rightarrow> (result, decided)
      | None \<Rightarrow>
          (case cmdline of
             None \<Rightarrow> (False, None)
           | Some cmdline \<Rightarrow>
               let result = cmdline_match flt cmdline in (result, Some result)))"

text \<open>
  The constructor \<open>preload\<close> of the library: the decision, whether \<open>pthread_once\<close> has run the initialisation, and whether the
  hook is installed.
\<close>

record preload_state =
  ps_decided :: "bool option"
  ps_once :: bool
  ps_hooked :: bool

definition preload ::
  "('a \<Rightarrow> crash + 'a) \<Rightarrow> u8 list option \<Rightarrow> u8 list option \<Rightarrow> preload_state \<times> 'a \<Rightarrow>
   crash + preload_state \<times> 'a" where
  "preload init_client_ctx flt argv0 = (\<lambda>(p, s).
     case is_process_allowed flt argv0 (ps_decided p) of
       (allowed, decided) \<Rightarrow>
         let p = p\<lparr>ps_decided := decided\<rparr>
         in if \<not> allowed then Inr (p, s)
            else
              andThen (if ps_once p then Inr s else init_client_ctx s) (\<lambda>s.
                Inr (p\<lparr>ps_once := True, ps_hooked := True\<rparr>, s)))"

section \<open>What a configuration holds\<close>

text \<open>The value an entry of the table asks for.\<close>

definition field_value :: "cJSON \<Rightarrow> conf_parser \<Rightarrow> conf_value" where
  "field_value json cpr =
     (case cJSON_GetObjectItem (Some json) (Some (cp_name cpr)) of
        Some obj \<Rightarrow>
          if item_type obj AND 0xFF = cp_type cpr
          then (if cp_type cpr = cJSON_Number then ConfInt (item_valueint obj)
                else if cp_type cpr = cJSON_String then strdump (item_valuestring obj)
                else ConfStrings (map (\<lambda>e. cview (the (item_valuestring e))) (item_child obj)))
          else if cp_type cpr = cJSON_Number then ConfInt (atoi (the (cp_default cpr)))
          else ConfNull
      | None \<Rightarrow> if cp_type cpr = cJSON_Number then ConfInt (atoi (the (cp_default cpr))) else ConfNull)"

definition known_type :: "conf_parser \<Rightarrow> bool" where
  "known_type cpr \<longleftrightarrow> cp_type cpr = cJSON_Number \<or> cp_type cpr = cJSON_String \<or> cp_type cpr = cJSON_Array"

lemma json_ok_type: "json_ok it \<Longrightarrow> item_type it AND 0xFF = item_type it"
  by (cases it) (auto simp: cJSON_types)

lemma json_ok_child: "json_ok it \<Longrightarrow> c \<in> set (item_child it) \<Longrightarrow> json_ok c"
  by (cases it) (auto simp: list_all_iff)

lemma json_ok_string: "json_ok it \<Longrightarrow> item_type it = cJSON_String \<Longrightarrow> item_valuestring it \<noteq> None"
  by (cases it) auto

lemma first_named_nocase_in: "first_named_nocase name cs = Some c \<Longrightarrow> c \<in> set cs"
  by (induction cs) (auto split: if_splits)

lemma object_item_ok:
  "json_ok json \<Longrightarrow> cJSON_GetObjectItem (Some json) (Some name) = Some obj \<Longrightarrow> json_ok obj"
  by (auto simp: cJSON_GetObjectItem_def get_object_item_def dest: first_named_nocase_in json_ok_child)

lemma copy_strings_value:
  assumes "copy_strings es = Inr arr" "list_all json_ok es"
  shows "arr = map (\<lambda>e. cview (the (item_valuestring e))) es"
  using assms
proof (induction es arbitrary: arr)
  case (Cons e es)
  from Cons.prems have "item_type e = cJSON_String"
    using json_ok_type [of e] by (auto simp: cJSON_Is_defs has_type_def split: if_splits)
  with Cons.prems json_ok_string [of e] show ?case
    by (auto dest: Cons.IH split: if_splits)
qed simp

lemma parse_entry_value:
  assumes "parse_entry json cpr conf = Inr conf'" "json_ok json" "known_type cpr"
  shows "conf' = conf(cp_off cpr \<mapsto> field_value json cpr)"
proof (cases "cJSON_GetObjectItem (Some json) (Some (cp_name cpr))")
  case None
  with assms show ?thesis
    by (auto simp: parse_entry_def field_value_def store_default_def split: option.splits)
next
  case (Some obj)
  have ok: "json_ok obj" using object_item_ok [OF assms(2) Some] .
  then have ch: "list_all json_ok (item_child obj)" by (cases obj) simp
  show ?thesis
  proof (cases "item_type obj AND 0xFF = cp_type cpr")
    case True
    with assms Some have "store_item cpr obj conf = Inr conf'" by (simp add: parse_entry_def)
    then show ?thesis
      using assms(3) True Some copy_strings_value [OF _ ch]
      by (auto simp: store_item_def field_value_def known_type_def cJSON_Is_defs has_type_def cJSON_types split: if_splits)
  next
    case False
    with assms Some show ?thesis
      by (auto simp: parse_entry_def field_value_def store_default_def split: option.splits)
  qed
qed

lemma parse_entries_value:
  assumes "parse_entries_of json cprs conf = Inr conf'" "json_ok json" "list_all known_type cprs"
    "distinct (map cp_off cprs)"
  shows "(\<forall>cpr \<in> set cprs. conf' (cp_off cpr) = Some (field_value json cpr)) \<and>
    (\<forall>off. off \<notin> cp_off ` set cprs \<longrightarrow> conf' off = conf off)"
  using assms
proof (induction cprs arbitrary: conf)
  case (Cons cpr cprs)
  from Cons.prems obtain conf1 where e: "parse_entry json cpr conf = Inr conf1"
    and r: "parse_entries_of json cprs conf1 = Inr conf'" by auto
  have "conf1 = conf(cp_off cpr \<mapsto> field_value json cpr)"
    using parse_entry_value [OF e Cons.prems(2)] Cons.prems(3) by simp
  with Cons.IH [OF r Cons.prems(2)] Cons.prems(3,4) show ?case by auto
qed simp

lemma cparser_tables:
  assumes "tbl = client_cparser \<or> tbl = server_cparser"
  shows "list_all known_type tbl" "distinct (map cp_off tbl)"
  using assms by (auto simp: client_cparser_def server_cparser_def entry_def known_type_def)


text \<open>
  The file reader hands the parser a block without a terminator: for every file that holds no zero byte, which is
  every text file, reading the configuration of client or server looks for the end of the text past the block.
\<close>

theorem config_file_overread:
  assumes "files fn = Some buf" "0 \<notin> set buf"
  shows "client_parse_config files (Some fn) = Inl OutOfBounds \<and> server_parse_config files (Some fn) = Inl OutOfBounds"
  using assms
  by (simp add: client_parse_config_def server_parse_config_def parse_from_file_def parse_from_str_def
      cJSON_Parse_def cJSON_ParseWithOpts_def cstr_of_None_iff [THEN iffD2])

text \<open>
  The table gives the mount point of the client a default, but a configuration without it makes the client
  crash: the default of a string is never stored, and the length of the null pointer is taken.
\<close>

theorem mount_dir_default_lost:
  assumes "parse_from_str Map.empty str client_cparser = Inr conf" "cJSON_Parse (Some str) = Inr (Some json)"
    "cJSON_GetObjectItem (Some json) (Some (bytes_of ''mount_dir'')) = None"
  shows "with_mountdir_len conf = Inl NullDeref"
proof -
  let ?e = "entry ''mount_dir'' 40 cJSON_String (Some ''/tmp/metafs'')"
  from assms(1,2) have e: "parse_entries_of json client_cparser Map.empty = Inr conf" by (simp add: parse_from_str_def)
  have "json_ok json" using parsed_tree_ok [OF assms(2)] by simp
  with parse_entries_value [OF e _ cparser_tables [of client_cparser]]
  have "\<forall>cpr \<in> set client_cparser. conf (cp_off cpr) = Some (field_value json cpr)" by blast
  moreover have "?e \<in> set client_cparser" by (simp add: client_cparser_def)
  ultimately have "conf (cp_off ?e) = Some (field_value json ?e)" by blast
  then have "conf 40 = Some ConfNull" using assms(3) by (simp add: entry_def field_value_def cJSON_types)
  then show ?thesis by (simp add: with_mountdir_len_def conf_string_def)
qed

section \<open>Addresses and filters\<close>

text \<open>What was stored is fetched, if the cache keeps it.\<close>

lemma mt_set_get:
  assumes "mt_set M mi (Some key) (Some value) len m = Inr m'" "len < 2 ^ 31"
    and "\<And>k v. mc_set M k v m = (MemcachedSuccess, m') \<Longrightarrow> mc_get M k m' = (MemcachedSuccess, Some v, of_nat (length v))"
  shows "mt_get M mi (Some key) True True m' = Inr (0, Some (Some (take (nat len) value)), Some (word_of_int len))"
  using assms by (auto simp: mt_set_def mt_get_def unsigned_of_int take_bit_int_eq_self split: option.splits if_splits prod.splits)

lemma length_decimal_nat:
  "10 ^ k \<le> n \<Longrightarrow> n < 10 ^ Suc k \<Longrightarrow> length (decimal_nat n) = Suc k"
proof (induction k arbitrary: n)
  case 0
  then show ?case by (simp add: decimal_nat.simps [of n])
next
  case (Suc k)
  then have "10 ^ k \<le> n div 10" "n div 10 < 10 ^ Suc k" by (auto simp: less_mult_imp_div_less div_le_mono)
  moreover have "(10 :: nat) * 1 \<le> 10 * 10 ^ k" by (intro mult_le_mono) simp_all
  then have "\<not> n < 10" using Suc.prems(1) by (simp only: power_Suc not_less)
  ultimately show ?case using Suc.IH [of "n div 10"] by (simp add: decimal_nat.simps [of n])
qed

text \<open>
  With up to 68145 clients, whose ports have five digits, the address of a client fits the block of 24 bytes exactly
  if the configured host has at most 17 characters; a longer one overruns the block.
\<close>

theorem client_uri_fits:
  assumes "0 \<le> sint cid" "sint cid < 68145"
  shows "copy_uri (client_uri ip cid) =
    (if length ip \<le> 17 then Inr (client_uri ip cid) else Inl OutOfBounds)"
proof -
  have "length (decimal_nat (nat (kUDPPort_Client + sint cid))) = Suc 4"
    using assms by (intro length_decimal_nat) (simp_all add: kUDPPort_Client_def nat_le_iff le_nat_iff nat_less_iff)
  then show ?thesis
    using assms by (simp add: copy_uri_def client_uri_def to_string_def kUDPPort_Client_def)
qed

text \<open>
  A process is hooked if there is no filter or if the filter is the whole command or a suffix of it that starts
  after a slash; the answer of the first call with a command is kept for all later ones.
\<close>

theorem process_filter:
  "fst (is_process_allowed flt (Some cmdline) None) =
     (case flt of None \<Rightarrow> True | Some f \<Rightarrow> \<exists>pre. cmdline = pre @ f \<and> (pre = [] \<or> last pre = 47)) \<and>
   fst (is_process_allowed flt' cmdline' (snd (is_process_allowed flt (Some cmdline) None))) =
     fst (is_process_allowed flt (Some cmdline) None)"
proof -
  have "cmdline_match (Some f) cmdline \<longleftrightarrow> (\<exists>pre. cmdline = pre @ f \<and> (pre = [] \<or> last pre = 47))" (is "?m \<longleftrightarrow> ?s") for f
  proof
    assume m: ?m
    let ?pre = "take (length cmdline - length f) cmdline"
    have l: "length f \<le> length cmdline" and d: "drop (length cmdline - length f) cmdline = f"
      using m by (auto simp: cmdline_match_def Let_def split: if_splits)
    have "last ?pre = 47" if ne: "?pre \<noteq> []"
      using m l ne unfolding last_conv_nth [OF ne] by (auto simp: cmdline_match_def Let_def split: if_splits)
    moreover have "cmdline = ?pre @ f" using d by (metis append_take_drop_id)
    ultimately show ?s by blast
  next
    assume ?s
    then obtain pre where "cmdline = pre @ f" "pre = [] \<or> last pre = 47" by blast
    then show ?m by (cases pre rule: rev_cases) (auto simp: cmdline_match_def Let_def nth_append)
  qed
  then show ?thesis
    by (cases flt) (simp_all add: is_process_allowed_def Let_def cmdline_match_def [of None])
qed

text \<open>\<open>{"server_list":[]}\<close> is a client configuration with all defaults.\<close>

definition demo_conf :: "u8 list" where
  "demo_conf = [123, 34] @ bytes_of ''server_list'' @ [34, 58, 91, 93, 125]"

definition demo_tree :: cJSON where
  "demo_tree = Item cJSON_Object [Item cJSON_Array [] None 0 (Fin 0) (Some (bytes_of ''server_list''))] None 0 (Fin 0) None"

lemma demo_tree_accepted:
  "case parse_entries_of demo_tree client_cparser Map.empty of
     Inl _ \<Rightarrow> False | Inr conf \<Rightarrow> conf 24 = Some (ConfStrings [])"
  by code_simp


lemma demo_conf_parsed:
  "cJSON_Parse (Some (cstring demo_conf)) = Inr (Some demo_tree)"
  by code_simp

lemma demo_conf_accepted:
  obtains conf where "parse_from_str Map.empty (cstring demo_conf) client_cparser = Inr conf"
    "conf 24 = Some (ConfStrings [])"
  using demo_tree_accepted that
  by (auto simp: parse_from_str_def demo_conf_parsed split: sum.splits)


theorem config_file_overread_witness:
  "client_parse_config (\<lambda>_. Some demo_conf) (Some [47]) = Inl OutOfBounds"
proof -
  have "0 \<notin> set demo_conf" by code_simp
  with config_file_overread [of "\<lambda>_. Some demo_conf" "[47]" demo_conf] show ?thesis by simp
qed

theorem mount_dir_default_lost_witness:
  "\<exists>conf. parse_from_str Map.empty (cstring demo_conf) client_cparser = Inr conf \<and>
     with_mountdir_len conf = Inl NullDeref"
proof -
  obtain conf where c: "parse_from_str Map.empty (cstring demo_conf) client_cparser = Inr conf"
    by (rule demo_conf_accepted)
  have "cJSON_GetObjectItem (Some demo_tree) (Some (bytes_of ''mount_dir'')) = None" by code_simp
  from mount_dir_default_lost [OF c demo_conf_parsed this] c show ?thesis by blast
qed

theorem client_uri_fits_witness:
  "copy_uri (client_uri (bytes_of ''192.168.1.22'') 7) = Inr (bytes_of ''192.168.1.22:31862'')"
proof -
  have "client_uri (bytes_of ''192.168.1.22'') 7 = bytes_of ''192.168.1.22:31862''"
    by (simp add: client_uri_def to_string_def kUDPPort_Client_def decimal_nat.simps bytes_of_def)
  with client_uri_fits [of 7 "bytes_of ''192.168.1.22''"] show ?thesis by (simp add: bytes_of_def)
qed

end
