(* ===== verification/StartUp.thy ===== *)
theory StartUp
  imports MetaClient Migration Config "HOL-Library.Multiset"
begin

text \<open>
  How a client and a server come up: the sessions to every server thread (\<open>include/rpc/rpc_client.h\<close>, \<open>split_region_thread\<close> in
  \<open>src/server/metafs_server.cc\<close>), the client's context (\<open>init_client_ctx\<close> in \<open>src/client/hooks.cc\<close>) and the threads of a server with
  their stores (\<open>init_server_context\<close>, \<open>init_and_start_loop\<close>).
\<close>

section \<open>The transport's side\<close>

text \<open>
  \<open>sn_create uri j\<close> is the session number for thread \<open>j\<close> of the server at an address, \<open>sn_events n\<close> the session-management callbacks that round
  \<open>n\<close> of the event loop makes (session number, event, whether there was an error), \<open>sn_connected\<close> the test after the loop,
  and \<open>sn_alloc\<close> a message buffer of a size.
\<close>

type_synonym sm_event = "int \<times> SmEventType \<times> bool"

record session_net =
  sn_create :: "u8 list \<Rightarrow> nat \<Rightarrow> int"
  sn_events :: "nat \<Rightarrow> sm_event list"
  sn_connected :: "int \<Rightarrow> bool"
  sn_alloc :: "nat \<Rightarrow> nat \<Rightarrow> mem"

section \<open>Connecting\<close>

definition st_basic_sm_handler ::
  "int list \<Rightarrow> int \<Rightarrow> SmEventType \<Rightarrow> bool \<Rightarrow> u32 \<Rightarrow> crash + u32" where
  "st_basic_sm_handler s2s_session_num_vec session_num ev err num_sm_resps =
     (if err then Inl Uncaught
      else if \<not> (ev = kConnected \<or> ev = kDisconnected) then Inl Uncaught
      else
        let n = length s2s_session_num_vec;
            session_idx = fold (\<lambda>i idx. if s2s_session_num_vec ! i = session_num then i else idx) [0..<n] n
        in if session_idx < n then Inr (num_sm_resps + 1) else Inl Uncaught)"

fun run_event_loop_once :: "(int \<Rightarrow> SmEventType \<Rightarrow> bool \<Rightarrow> u32 \<Rightarrow> crash + u32) \<Rightarrow> sm_event list \<Rightarrow> u32 \<Rightarrow> crash + u32" where
  "run_event_loop_once sm_handler [] r = Inr r"
| "run_event_loop_once sm_handler ((s, ev, err) # evs) r = andThen (sm_handler s ev err r) (run_event_loop_once sm_handler evs)"

text \<open>The loop goes on until the number of responses is exactly the number of sessions.\<close>

partial_function (option) wait_sessions ::
  "(int \<Rightarrow> SmEventType \<Rightarrow> bool \<Rightarrow> u32 \<Rightarrow> crash + u32) \<Rightarrow> (nat \<Rightarrow> sm_event list) \<Rightarrow> u32 \<Rightarrow> nat \<Rightarrow> u32 \<Rightarrow> (crash + u32) option" where
  "wait_sessions sm_handler events expected n r =
     (if r = expected then Some (Inr r)
      else case run_event_loop_once sm_handler (events n) r of
             Inl e \<Rightarrow> Some (Inl e)
           | Inr r \<Rightarrow> wait_sessions sm_handler events expected (n + 1) r)"

definition sessions_up :: "session_net \<Rightarrow> nat \<Rightarrow> nat \<Rightarrow> int list \<Rightarrow> bool" where
  "sessions_up N num_servers fg_threads session_num_vec =
     list_all (\<lambda>(k, i, j). sn_connected N (session_num_vec ! k)) (session_slots num_servers fg_threads)"

definition MAX_MSG_BUF_WINDOW :: nat where "MAX_MSG_BUF_WINDOW = 8"

definition alloc_req_resp_msg_buffers :: "session_net \<Rightarrow> (mem \<times> mem) list" where
  "alloc_req_resp_msg_buffers N =
     map (\<lambda>msgbuf_idx. (sn_alloc N (2 * msgbuf_idx) sizeof_wire_req, sn_alloc N (2 * msgbuf_idx + 1) sizeof_wire_resp))
       [0..<MAX_MSG_BUF_WINDOW]"

text \<open>
  The constructor of \<open>RpcClient\<close>, and what \<open>split_region_thread\<close> does before its loop. The addresses are read from the
  configured list, which may be shorter than the configured number of servers.
\<close>

definition RpcClient_init ::
  "session_net \<Rightarrow> u8 list list \<Rightarrow> nat \<Rightarrow> nat \<Rightarrow> u32 \<Rightarrow> crash + int list \<times> (mem \<times> mem) list" where
  "RpcClient_init N server_list num_servers fg_threads n_sessions =
     (if 0 < fg_threads \<and> length server_list < num_servers then Inl OutOfBounds
      else
        let session_num_vec = connect_sessions (\<lambda>i. sn_create N (server_list ! i)) num_servers fg_threads
        in case wait_sessions (client_basic_sm_handler session_num_vec) (sn_events N) n_sessions 0 0 of
             None \<Rightarrow> Inl Hang
           | Some (Inl e) \<Rightarrow> Inl e
           | Some (Inr r) \<Rightarrow>
               if sessions_up N num_servers fg_threads session_num_vec
               then Inr (session_num_vec, alloc_req_resp_msg_buffers N)
               else Inl PAssert)"

definition split_thread_init ::
  "session_net \<Rightarrow> u8 list list \<Rightarrow> nat \<Rightarrow> nat \<Rightarrow> crash + u32 \<times> int list \<times> (mem \<times> mem) list" where
  "split_thread_init N server_list num_servers fg_threads =
     (let n_sessions = of_nat num_servers * of_nat fg_threads
      in if 0 < fg_threads \<and> length server_list < num_servers then Inl OutOfBounds
         else
           let s2s_session_num_vec = connect_sessions (\<lambda>i. sn_create N (server_list ! i)) num_servers fg_threads
           in case wait_sessions (st_basic_sm_handler s2s_session_num_vec) (sn_events N) n_sessions 0 0 of
                None \<Rightarrow> Inl Hang
              | Some (Inl e) \<Rightarrow> Inl e
              | Some (Inr r) \<Rightarrow>
                  if sessions_up N num_servers fg_threads s2s_session_num_vec
                  then Inr (n_sessions, s2s_session_num_vec, alloc_req_resp_msg_buffers N)
                  else Inl PAssert)"

section \<open>The session vector\<close>

lemma fold_last_index:
  "fold (\<lambda>i idx. if P i then i else idx) xs d = (if \<exists>x\<in>set xs. P x then last (filter P xs) else d)"
  by (induction xs rule: rev_induct) auto

lemma st_basic_sm_handler_is_client: "st_basic_sm_handler = client_basic_sm_handler"
proof (intro ext)
  fix v :: "int list" and s ev err r
  let ?P = "\<lambda>i. v ! i = s" and ?n = "length v"
  have "last (filter ?P [0..<?n]) < ?n" if "\<exists>i\<in>set [0..<?n]. ?P i"
    using last_in_set [of "filter ?P [0..<?n]"] that by (fastforce simp: filter_empty_conv)
  then have "(fold (\<lambda>i idx. if ?P i then i else idx) [0..<?n] ?n < ?n) = (s \<in> set v)"
    unfolding fold_last_index by (auto simp: in_set_conv_nth)
  then show "st_basic_sm_handler v s ev err r = client_basic_sm_handler v s ev err r"
    by (simp add: st_basic_sm_handler_def client_basic_sm_handler_def)
qed

lemma slots_fst: "map fst (session_slots ns fg) = [0..<ns * fg]"
proof (induction ns)
  case (Suc ns)
  have "map (\<lambda>j. ns * fg + j) [0..<fg] = [ns * fg..<ns * fg + fg]" by (rule nth_equalityI) simp_all
  moreover have "[0..<ns * fg] @ [ns * fg..<ns * fg + fg] = [0..<ns * fg + fg]" by (rule upt_add_eq_append [symmetric]) simp
  ultimately show ?case using Suc.IH by (simp add: session_slots_def map_concat comp_def add.commute)
qed (simp add: session_slots_def)

lemma slots_length [simp]: "length (session_slots ns fg) = ns * fg"
  using arg_cong [OF slots_fst, of length] by simp

lemma fold_store_length: "length (fold (\<lambda>(k, i, j) v. v[k := f i j]) xs v) = length v"
  by (induction xs arbitrary: v) auto

lemma fold_store_nth:
  assumes "distinct (map fst xs)" "(k, i, j) \<in> set xs" "k < length v"
  shows "fold (\<lambda>(k, i, j) v. v[k := f i j]) xs v ! k = f i j"
  using assms
proof (induction xs rule: rev_induct)
  case (snoc x xs)
  obtain k' i' j' where x: "x = (k', i', j')" by (cases x)
  show ?case
  proof (cases "(k, i, j) \<in> set xs")
    case True
    then have "k \<noteq> k'" using snoc.prems(1) by (force simp: x)
    then show ?thesis using snoc True by (simp add: x)
  next
    case False
    then have "k' = k" "i' = i" "j' = j" using snoc.prems(2) by (simp_all add: x)
    then show ?thesis using snoc.prems(3) by (simp add: x fold_store_length)
  qed
qed simp

lemma slot_in: "i < ns \<Longrightarrow> j < fg \<Longrightarrow> (i * fg + j, i, j) \<in> set (session_slots ns fg)"
  by (auto simp: session_slots_def intro!: bexI [of _ i])

lemma connect_sessions_length [simp]: "length (connect_sessions f ns fg) = ns * fg"
  by (simp add: connect_sessions_def fold_store_length)

lemma slot_entry: "(k, i, j) \<in> set (session_slots ns fg) \<Longrightarrow> k < ns * fg \<and> connect_sessions f ns fg ! k = f i j"
proof -
  assume s: "(k, i, j) \<in> set (session_slots ns fg)"
  then have "k \<in> set (map fst (session_slots ns fg))" by force
  then have "k < ns * fg" by (simp add: slots_fst)
  then show ?thesis unfolding connect_sessions_def using s by (simp add: fold_store_nth slots_fst)
qed

section \<open>Waiting\<close>

abbreviation connected_events :: "(nat \<Rightarrow> nat \<Rightarrow> int) \<Rightarrow> nat \<Rightarrow> nat \<Rightarrow> sm_event list" where
  "connected_events f ns fg \<equiv> map (\<lambda>(k, i, j). (f i j, kConnected, False)) (session_slots ns fg)"

lemma run_connected:
  assumes "\<forall>e\<in>set evs. \<exists>s\<in>set v. e = (s, kConnected, False)"
  shows "run_event_loop_once (client_basic_sm_handler v) evs r = Inr (r + of_nat (length evs))"
  using assms by (induction evs arbitrary: r) (auto simp: client_basic_sm_handler_def algebra_simps)

lemma wait_connected:
  assumes "\<And>m. m < k \<Longrightarrow> \<forall>e\<in>set (events m). \<exists>s\<in>set v. e = (s, kConnected, False)"
    and "n \<le> k" "expected = r + of_nat (length (concat (map events [n..<k])))"
  shows "wait_sessions (client_basic_sm_handler v) events expected n r = Some (Inr expected)"
  using assms(2,3)
proof (induction "k - n" arbitrary: n r)
  case 0
  then show ?case by (subst wait_sessions.simps) simp
next
  case (Suc d)
  then have n: "n < k" by simp
  then have "[n..<k] = n # [Suc n..<k]" by (rule upt_conv_Cons)
  then have e: "expected = (r + of_nat (length (events n))) + of_nat (length (concat (map events [Suc n..<k])))"
    using Suc.prems(2) by simp
  have "wait_sessions (client_basic_sm_handler v) events expected (Suc n) (r + of_nat (length (events n))) = Some (Inr expected)"
    by (rule Suc.hyps(1) [OF _ _ e]) (use Suc.hyps(2) n in simp_all)
  then show ?case by (subst wait_sessions.simps) (simp add: run_connected [OF assms(1) [OF n]])
qed

lemma connected_event:
  assumes "e \<in> set (connected_events f ns fg)"
  shows "\<exists>s\<in>set (connect_sessions f ns fg). e = (s, kConnected, False)"
proof -
  from assms obtain k i j where kij: "(k, i, j) \<in> set (session_slots ns fg)" "e = (f i j, kConnected, False)" by auto
  from slot_entry [OF kij(1), of f] have "f i j \<in> set (connect_sessions f ns fg)"
    by (metis connect_sessions_length nth_mem)
  then show ?thesis using kij(2) by blast
qed

lemma sessions_established:
  assumes "mset (concat (map (sn_events N) [0..<k])) = mset (connected_events f ns fg)"
  shows "wait_sessions (client_basic_sm_handler (connect_sessions f ns fg)) (sn_events N) (of_nat (ns * fg)) 0 0
    = Some (Inr (of_nat (ns * fg)))"
proof (rule wait_connected)
  fix m assume "m < k"
  have "set (sn_events N m) \<subseteq> set (concat (map (sn_events N) [0..<k]))" using \<open>m < k\<close> by auto
  also have "\<dots> = set (connected_events f ns fg)" using assms by (metis set_mset_mset)
  finally show "\<forall>e\<in>set (sn_events N m). \<exists>s\<in>set (connect_sessions f ns fg). e = (s, kConnected, False)"
    using connected_event by blast
next
  show "of_nat (ns * fg) = 0 + of_nat (length (concat (map (sn_events N) [0..<k])))"
    using mset_eq_length [OF assms] by simp
qed simp

lemma sessions_up_iff: "sessions_up N ns fg (connect_sessions f ns fg) \<longleftrightarrow> (\<forall>i<ns. \<forall>j<fg. sn_connected N (f i j))"
proof -
  have "i < ns \<and> j < fg" if "(k, i, j) \<in> set (session_slots ns fg)" for k i j
    using that by (auto simp: session_slots_def)
  moreover have "sn_connected N (connect_sessions f ns fg ! k) = sn_connected N (f i j)"
    if "(k, i, j) \<in> set (session_slots ns fg)" for k i j using slot_entry [OF that] by simp
  ultimately show ?thesis
    unfolding sessions_up_def list_all_iff using slot_in [of _ ns _ fg] by blast
qed

text \<open>
  C37: Client and split thread connect to every thread of every server. If the transport reports the establishment of each
  session once, in whatever order and number of rounds, and nothing else before, and the sessions are then connected, both
  start-up loops end and yield the same vector of session numbers, with the session for thread \<open>j\<close> of server \<open>i\<close> at
  \<open>i * server_fg_threads + j\<close>, and eight pairs of message buffers.
\<close>

theorem sessions_connect:
  assumes "mset (concat (map (sn_events N) [0..<k])) =
      mset (map (\<lambda>(k, i, j). (sn_create N (server_list ! i) j, kConnected, False)) (session_slots ns fg))"
    and "\<forall>i<ns. \<forall>j<fg. sn_connected N (sn_create N (server_list ! i) j)" and "ns \<le> length server_list"
  shows "\<exists>v bufs. RpcClient_init N server_list ns fg (of_nat ns * of_nat fg) = Inr (v, bufs) \<and>
    split_thread_init N server_list ns fg = Inr (of_nat ns * of_nat fg, v, bufs) \<and>
    length v = ns * fg \<and> (\<forall>i<ns. \<forall>j<fg. v ! (i * fg + j) = sn_create N (server_list ! i) j) \<and> length bufs = 8"
  using sessions_established [OF assms(1)] assms(2,3) slot_entry [OF slot_in]
  by (auto simp: RpcClient_init_def split_thread_init_def st_basic_sm_handler_is_client sessions_up_iff
      alloc_req_resp_msg_buffers_def MAX_MSG_BUF_WINDOW_def Let_def)

definition demo_net :: session_net where
  "demo_net = \<lparr>sn_create = (\<lambda>uri j. if uri = [97] then 7 else 6),
     sn_events = (\<lambda>n. if n = 1 then [(6, kConnected, False)] else if n = 2 then [(7, kConnected, False)] else []),
     sn_connected = (\<lambda>s. True), sn_alloc = (\<lambda>n size a. 0)\<rparr>"

theorem sessions_connect_witness:
  "\<exists>bufs. RpcClient_init demo_net [[97], [98]] 2 1 2 = Inr ([7, 6], bufs) \<and>
    split_thread_init demo_net [[97], [98]] 2 1 = Inr (2, [7, 6], bufs)"
proof -
  let ?l = "[[97], [98]] :: u8 list list"
  have e: "mset (concat (map (sn_events demo_net) [0..<3])) =
      mset (map (\<lambda>(k, i, j). (sn_create demo_net (?l ! i) j, kConnected, False)) (session_slots 2 1))"
    by (simp add: demo_net_def session_slots_def upt_rec numeral_2_eq_2)
  have c: "\<forall>i<2. \<forall>j<1. sn_connected demo_net (sn_create demo_net (?l ! i) j)" by (simp add: demo_net_def)
  from sessions_connect [OF e c] obtain v bufs where
    v: "RpcClient_init demo_net ?l 2 1 (of_nat 2 * of_nat 1) = Inr (v, bufs)"
      "split_thread_init demo_net ?l 2 1 = Inr (of_nat 2 * of_nat 1, v, bufs)"
      "length v = 2 * 1" "\<forall>i<2. \<forall>j<1. v ! (i * 1 + j) = sn_create demo_net (?l ! i) j" by auto
  have "v ! 0 = 7" "v ! 1 = 6" using v(4) [rule_format, of 0 0] v(4) [rule_format, of 1 0] by (simp_all add: demo_net_def)
  then have "v = [7, 6]" using v(3) by (intro nth_equalityI) (auto simp: less_Suc_eq numeral_2_eq_2)
  then show ?thesis using v(1,2) by simp
qed

text \<open>An error that the transport reports for a session ends the process; a server that never answers keeps it waiting.\<close>

lemma connect_refused:
  assumes "n_sessions \<noteq> 0" "ns \<le> length server_list" "sn_events N 0 = (s, ev, True) # evs"
  shows "RpcClient_init N server_list ns fg n_sessions = Inl Uncaught"
  using assms by (simp add: RpcClient_init_def wait_sessions.simps [of _ _ _ 0] client_basic_sm_handler_def)

lemma wait_silent:
  assumes "\<And>m. events m = []" "r \<noteq> expected"
  shows "wait_sessions h events expected n r = None"
proof -
  have "wait_sessions h events expected n r = Some y \<Longrightarrow> (\<forall>m. events m = []) \<longrightarrow> r = expected" for y
    by (erule wait_sessions.raw_induct [where P = "\<lambda>h events expected n r y. (\<forall>m. events m = []) \<longrightarrow> r = expected", rotated])
      (intro impI, simp split: if_splits)
  then show ?thesis using assms by (cases "wait_sessions h events expected n r") auto
qed

lemma connect_waits_for_ever:
  assumes "n_sessions \<noteq> 0" "ns \<le> length server_list" "\<And>m. sn_events N m = []"
  shows "RpcClient_init N server_list ns fg n_sessions = Inl Hang"
  using assms by (simp add: RpcClient_init_def wait_silent)

section \<open>Starting a client\<close>

definition conf_strings :: "conf \<Rightarrow> nat \<Rightarrow> crash + u8 list list" where
  "conf_strings conf off = (case conf off of Some (ConfStrings l) \<Rightarrow> Inr l | _ \<Rightarrow> Inl NullDeref)"

definition init_client_ctx ::
  "(u8 list \<Rightarrow> u8 list option) \<Rightarrow> u8 list option \<Rightarrow> 'm memcached \<Rightarrow> session_net \<Rightarrow> 'w client_env \<Rightarrow> 'w \<Rightarrow> 'm \<Rightarrow>
   crash + (conf \<times> u8 list \<times> int list \<times> 'w client_context) \<times> 'm" where
  "init_client_ctx disk fn M N E w m =
     andThen (init_client_ids disk fn M m) (\<lambda>((c_cfg, cid, uri, n_sessions), m).
     andThen (conf_strings c_cfg 24) (\<lambda>server_list.
     andThen (RpcClient_init N server_list (nat (conf_int c_cfg 16)) (nat (conf_int c_cfg 32)) n_sessions) (\<lambda>(session_num_vec, window).
     andThen (ReadRegionmap E
         \<lparr>cc_id = cid, total_servers = n_sessions, cc_dentry_cache = DentryCache 10000, cc_region_map = [],
          cc_req = fst (window ! 0), cc_resp = snd (window ! 0), cc_net = w\<rparr>) (\<lambda>(res, c).
       if res = 0 then Inr ((c_cfg, uri, session_num_vec, c), m) else Inl PAssert))))"

section \<open>Starting a server\<close>

text \<open>
  \<open>so_metadb\<close> and \<open>so_logdb\<close> open the stores at a path, the first with a size of persistent memory; nothing if they report an error.
\<close>

record ('db, 'l) store_opener =
  so_metadb :: "u64 \<Rightarrow> u8 list \<Rightarrow> 'db option"
  so_logdb :: "u8 list \<Rightarrow> 'l option"

text \<open>\<open>to_string((s_cfg->id << 8) + thread_id)\<close>: the shift in 32 bits, the sum in 64 bits without sign.\<close>

definition store_suffix :: "u32 \<Rightarrow> u64 \<Rightarrow> u8 list" where
  "store_suffix server_id tid = decimal_nat (unat (scast (push_bit 8 server_id) + tid :: u64))"

definition metadb_path :: "u8 list \<Rightarrow> u32 \<Rightarrow> u64 \<Rightarrow> u8 list" where
  "metadb_path metakv_path server_id tid = metakv_path @ bytes_of ''metafs_metakv_'' @ store_suffix server_id tid"

definition logdb_path :: "u8 list \<Rightarrow> u32 \<Rightarrow> u64 \<Rightarrow> u8 list" where
  "logdb_path rocksdb_path server_id tid = rocksdb_path @ bytes_of ''metafs_rocksdb_'' @ store_suffix server_id tid"

abbreviation conf_u32 :: "conf \<Rightarrow> nat \<Rightarrow> u32" where "conf_u32 conf off \<equiv> word_of_int (conf_int conf off)"

definition run_server_thread ::
  "('db, 'l) store_opener \<Rightarrow> conf \<Rightarrow> nat \<Rightarrow> shared \<Rightarrow> crash + ('db, 'l) server_context \<times> shared" where
  "run_server_thread S s_cfg tid g =
     (if MAX_FG_THREADS \<le> tid then Inl OutOfBounds
      else
        andThen (conf_string s_cfg 48) (\<lambda>metakv_path.
        case so_metadb S (push_bit 30 (ucast (conf_u32 s_cfg 40))) (metadb_path metakv_path (conf_u32 s_cfg 0) (of_nat tid)) of
          None \<Rightarrow> Inl PAssert
        | Some db \<Rightarrow>
            andThen (conf_string s_cfg 56) (\<lambda>rocksdb_path.
            case so_logdb S (logdb_path rocksdb_path (conf_u32 s_cfg 0) (of_nat tid)) of
              None \<Rightarrow> Inl PAssert
            | Some l \<Rightarrow> Inr (init_server_context (conf_u32 s_cfg 0) (conf_u32 s_cfg 32) (of_nat tid) db l g))))"

text \<open>
  The foreground threads initialise themselves concurrently; what they share is behind one lock, so they do it in some
  order. The slots of the array \<open>s_ctx_arr\<close> are empty before.
\<close>

fun start_threads ::
  "('db, 'l) store_opener \<Rightarrow> conf \<Rightarrow> nat list \<Rightarrow> ('db, 'l) server_context option list \<times> shared \<Rightarrow>
   crash + ('db, 'l) server_context option list \<times> shared" where
  "start_threads S s_cfg [] st = Inr st"
| "start_threads S s_cfg (tid # tids) (ctxs, g) =
     andThen (run_server_thread S s_cfg tid g) (\<lambda>(c, g). start_threads S s_cfg tids (ctxs[tid := Some c], g))"

definition server_uri :: "conf \<Rightarrow> crash + u8 list" where
  "server_uri s_cfg = andThen (conf_string s_cfg 8) (\<lambda>ip. Inr (ip @ 58 # to_string (conf_int s_cfg 16)))"

text \<open>
  \<open>init_and_start_loop\<close>: the threads with the numbers below \<open>server_fg_threads\<close>, in the order \<open>order\<close>, and the split thread.
\<close>

definition init_and_start_loop ::
  "('db, 'l) store_opener \<Rightarrow> session_net \<Rightarrow> nat list \<Rightarrow> conf \<Rightarrow> shared \<Rightarrow>
   crash + ('db, 'l) server_context option list \<times> shared \<times> int list" where
  "init_and_start_loop S N order s_cfg g =
     andThen (server_uri s_cfg) (\<lambda>uri.
     andThen (start_threads S s_cfg order (replicate MAX_FG_THREADS None, g)) (\<lambda>(ctxs, g).
     andThen (conf_strings s_cfg 24) (\<lambda>server_list.
     andThen (split_thread_init N server_list (nat (conf_int s_cfg 20)) (nat (conf_int s_cfg 32))) (\<lambda>(n_sessions, vec, window).
       Inr (ctxs, g\<lparr>num_server_sessions := n_sessions\<rparr>, vec)))))"

lemma decimal_nat_value: "digits_value (decimal_nat n) = n"
proof (induction n rule: decimal_nat.induct)
  case (1 n)
  have d: "unat (48 + of_nat k :: u8) - 48 = k" if "k < 10" for k
    using that by (simp add: unat_plus_if' unsigned_of_nat take_bit_nat_eq_self)
  show ?case using 1 d [of n] d [of "n mod 10"] by (cases "n < 10") (simp_all add: decimal_nat.simps [of n] digits_value_def)
qed

lemma decimal_nat_inj: "decimal_nat m = decimal_nat n \<longleftrightarrow> m = n"
  by (metis decimal_nat_value)

lemma store_suffix_of_nat:
  assumes "s < 256" "t < 256"
  shows "store_suffix (of_nat s) (of_nat t) = decimal_nat (256 * s + t)"
proof -
  have "push_bit 8 (of_nat s :: u32) = of_nat (256 * s)" by (simp add: push_bit_eq_mult)
  then have "scast (push_bit 8 (of_nat s :: u32)) + of_nat t = (of_nat (256 * s) + of_nat t :: u64)"
    using assms(1) by (simp only:, subst scast_of_nat32) simp_all
  also have "\<dots> = of_nat (256 * s + t)" by simp
  finally have e: "scast (push_bit 8 (of_nat s :: u32)) + of_nat t = (of_nat (256 * s + t) :: u64)" .
  have "unat (of_nat (256 * s + t) :: u64) = 256 * s + t"
    using assms unfolding unsigned_of_nat of_nat_id by (intro take_bit_nat_eq_self) simp
  then show ?thesis unfolding store_suffix_def e by simp
qed

lemma store_suffix_inj:
  assumes "s < 256" "t < 256" "s' < 256" "t' < 256"
  shows "store_suffix (of_nat s) (of_nat t) = store_suffix (of_nat s') (of_nat t') \<longleftrightarrow> s = s' \<and> t = t'"
proof -
  have "(256 * a + b) div 256 = a \<and> (256 * a + b) mod 256 = b" if "b < 256" for a b :: nat using that by simp
  from this [OF assms(2), of s] this [OF assms(4), of s'] have "256 * s + t = 256 * s' + t' \<longleftrightarrow> s = s' \<and> t = t'" by metis
  then show ?thesis unfolding store_suffix_of_nat [OF assms(1,2)] store_suffix_of_nat [OF assms(3,4)] decimal_nat_inj .
qed

lemma init_context_fst: "fst (init_server_context a b c d e g) = fst (init_server_context a b c d e h)"
  by (simp add: init_server_context_def register_region_def Let_def)

lemma init_context_shared:
  "global_region_id (snd (init_server_context a b c d e g)) = global_region_id g + 1"
  "fst ` set (global_region_map (snd (init_server_context a b c d e g))) =
     insert (ucast (server_global_id a b c)) (fst ` set (global_region_map g))"
  by (auto simp: init_server_context_def register_region_def Let_def alist_insert_def map_of_eq_None_iff
      dest!: map_of_SomeD intro: rev_image_eqI)

definition opens_stores :: "('db, 'l) store_opener \<Rightarrow> conf \<Rightarrow> nat \<Rightarrow> 'db \<Rightarrow> 'l \<Rightarrow> bool" where
  "opens_stores S s_cfg tid db l \<longleftrightarrow> (\<exists>p q. conf_string s_cfg 48 = Inr p \<and> conf_string s_cfg 56 = Inr q \<and>
     so_metadb S (push_bit 30 (ucast (conf_u32 s_cfg 40))) (metadb_path p (conf_u32 s_cfg 0) (of_nat tid)) = Some db \<and>
     so_logdb S (logdb_path q (conf_u32 s_cfg 0) (of_nat tid)) = Some l)"

lemma run_server_thread_ok:
  assumes "opens_stores S s_cfg tid db l" "tid < MAX_FG_THREADS"
  shows "run_server_thread S s_cfg tid g = Inr (init_server_context (conf_u32 s_cfg 0) (conf_u32 s_cfg 32) (of_nat tid) db l g)"
  using assms by (auto simp: opens_stores_def run_server_thread_def)

lemma start_threads_ok:
  assumes "\<forall>tid\<in>set order. tid < MAX_FG_THREADS \<and> opens_stores S s_cfg tid (db tid) (l tid)" "length ctxs = MAX_FG_THREADS"
  shows "\<exists>ctxs' g'. start_threads S s_cfg order (ctxs, g) = Inr (ctxs', g') \<and> length ctxs' = MAX_FG_THREADS \<and>
    (\<forall>t. t \<notin> set order \<longrightarrow> ctxs' ! t = ctxs ! t) \<and>
    (\<forall>t\<in>set order. ctxs' ! t =
      Some (fst (init_server_context (conf_u32 s_cfg 0) (conf_u32 s_cfg 32) (of_nat t) (db t) (l t) (no_regions 0)))) \<and>
    global_region_id g' = global_region_id g + of_nat (length order) \<and>
    fst ` set (global_region_map g') = fst ` set (global_region_map g) \<union>
      (\<lambda>t. ucast (server_global_id (conf_u32 s_cfg 0) (conf_u32 s_cfg 32) (of_nat t))) ` set order"
  using assms
proof (induction order arbitrary: ctxs g)
  case (Cons t ts)
  let ?i = "\<lambda>t. init_server_context (conf_u32 s_cfg 0) (conf_u32 s_cfg 32) (of_nat t) (db t) (l t)"
  have r: "run_server_thread S s_cfg t g = Inr (?i t g)" and t: "t < length ctxs"
    using Cons.prems run_server_thread_ok [of S s_cfg t "db t" "l t" g] by simp_all
  have f: "fst (?i t g) = fst (?i t (no_regions 0))" by (rule init_context_fst)
  from Cons.IH [of "ctxs[t := Some (fst (?i t g))]" "snd (?i t g)"] Cons.prems obtain ctxs' g' where
    *: "start_threads S s_cfg ts (ctxs[t := Some (fst (?i t g))], snd (?i t g)) = Inr (ctxs', g')" "length ctxs' = MAX_FG_THREADS"
      "\<forall>u. u \<notin> set ts \<longrightarrow> ctxs' ! u = ctxs[t := Some (fst (?i t g))] ! u" "\<forall>u\<in>set ts. ctxs' ! u = Some (fst (?i u (no_regions 0)))"
      "global_region_id g' = global_region_id (snd (?i t g)) + of_nat (length ts)"
      "fst ` set (global_region_map g') = fst ` set (global_region_map (snd (?i t g))) \<union>
        (\<lambda>t. ucast (server_global_id (conf_u32 s_cfg 0) (conf_u32 s_cfg 32) (of_nat t))) ` set ts" by auto
  have "start_threads S s_cfg (t # ts) (ctxs, g) = Inr (ctxs', g')" using r *(1) by (cases "?i t g") simp
  moreover have "\<forall>u\<in>set (t # ts). ctxs' ! u = Some (fst (?i u (no_regions 0)))" using *(3,4) t f by auto
  moreover have "\<forall>u. u \<notin> set (t # ts) \<longrightarrow> ctxs' ! u = ctxs ! u" using *(3) by auto
  ultimately show ?case using *(2,5,6) by (auto simp: init_context_shared)
qed auto

lemma server_thread_id:
  assumes "conf_int s_cfg 0 = int sid" "sid < 256" "conf_int s_cfg 32 = int fg" "fg \<le> MAX_FG_THREADS" "t < fg"
  shows "server_global_id (conf_u32 s_cfg 0) (conf_u32 s_cfg 32) (of_nat t) = of_nat (sid * fg + t) \<and> sid * fg + t < 2 ^ 20"
proof -
  have "sid * fg \<le> 256 * 10" using assms(2,4) by (intro mult_mono) (simp_all add: MAX_FG_THREADS_def)
  moreover have "t < 10" using assms(4,5) by (simp add: MAX_FG_THREADS_def)
  ultimately have b: "sid * fg < 2 ^ 31" "sid * fg + t < 2 ^ 20" by simp_all
  have "conf_u32 s_cfg 0 * conf_u32 s_cfg 32 = of_nat (sid * fg)" unfolding assms(1,3) by simp
  then show ?thesis unfolding server_global_id_def using b by (simp only: scast_of_nat32 of_nat_add)
qed

text \<open>
  C38: Starting a server process. With an id below 256 and at most ten foreground threads, whose stores can be opened, every
  order in which the threads initialise themselves ends with one context per thread, on its own stores, with one region
  that serves requests and holds exactly the hashes of the thread's share. The counter of regions has grown by the number of
  threads, the process-wide map has exactly their regions in addition, and no two threads use the same path for a store.
\<close>

theorem server_starts:
  assumes "conf_int s_cfg 0 = int sid" "sid < 256" "conf_int s_cfg 32 = int fg" "fg \<le> MAX_FG_THREADS"
    and "mset order = mset [0..<fg]" "\<forall>t<fg. opens_stores S s_cfg t (db t) (l t)"
  shows "\<exists>ctxs g'. start_threads S s_cfg order (replicate MAX_FG_THREADS None, g) = Inr (ctxs, g') \<and>
    (\<forall>t<fg. \<exists>c r. ctxs ! t = Some c \<and> metadb c = db t \<and> log_db c = l t \<and>
      region_map c (of_nat (sid * fg + t)) = Some r \<and> region_status r = Normal \<and>
      (\<forall>h. check_is_blong_to_region r h \<longleftrightarrow> unat h div 1024 = sid * fg + t)) \<and>
    (\<forall>t. fg \<le> t \<and> t < MAX_FG_THREADS \<longrightarrow> ctxs ! t = None) \<and>
    global_region_id g' = global_region_id g + of_nat fg \<and>
    fst ` set (global_region_map g') = fst ` set (global_region_map g) \<union> (\<lambda>t. of_nat (sid * fg + t)) ` {..<fg} \<and>
    (\<forall>p. \<forall>t<fg. \<forall>t'<fg. t \<noteq> t' \<longrightarrow> metadb_path p (conf_u32 s_cfg 0) (of_nat t) \<noteq> metadb_path p (conf_u32 s_cfg 0) (of_nat t') \<and>
      logdb_path p (conf_u32 s_cfg 0) (of_nat t) \<noteq> logdb_path p (conf_u32 s_cfg 0) (of_nat t'))"
proof -
  have o: "set order = {..<fg}" "length order = fg"
    using mset_eq_setD [OF assms(5)] mset_eq_length [OF assms(5)] by (simp_all add: atLeast0LessThan)
  have gid: "server_global_id (conf_u32 s_cfg 0) (conf_u32 s_cfg 32) (of_nat t) = of_nat (sid * fg + t)"
    and small: "sid * fg + t < 2 ^ 20" if "t < fg" for t using server_thread_id [OF assms(1-4) that] by blast+
  have u: "(ucast (server_global_id (conf_u32 s_cfg 0) (conf_u32 s_cfg 32) (of_nat t)) :: u32) = of_nat (sid * fg + t)"
    if "t < fg" for t
    unfolding gid [OF that] unsigned_of_nat using small [OF that] by (subst take_bit_nat_eq_self) simp_all
  have ini: "\<exists>r. region_map (fst (init_server_context (conf_u32 s_cfg 0) (conf_u32 s_cfg 32) (of_nat t) (db t) (l t) (no_regions 0)))
      (of_nat (sid * fg + t)) = Some r \<and> region_status r = Normal \<and> (\<forall>h. check_is_blong_to_region r h \<longleftrightarrow> unat h div 1024 = sid * fg + t)"
    if "t < fg" for t
    using initial_regions [OF small gid, OF that that, of "db t" "l t" "no_regions 0"] by blast
  have paths: "metadb_path p (conf_u32 s_cfg 0) (of_nat t) = metadb_path p (conf_u32 s_cfg 0) (of_nat t') \<longleftrightarrow> t = t'"
      "logdb_path p (conf_u32 s_cfg 0) (of_nat t) = logdb_path p (conf_u32 s_cfg 0) (of_nat t') \<longleftrightarrow> t = t'"
    if "t < fg" "t' < fg" for p t t'
    using store_suffix_inj [OF assms(2) _ assms(2), of t t'] that assms(4)
    by (simp_all add: assms(1) metadb_path_def logdb_path_def MAX_FG_THREADS_def)
  have stores: "metadb (fst (init_server_context a b c d e g)) = d" "log_db (fst (init_server_context a b c d e g)) = e" for a b c d e g
    by (simp_all add: init_server_context_def register_region_def Let_def)
  have "\<forall>tid\<in>set order. tid < MAX_FG_THREADS \<and> opens_stores S s_cfg tid (db tid) (l tid)" using o(1) assms(4,6) by auto
  from start_threads_ok [OF this, of "replicate MAX_FG_THREADS None" g] obtain ctxs g' where
    *: "start_threads S s_cfg order (replicate MAX_FG_THREADS None, g) = Inr (ctxs, g')"
      "\<forall>t. t \<notin> {..<fg} \<longrightarrow> ctxs ! t = replicate MAX_FG_THREADS None ! t"
      "\<forall>t\<in>{..<fg}. ctxs ! t = Some (fst (init_server_context (conf_u32 s_cfg 0) (conf_u32 s_cfg 32) (of_nat t) (db t) (l t) (no_regions 0)))"
      "global_region_id g' = global_region_id g + of_nat fg"
      "fst ` set (global_region_map g') = fst ` set (global_region_map g) \<union>
        (\<lambda>t. ucast (server_global_id (conf_u32 s_cfg 0) (conf_u32 s_cfg 32) (of_nat t))) ` {..<fg}"
    unfolding o by auto
  have regs: "(\<lambda>t. ucast (server_global_id (conf_u32 s_cfg 0) (conf_u32 s_cfg 32) (of_nat t)) :: u32) ` {..<fg} = (\<lambda>t. of_nat (sid * fg + t)) ` {..<fg}"
    by (rule image_cong) (simp_all only: lessThan_iff u)
  have ctx: "\<exists>c r. ctxs ! t = Some c \<and> metadb c = db t \<and> log_db c = l t \<and>
      region_map c (of_nat (sid * fg + t)) = Some r \<and> region_status r = Normal \<and>
      (\<forall>h. check_is_blong_to_region r h \<longleftrightarrow> unat h div 1024 = sid * fg + t)" if "t < fg" for t
    using *(3) that ini [OF that] stores by (metis lessThan_iff)
  have rest: "ctxs ! t = None" if "fg \<le> t" "t < MAX_FG_THREADS" for t using *(2) that by simp
  show ?thesis
    using *(1) ctx rest *(4) *(5) [unfolded regs] paths by (intro exI [of _ ctxs] exI [of _ g']) simp
qed

definition demo_s_cfg :: conf where
  "demo_s_cfg = [0 \<mapsto> ConfInt 1, 32 \<mapsto> ConfInt 2, 48 \<mapsto> ConfString [47], 56 \<mapsto> ConfString [47]]"

definition demo_opener :: "(nat, nat) store_opener" where
  "demo_opener = \<lparr>so_metadb = (\<lambda>size path. Some (length path)), so_logdb = (\<lambda>path. Some 0)\<rparr>"

theorem server_starts_witness:
  "\<exists>ctxs g' c r. start_threads demo_opener demo_s_cfg [1, 0] (replicate MAX_FG_THREADS None, no_regions 4) = Inr (ctxs, g') \<and>
    ctxs ! 1 = Some c \<and> region_map c 3 = Some r \<and> check_is_blong_to_region r 3072 \<and> global_region_id g' = 2"
proof -
  have p: "conf_int demo_s_cfg 0 = int 1" "(1 :: nat) < 256" "conf_int demo_s_cfg 32 = int 2" "2 \<le> MAX_FG_THREADS"
    "mset [1, 0] = mset [0..<2]" by (simp_all add: demo_s_cfg_def conf_int_def MAX_FG_THREADS_def upt_rec)
  have o: "\<forall>t<2. opens_stores demo_opener demo_s_cfg t
      (length (metadb_path [47] (conf_u32 demo_s_cfg 0) (of_nat t))) 0"
    by (simp add: opens_stores_def demo_s_cfg_def demo_opener_def conf_string_def)
  show ?thesis
    using server_starts [OF p o, of "no_regions 4"] by (elim exE conjE) (drule spec [of _ 1], force simp: no_regions_def)
qed

end
