(* ===== verification/CJsonLinks.thy ===== *)
theory CJsonLinks
  imports CJson
begin

text \<open>
  The items of cJSON as they lie in memory (src/common/cJSON.cc): a store from addresses to items, each with its
  \<open>next\<close>, \<open>prev\<close> and \<open>child\<close> pointers, and the functions that create, link, find, detach, insert, replace,
  duplicate and delete items. Reading or writing through a null pointer is \<open>NullDeref\<close>, through a pointer to an
  item that was freed \<open>OutOfBounds\<close>, and a walk along a cyclic chain that never ends is \<open>Hang\<close>. Allocation
  succeeds. The bytes of the strings are values: who owns their storage is not modelled.
\<close>

section \<open>Items in memory\<close>

definition cJSON_IsReference :: u32 where "cJSON_IsReference = 256"
definition cJSON_StringIsConst :: u32 where "cJSON_StringIsConst = 512"

record jnode =
  jn_next :: "nat option"
  jn_prev :: "nat option"
  jn_child :: "nat option"
  jn_type :: u32
  jn_valuestring :: "u8 list option"
  jn_valueint :: int
  jn_valuedouble :: dbl
  jn_string :: "u8 list option"

record jheap =
  jh_nodes :: "nat \<rightharpoonup> jnode"
  jh_next :: nat

definition node_at :: "jheap \<Rightarrow> nat option \<Rightarrow> crash + jnode" where
  "node_at h p =
     (case p of
        None \<Rightarrow> Inl NullDeref
      | Some a \<Rightarrow> (case jh_nodes h a of None \<Rightarrow> Inl OutOfBounds | Some n \<Rightarrow> Inr n))"

definition put_node :: "nat \<Rightarrow> jnode \<Rightarrow> jheap \<Rightarrow> jheap" where
  "put_node a n h = h\<lparr>jh_nodes := (jh_nodes h)(a \<mapsto> n)\<rparr>"

definition store_at :: "nat option \<Rightarrow> (jnode \<Rightarrow> jnode) \<Rightarrow> jheap \<Rightarrow> crash + jheap" where
  "store_at p f h = andThen (node_at h p) (\<lambda>n. Inr (put_node (the p) (f n) h))"

definition zero_node :: jnode where
  "zero_node = \<lparr>jn_next = None, jn_prev = None, jn_child = None, jn_type = cJSON_Invalid, jn_valuestring = None,
     jn_valueint = 0, jn_valuedouble = Fin 0, jn_string = None\<rparr>"

definition alloc_node :: "jnode \<Rightarrow> jheap \<Rightarrow> nat option \<times> jheap" where
  "alloc_node n h = (Some (jh_next h), (put_node (jh_next h) n h)\<lparr>jh_next := jh_next h + 1\<rparr>)"

definition cJSON_strdup :: "u8 list option \<Rightarrow> u8 list option" where
  "cJSON_strdup string = map_option cview string"

section \<open>Deleting\<close>

text \<open>\<open>None\<close> is a walk that never ends, through a chain that is a cycle.\<close>

partial_function (option) cJSON_Delete :: "nat option \<Rightarrow> jheap \<Rightarrow> (crash + jheap) option" where
  "cJSON_Delete item h =
     (case item of
        None \<Rightarrow> Some (Inr h)
      | Some a \<Rightarrow>
          (case jh_nodes h a of
             None \<Rightarrow> Some (Inl OutOfBounds)
           | Some n \<Rightarrow>
               Option.bind
                 (if jn_type n AND cJSON_IsReference = 0 \<and> jn_child n \<noteq> None then cJSON_Delete (jn_child n) h
                  else Some (Inr h))
                 (\<lambda>r. case r of
                    Inl e \<Rightarrow> Some (Inl e)
                  | Inr h \<Rightarrow>
                      if jh_nodes h a = None then Some (Inl OutOfBounds)
                      else cJSON_Delete (jn_next n) (h\<lparr>jh_nodes := (jh_nodes h)(a := None)\<rparr>))))"

definition delete_item :: "nat option \<Rightarrow> jheap \<Rightarrow> crash + jheap" where
  "delete_item item h = (case cJSON_Delete item h of None \<Rightarrow> Inl Hang | Some r \<Rightarrow> r)"

section \<open>Finding\<close>

fun get_array_item_at :: "nat option \<Rightarrow> nat \<Rightarrow> jheap \<Rightarrow> crash + nat option" where
  "get_array_item_at None index h = Inr None"
| "get_array_item_at (Some a) 0 h = Inr (Some a)"
| "get_array_item_at (Some a) (Suc index) h =
     andThen (node_at h (Some a)) (\<lambda>n. get_array_item_at (jn_next n) index h)"

definition get_array_item_h :: "nat option \<Rightarrow> nat \<Rightarrow> jheap \<Rightarrow> crash + nat option" where
  "get_array_item_h array index h =
     (if array = None then Inr None
      else andThen (node_at h array) (\<lambda>a. get_array_item_at (jn_child a) index h))"

partial_function (option) find_named :: "u8 list \<Rightarrow> bool \<Rightarrow> nat option \<Rightarrow> jheap \<Rightarrow> (crash + nat option) option" where
  "find_named name case_sensitive p h =
     (case p of
        None \<Rightarrow> Some (Inr None)
      | Some a \<Rightarrow>
          (case jh_nodes h a of
             None \<Rightarrow> Some (Inl OutOfBounds)
           | Some n \<Rightarrow>
               if (if case_sensitive
                   then jn_string n \<noteq> None \<and> cview name \<noteq> cview (the (jn_string n))
                   else case_insensitive_strcmp (Some name) (jn_string n) \<noteq> 0)
               then find_named name case_sensitive (jn_next n) h
               else Some (Inr (if jn_string n = None then None else p))))"

definition get_object_item_h :: "nat option \<Rightarrow> u8 list option \<Rightarrow> bool \<Rightarrow> jheap \<Rightarrow> crash + nat option" where
  "get_object_item_h object name case_sensitive h =
     (case name of
        None \<Rightarrow> Inr None
      | Some name \<Rightarrow>
          if object = None then Inr None
          else
            andThen (node_at h object) (\<lambda>obj.
              case find_named name case_sensitive (jn_child obj) h of None \<Rightarrow> Inl Hang | Some r \<Rightarrow> r))"

section \<open>Adding\<close>

definition suffix_object :: "nat option \<Rightarrow> nat option \<Rightarrow> jheap \<Rightarrow> crash + jheap" where
  "suffix_object prev item h =
     andThen (store_at prev (\<lambda>n. n\<lparr>jn_next := item\<rparr>) h) (store_at item (\<lambda>n. n\<lparr>jn_prev := prev\<rparr>))"

definition create_reference :: "nat option \<Rightarrow> jheap \<Rightarrow> crash + nat option \<times> jheap" where
  "create_reference item h =
     (if item = None then Inr (None, h)
      else
        andThen (node_at h item) (\<lambda>n.
          Inr (alloc_node (n\<lparr>jn_string := None, jn_type := jn_type n OR cJSON_IsReference,
            jn_next := None, jn_prev := None\<rparr>) h)))"

definition add_item_to_array :: "nat option \<Rightarrow> nat option \<Rightarrow> jheap \<Rightarrow> crash + bool \<times> jheap" where
  "add_item_to_array array item h =
     (if item = None \<or> array = None \<or> array = item then Inr (False, h)
      else
        andThen (node_at h array) (\<lambda>a.
          case jn_child a of
            None \<Rightarrow>
              andThen (store_at array (\<lambda>n. n\<lparr>jn_child := item\<rparr>) h) (\<lambda>h.
              andThen (store_at item (\<lambda>n. n\<lparr>jn_prev := item, jn_next := None\<rparr>) h) (\<lambda>h. Inr (True, h)))
          | Some c \<Rightarrow>
              andThen (node_at h (Some c)) (\<lambda>cn.
                if jn_prev cn \<noteq> None
                then
                  andThen (suffix_object (jn_prev cn) item h) (\<lambda>h.
                  andThen (node_at h array) (\<lambda>a.
                  andThen (store_at (jn_child a) (\<lambda>n. n\<lparr>jn_prev := item\<rparr>) h) (\<lambda>h. Inr (True, h))))
                else Inr (True, h))))"

definition cJSON_AddItemToArray :: "nat option \<Rightarrow> nat option \<Rightarrow> jheap \<Rightarrow> crash + bool \<times> jheap" where
  "cJSON_AddItemToArray = add_item_to_array"

definition add_item_to_object ::
  "nat option \<Rightarrow> u8 list option \<Rightarrow> nat option \<Rightarrow> bool \<Rightarrow> jheap \<Rightarrow> crash + bool \<times> jheap" where
  "add_item_to_object object string item constant_key h =
     (if object = None \<or> string = None \<or> item = None \<or> object = item then Inr (False, h)
      else
        andThen (node_at h item) (\<lambda>i.
          let new_key = (if constant_key then string else cJSON_strdup string);
              new_type = (if constant_key then jn_type i OR cJSON_StringIsConst
                          else jn_type i AND NOT cJSON_StringIsConst)
          in andThen (store_at item (\<lambda>n. n\<lparr>jn_string := new_key, jn_type := new_type\<rparr>) h)
               (add_item_to_array object item)))"

definition cJSON_AddItemToObject ::
  "nat option \<Rightarrow> u8 list option \<Rightarrow> nat option \<Rightarrow> jheap \<Rightarrow> crash + bool \<times> jheap" where
  "cJSON_AddItemToObject object string item = add_item_to_object object string item False"

definition cJSON_AddItemToObjectCS ::
  "nat option \<Rightarrow> u8 list option \<Rightarrow> nat option \<Rightarrow> jheap \<Rightarrow> crash + bool \<times> jheap" where
  "cJSON_AddItemToObjectCS object string item = add_item_to_object object string item True"

definition cJSON_AddItemReferenceToArray :: "nat option \<Rightarrow> nat option \<Rightarrow> jheap \<Rightarrow> crash + bool \<times> jheap" where
  "cJSON_AddItemReferenceToArray array item h =
     (if array = None then Inr (False, h)
      else andThen (create_reference item h) (\<lambda>(r, h). add_item_to_array array r h))"

definition cJSON_AddItemReferenceToObject ::
  "nat option \<Rightarrow> u8 list option \<Rightarrow> nat option \<Rightarrow> jheap \<Rightarrow> crash + bool \<times> jheap" where
  "cJSON_AddItemReferenceToObject object string item h =
     (if object = None \<or> string = None then Inr (False, h)
      else andThen (create_reference item h) (\<lambda>(r, h). add_item_to_object object string r False h))"

section \<open>Removing, inserting, replacing\<close>

definition cJSON_DetachItemViaPointer :: "nat option \<Rightarrow> nat option \<Rightarrow> jheap \<Rightarrow> crash + nat option \<times> jheap" where
  "cJSON_DetachItemViaPointer parent item h =
     (if parent = None \<or> item = None then Inr (None, h)
      else
        andThen (node_at h parent) (\<lambda>p.
        andThen (node_at h item) (\<lambda>i.
        andThen (if item \<noteq> jn_child p then store_at (jn_prev i) (\<lambda>n. n\<lparr>jn_next := jn_next i\<rparr>) h else Inr h) (\<lambda>h.
        andThen (if jn_next i \<noteq> None then store_at (jn_next i) (\<lambda>n. n\<lparr>jn_prev := jn_prev i\<rparr>) h else Inr h) (\<lambda>h.
        andThen
          (if item = jn_child p then store_at parent (\<lambda>n. n\<lparr>jn_child := jn_next i\<rparr>) h
           else if jn_next i = None then store_at (jn_child p) (\<lambda>n. n\<lparr>jn_prev := jn_prev i\<rparr>) h
           else Inr h) (\<lambda>h.
        andThen (store_at item (\<lambda>n. n\<lparr>jn_prev := None, jn_next := None\<rparr>) h) (\<lambda>h. Inr (item, h))))))))"

definition cJSON_DetachItemFromArray :: "nat option \<Rightarrow> int \<Rightarrow> jheap \<Rightarrow> crash + nat option \<times> jheap" where
  "cJSON_DetachItemFromArray array which h =
     (if which < 0 then Inr (None, h)
      else andThen (get_array_item_h array (nat which) h) (\<lambda>item. cJSON_DetachItemViaPointer array item h))"

definition cJSON_DeleteItemFromArray :: "nat option \<Rightarrow> int \<Rightarrow> jheap \<Rightarrow> crash + jheap" where
  "cJSON_DeleteItemFromArray array which h =
     andThen (cJSON_DetachItemFromArray array which h) (\<lambda>(item, h). delete_item item h)"

definition detach_from_object ::
  "bool \<Rightarrow> nat option \<Rightarrow> u8 list option \<Rightarrow> jheap \<Rightarrow> crash + nat option \<times> jheap" where
  "detach_from_object case_sensitive object string h =
     andThen (get_object_item_h object string case_sensitive h) (\<lambda>item. cJSON_DetachItemViaPointer object item h)"

definition cJSON_DetachItemFromObject :: "nat option \<Rightarrow> u8 list option \<Rightarrow> jheap \<Rightarrow> crash + nat option \<times> jheap" where
  "cJSON_DetachItemFromObject = detach_from_object False"

definition cJSON_DetachItemFromObjectCaseSensitive ::
  "nat option \<Rightarrow> u8 list option \<Rightarrow> jheap \<Rightarrow> crash + nat option \<times> jheap" where
  "cJSON_DetachItemFromObjectCaseSensitive = detach_from_object True"

definition cJSON_DeleteItemFromObject :: "nat option \<Rightarrow> u8 list option \<Rightarrow> jheap \<Rightarrow> crash + jheap" where
  "cJSON_DeleteItemFromObject object string h =
     andThen (cJSON_DetachItemFromObject object string h) (\<lambda>(item, h). delete_item item h)"

definition cJSON_DeleteItemFromObjectCaseSensitive :: "nat option \<Rightarrow> u8 list option \<Rightarrow> jheap \<Rightarrow> crash + jheap" where
  "cJSON_DeleteItemFromObjectCaseSensitive object string h =
     andThen (cJSON_DetachItemFromObjectCaseSensitive object string h) (\<lambda>(item, h). delete_item item h)"

definition cJSON_InsertItemInArray :: "nat option \<Rightarrow> int \<Rightarrow> nat option \<Rightarrow> jheap \<Rightarrow> crash + bool \<times> jheap" where
  "cJSON_InsertItemInArray array which newitem h =
     (if which < 0 then Inr (False, h)
      else
        andThen (get_array_item_h array (nat which) h) (\<lambda>after_inserted.
          if after_inserted = None then add_item_to_array array newitem h
          else
            andThen (node_at h after_inserted) (\<lambda>i.
            andThen (store_at newitem (\<lambda>n. n\<lparr>jn_next := after_inserted, jn_prev := jn_prev i\<rparr>) h) (\<lambda>h.
            andThen (store_at after_inserted (\<lambda>n. n\<lparr>jn_prev := newitem\<rparr>) h) (\<lambda>h.
            andThen (node_at h array) (\<lambda>a.
            andThen
              (if after_inserted = jn_child a then store_at array (\<lambda>n. n\<lparr>jn_child := newitem\<rparr>) h
               else
                 andThen (node_at h newitem) (\<lambda>nw. store_at (jn_prev nw) (\<lambda>n. n\<lparr>jn_next := newitem\<rparr>) h))
              (\<lambda>h. Inr (True, h))))))))"

definition cJSON_ReplaceItemViaPointer ::
  "nat option \<Rightarrow> nat option \<Rightarrow> nat option \<Rightarrow> jheap \<Rightarrow> crash + bool \<times> jheap" where
  "cJSON_ReplaceItemViaPointer parent item replacement h =
     (if parent = None \<or> replacement = None \<or> item = None then Inr (False, h)
      else if replacement = item then Inr (True, h)
      else
        andThen (node_at h item) (\<lambda>i.
        andThen (store_at replacement (\<lambda>n. n\<lparr>jn_next := jn_next i, jn_prev := jn_prev i\<rparr>) h) (\<lambda>h.
        andThen (if jn_next i \<noteq> None then store_at (jn_next i) (\<lambda>n. n\<lparr>jn_prev := replacement\<rparr>) h else Inr h) (\<lambda>h.
        andThen (node_at h parent) (\<lambda>p.
        andThen
          (if jn_child p = item
           then
             andThen (node_at h (jn_child p)) (\<lambda>c.
             andThen
               (if jn_prev c = jn_child p then store_at replacement (\<lambda>n. n\<lparr>jn_prev := replacement\<rparr>) h else Inr h)
               (store_at parent (\<lambda>n. n\<lparr>jn_child := replacement\<rparr>)))
           else
             andThen (node_at h replacement) (\<lambda>r.
             andThen
               (if jn_prev r \<noteq> None then store_at (jn_prev r) (\<lambda>n. n\<lparr>jn_next := replacement\<rparr>) h else Inr h) (\<lambda>h.
             andThen (node_at h replacement) (\<lambda>r.
               if jn_next r = None then store_at (jn_child p) (\<lambda>n. n\<lparr>jn_prev := replacement\<rparr>) h else Inr h)))) (\<lambda>h.
        andThen (store_at item (\<lambda>n. n\<lparr>jn_next := None, jn_prev := None\<rparr>) h) (\<lambda>h.
        andThen (delete_item item h) (\<lambda>h. Inr (True, h)))))))))"

definition cJSON_ReplaceItemInArray :: "nat option \<Rightarrow> int \<Rightarrow> nat option \<Rightarrow> jheap \<Rightarrow> crash + bool \<times> jheap" where
  "cJSON_ReplaceItemInArray array which newitem h =
     (if which < 0 then Inr (False, h)
      else andThen (get_array_item_h array (nat which) h) (\<lambda>item. cJSON_ReplaceItemViaPointer array item newitem h))"

definition replace_item_in_object ::
  "nat option \<Rightarrow> u8 list option \<Rightarrow> nat option \<Rightarrow> bool \<Rightarrow> jheap \<Rightarrow> crash + bool \<times> jheap" where
  "replace_item_in_object object string replacement case_sensitive h =
     (if replacement = None \<or> string = None then Inr (False, h)
      else
        andThen (store_at replacement
          (\<lambda>n. n\<lparr>jn_string := cJSON_strdup string, jn_type := jn_type n AND NOT cJSON_StringIsConst\<rparr>) h) (\<lambda>h.
        andThen (get_object_item_h object string case_sensitive h) (\<lambda>item.
          cJSON_ReplaceItemViaPointer object item replacement h)))"

definition cJSON_ReplaceItemInObject ::
  "nat option \<Rightarrow> u8 list option \<Rightarrow> nat option \<Rightarrow> jheap \<Rightarrow> crash + bool \<times> jheap" where
  "cJSON_ReplaceItemInObject object string newitem = replace_item_in_object object string newitem False"

definition cJSON_ReplaceItemInObjectCaseSensitive ::
  "nat option \<Rightarrow> u8 list option \<Rightarrow> nat option \<Rightarrow> jheap \<Rightarrow> crash + bool \<times> jheap" where
  "cJSON_ReplaceItemInObjectCaseSensitive object string newitem = replace_item_in_object object string newitem True"

section \<open>Creating\<close>

definition new_item :: "(jnode \<Rightarrow> jnode) \<Rightarrow> jheap \<Rightarrow> nat option \<times> jheap" where
  "new_item init h = alloc_node (init zero_node) h"

definition create_typed :: "u32 \<Rightarrow> jheap \<Rightarrow> nat option \<times> jheap" where
  "create_typed t = new_item (\<lambda>n. n\<lparr>jn_type := t\<rparr>)"

definition cJSON_CreateNull :: "jheap \<Rightarrow> nat option \<times> jheap" where "cJSON_CreateNull = create_typed cJSON_NULL"
definition cJSON_CreateTrue :: "jheap \<Rightarrow> nat option \<times> jheap" where "cJSON_CreateTrue = create_typed cJSON_True"
definition cJSON_CreateFalse :: "jheap \<Rightarrow> nat option \<times> jheap" where "cJSON_CreateFalse = create_typed cJSON_False"
definition cJSON_CreateArray :: "jheap \<Rightarrow> nat option \<times> jheap" where "cJSON_CreateArray = create_typed cJSON_Array"
definition cJSON_CreateObject :: "jheap \<Rightarrow> nat option \<times> jheap" where "cJSON_CreateObject = create_typed cJSON_Object"

definition cJSON_CreateBool :: "bool \<Rightarrow> jheap \<Rightarrow> nat option \<times> jheap" where
  "cJSON_CreateBool boolean = create_typed (if boolean then cJSON_True else cJSON_False)"

definition cJSON_CreateNumber :: "dbl \<Rightarrow> jheap \<Rightarrow> nat option \<times> jheap" where
  "cJSON_CreateNumber num =
     new_item (\<lambda>n. n\<lparr>jn_type := cJSON_Number, jn_valuedouble := num, jn_valueint := saturate num\<rparr>)"

text \<open>A null string is copied to a null pointer, and the item just made is deleted again.\<close>

definition create_text :: "u32 \<Rightarrow> u8 list option \<Rightarrow> jheap \<Rightarrow> crash + nat option \<times> jheap" where
  "create_text t string h =
     (case new_item (\<lambda>n. n\<lparr>jn_type := t, jn_valuestring := cJSON_strdup string\<rparr>) h of
        (item, h) \<Rightarrow>
          if cJSON_strdup string = None then andThen (delete_item item h) (\<lambda>h. Inr (None, h))
          else Inr (item, h))"

definition cJSON_CreateString :: "u8 list option \<Rightarrow> jheap \<Rightarrow> crash + nat option \<times> jheap" where
  "cJSON_CreateString = create_text cJSON_String"

definition cJSON_CreateRaw :: "u8 list option \<Rightarrow> jheap \<Rightarrow> crash + nat option \<times> jheap" where
  "cJSON_CreateRaw = create_text cJSON_Raw"

definition cJSON_CreateStringReference :: "u8 list option \<Rightarrow> jheap \<Rightarrow> nat option \<times> jheap" where
  "cJSON_CreateStringReference string =
     new_item (\<lambda>n. n\<lparr>jn_type := cJSON_String OR cJSON_IsReference, jn_valuestring := string\<rparr>)"

definition cJSON_CreateObjectReference :: "nat option \<Rightarrow> jheap \<Rightarrow> nat option \<times> jheap" where
  "cJSON_CreateObjectReference child =
     new_item (\<lambda>n. n\<lparr>jn_type := cJSON_Object OR cJSON_IsReference, jn_child := child\<rparr>)"

definition cJSON_CreateArrayReference :: "nat option \<Rightarrow> jheap \<Rightarrow> nat option \<times> jheap" where
  "cJSON_CreateArrayReference child =
     new_item (\<lambda>n. n\<lparr>jn_type := cJSON_Array OR cJSON_IsReference, jn_child := child\<rparr>)"

text \<open>The nine \<open>cJSON_Add...ToObject\<close> functions: make the item, add it, and delete it again if that failed.\<close>

definition add_new_to_object ::
  "(jheap \<Rightarrow> crash + nat option \<times> jheap) \<Rightarrow> nat option \<Rightarrow> u8 list option \<Rightarrow> jheap \<Rightarrow> crash + nat option \<times> jheap" where
  "add_new_to_object create object name h =
     andThen (create h) (\<lambda>(item, h).
     andThen (add_item_to_object object name item False h) (\<lambda>(added, h).
       if added then Inr (item, h) else andThen (delete_item item h) (\<lambda>h. Inr (None, h))))"

type_synonym add_to_object = "nat option \<Rightarrow> u8 list option \<Rightarrow> jheap \<Rightarrow> crash + nat option \<times> jheap"

definition cJSON_AddNullToObject :: add_to_object where
  "cJSON_AddNullToObject = add_new_to_object (\<lambda>h. Inr (cJSON_CreateNull h))"
definition cJSON_AddTrueToObject :: add_to_object where
  "cJSON_AddTrueToObject = add_new_to_object (\<lambda>h. Inr (cJSON_CreateTrue h))"
definition cJSON_AddFalseToObject :: add_to_object where
  "cJSON_AddFalseToObject = add_new_to_object (\<lambda>h. Inr (cJSON_CreateFalse h))"
definition cJSON_AddBoolToObject :: "bool \<Rightarrow> add_to_object" where
  "cJSON_AddBoolToObject boolean = add_new_to_object (\<lambda>h. Inr (cJSON_CreateBool boolean h))"
definition cJSON_AddNumberToObject :: "dbl \<Rightarrow> add_to_object" where
  "cJSON_AddNumberToObject number = add_new_to_object (\<lambda>h. Inr (cJSON_CreateNumber number h))"
definition cJSON_AddStringToObject :: "u8 list option \<Rightarrow> add_to_object" where
  "cJSON_AddStringToObject string = add_new_to_object (cJSON_CreateString string)"
definition cJSON_AddRawToObject :: "u8 list option \<Rightarrow> add_to_object" where
  "cJSON_AddRawToObject raw = add_new_to_object (cJSON_CreateRaw raw)"
definition cJSON_AddObjectToObject :: add_to_object where
  "cJSON_AddObjectToObject = add_new_to_object (\<lambda>h. Inr (cJSON_CreateObject h))"
definition cJSON_AddArrayToObject :: add_to_object where
  "cJSON_AddArrayToObject = add_new_to_object (\<lambda>h. Inr (cJSON_CreateArray h))"

section \<open>Arrays of numbers and of strings\<close>

text \<open>The loop: \<open>p\<close> is the item made last, \<open>None\<close> in the first round. \<open>Inr None\<close> is the early return.\<close>

fun create_array_loop ::
  "('x \<Rightarrow> jheap \<Rightarrow> crash + nat option \<times> jheap) \<Rightarrow> nat option \<Rightarrow> 'x list \<Rightarrow> nat option \<Rightarrow> jheap
     \<Rightarrow> crash + (nat option option \<times> jheap)" where
  "create_array_loop create a [] p h = Inr (Some p, h)"
| "create_array_loop create a (x # xs) p h =
     andThen (create x h) (\<lambda>(n, h).
       if n = None then andThen (delete_item a h) (\<lambda>h. Inr (None, h))
       else
         andThen (if p = None then store_at a (\<lambda>an. an\<lparr>jn_child := n\<rparr>) h else suffix_object p n h)
           (create_array_loop create a xs n))"

text \<open>Reading \<open>count\<close> elements of a shorter block leaves it.\<close>

definition create_array ::
  "('x \<Rightarrow> jheap \<Rightarrow> crash + nat option \<times> jheap) \<Rightarrow> 'x list option \<Rightarrow> int \<Rightarrow> jheap \<Rightarrow> crash + nat option \<times> jheap" where
  "create_array create numbers count h =
     (case numbers of
        None \<Rightarrow> Inr (None, h)
      | Some xs \<Rightarrow>
          if count < 0 then Inr (None, h)
          else if length xs < nat count then Inl OutOfBounds
          else
            (case cJSON_CreateArray h of
               (a, h) \<Rightarrow>
                 andThen (create_array_loop create a (take (nat count) xs) None h) (\<lambda>(r, h).
                   case r of
                     None \<Rightarrow> Inr (None, h)
                   | Some n \<Rightarrow>
                       andThen (node_at h a) (\<lambda>an.
                         if jn_child an \<noteq> None
                         then andThen (store_at (jn_child an) (\<lambda>c. c\<lparr>jn_prev := n\<rparr>) h) (\<lambda>h. Inr (a, h))
                         else Inr (a, h)))))"

definition cJSON_CreateIntArray :: "int list option \<Rightarrow> int \<Rightarrow> jheap \<Rightarrow> crash + nat option \<times> jheap" where
  "cJSON_CreateIntArray = create_array (\<lambda>x h. Inr (cJSON_CreateNumber (Fin (of_int x)) h))"

definition cJSON_CreateFloatArray :: "dbl list option \<Rightarrow> int \<Rightarrow> jheap \<Rightarrow> crash + nat option \<times> jheap" where
  "cJSON_CreateFloatArray = create_array (\<lambda>x h. Inr (cJSON_CreateNumber x h))"

definition cJSON_CreateDoubleArray :: "dbl list option \<Rightarrow> int \<Rightarrow> jheap \<Rightarrow> crash + nat option \<times> jheap" where
  "cJSON_CreateDoubleArray = create_array (\<lambda>x h. Inr (cJSON_CreateNumber x h))"

definition cJSON_CreateStringArray :: "u8 list option list option \<Rightarrow> int \<Rightarrow> jheap \<Rightarrow> crash + nat option \<times> jheap" where
  "cJSON_CreateStringArray = create_array cJSON_CreateString"

section \<open>Setting values\<close>

definition cJSON_SetNumberHelper :: "nat option \<Rightarrow> dbl \<Rightarrow> jheap \<Rightarrow> crash + dbl \<times> jheap" where
  "cJSON_SetNumberHelper object number h =
     andThen (store_at object (\<lambda>n. n\<lparr>jn_valueint := saturate number, jn_valuedouble := number\<rparr>) h)
       (\<lambda>h. Inr (number, h))"

text \<open>Both strings are measured before either is compared with null.\<close>

definition cJSON_SetValuestring :: "nat option \<Rightarrow> u8 list option \<Rightarrow> jheap \<Rightarrow> crash + u8 list option \<times> jheap" where
  "cJSON_SetValuestring object valuestring h =
     andThen (node_at h object) (\<lambda>n.
       if jn_type n AND cJSON_String = 0 \<or> jn_type n AND cJSON_IsReference \<noteq> 0 then Inr (None, h)
       else if valuestring = None \<or> jn_valuestring n = None then Inl NullDeref
       else
         andThen (store_at object (\<lambda>n. n\<lparr>jn_valuestring := cJSON_strdup valuestring\<rparr>) h)
           (\<lambda>h. Inr (cJSON_strdup valuestring, h)))"

section \<open>Duplicating\<close>

definition duplicate_node :: "jnode \<Rightarrow> jheap \<Rightarrow> nat option \<times> jheap" where
  "duplicate_node i =
     new_item (\<lambda>n. n\<lparr>jn_type := jn_type i AND NOT cJSON_IsReference, jn_valueint := jn_valueint i,
       jn_valuedouble := jn_valuedouble i, jn_valuestring := cJSON_strdup (jn_valuestring i),
       jn_string := (if jn_type i AND cJSON_StringIsConst \<noteq> 0 then jn_string i else cJSON_strdup (jn_string i))\<rparr>)"

definition close_children :: "nat option \<Rightarrow> nat option \<Rightarrow> jheap \<Rightarrow> crash + jheap" where
  "close_children newitem newchild h =
     andThen (node_at h newitem) (\<lambda>n.
       if jn_child n \<noteq> None then store_at (jn_child n) (\<lambda>c. c\<lparr>jn_prev := newchild\<rparr>) h else Inr h)"

text \<open>
  The loop over the children, the recursive call unfolded once: each child is copied, its own children are
  copied below the copy, and the copy is linked after \<open>next\<close>, the copy made before it.
\<close>

partial_function (option) duplicate_children ::
  "nat option \<Rightarrow> nat option \<Rightarrow> nat option \<Rightarrow> jheap \<Rightarrow> (crash + nat option \<times> jheap) option" where
  "duplicate_children newitem child next h =
     (case child of
        None \<Rightarrow> Some (Inr (next, h))
      | Some c \<Rightarrow>
          (case jh_nodes h c of
             None \<Rightarrow> Some (Inl OutOfBounds)
           | Some n \<Rightarrow>
               (case duplicate_node n h of
                  (newchild, h) \<Rightarrow>
                    Option.bind (duplicate_children newchild (jn_child n) None h) (\<lambda>r.
                      case andThen r (\<lambda>(last_child, h).
                             andThen (close_children newchild last_child h) (\<lambda>h.
                               if next \<noteq> None then suffix_object next newchild h
                               else store_at newitem (\<lambda>p. p\<lparr>jn_child := newchild\<rparr>) h)) of
                        Inl e \<Rightarrow> Some (Inl e)
                      | Inr h \<Rightarrow> duplicate_children newitem (jn_next n) newchild h))))"

definition cJSON_Duplicate :: "nat option \<Rightarrow> bool \<Rightarrow> jheap \<Rightarrow> crash + nat option \<times> jheap" where
  "cJSON_Duplicate item recurse h =
     (if item = None then Inr (None, h)
      else
        andThen (node_at h item) (\<lambda>i.
          case duplicate_node i h of
            (newitem, h) \<Rightarrow>
              if \<not> recurse then Inr (newitem, h)
              else
                (case duplicate_children newitem (jn_child i) None h of
                   None \<Rightarrow> Inl Hang
                 | Some r \<Rightarrow>
                     andThen r (\<lambda>(newchild, h).
                     andThen (close_children newitem newchild h) (\<lambda>h. Inr (newitem, h))))))"

end
