(* ===== verification/CJsonChains.thy ===== *)
theory CJsonChains
  imports CJsonLinks
begin

text \<open>
  The chains of children as lists. \<open>children h a xs\<close> says that the children of the item at \<open>a\<close> are the items
  \<open>xs\<close> in this order: each \<open>next\<close> points to the following one, each \<open>prev\<close> to the one before, and the first
  one's \<open>prev\<close> to the last. Appending, detaching and inserting implement the list operations and touch no other
  chain.
\<close>

section \<open>Chains\<close>

definition modify :: "nat \<Rightarrow> (jnode \<Rightarrow> jnode) \<Rightarrow> jheap \<Rightarrow> jheap" where
  "modify a f h = h\<lparr>jh_nodes := (jh_nodes h)(a := map_option f (jh_nodes h a))\<rparr>"

definition live :: "jheap \<Rightarrow> nat \<Rightarrow> bool" where
  "live h x \<longleftrightarrow> jh_nodes h x \<noteq> None"

definition links :: "jheap \<Rightarrow> nat \<Rightarrow> (nat option \<times> nat option) option" where
  "links h x = map_option (\<lambda>n. (jn_next n, jn_prev n)) (jh_nodes h x)"

definition kid :: "jheap \<Rightarrow> nat \<Rightarrow> nat option option" where
  "kid h x = map_option jn_child (jh_nodes h x)"

definition core :: "jheap \<Rightarrow> nat \<Rightarrow> jnode option" where
  "core h x = map_option (\<lambda>n. n\<lparr>jn_next := None, jn_prev := None, jn_child := None\<rparr>) (jh_nodes h x)"

lemma store_at_live: "live h a \<Longrightarrow> store_at (Some a) f h = Inr (modify a f h)"
  by (cases "jh_nodes h a") (auto simp: store_at_def node_at_def live_def modify_def put_node_def)

lemma node_at_live: "live h a \<Longrightarrow> node_at h (Some a) = Inr (the (jh_nodes h a))"
  by (auto simp: node_at_def live_def)

lemma live_modify [simp]: "live (modify a f h) x = live h x"
  by (auto simp: live_def modify_def)

lemma next_modify [simp]: "jh_next (modify a f h) = jh_next h"
  by (simp add: modify_def)

lemma nodes_modify: "jh_nodes (modify a f h) x = (if x = a then map_option f (jh_nodes h x) else jh_nodes h x)"
  by (simp add: modify_def)

lemma links_live: "links h x = Some l \<Longrightarrow> live h x"
  by (auto simp: links_def live_def)

lemma kid_live: "kid h x = Some c \<Longrightarrow> live h x"
  by (auto simp: kid_def live_def)

lemma the_links: "links h x = Some (n, p) \<Longrightarrow> jn_next (the (jh_nodes h x)) = n \<and> jn_prev (the (jh_nodes h x)) = p"
  by (auto simp: links_def)

lemma the_kid: "kid h x = Some c \<Longrightarrow> jn_child (the (jh_nodes h x)) = c"
  by (auto simp: kid_def)

lemma links_modify:
  "links (modify a (\<lambda>n. n\<lparr>jn_next := v\<rparr>) h) x =
     (if x = a then map_option (\<lambda>l. (v, snd l)) (links h x) else links h x)"
  "links (modify a (\<lambda>n. n\<lparr>jn_prev := w\<rparr>) h) x =
     (if x = a then map_option (\<lambda>l. (fst l, w)) (links h x) else links h x)"
  "links (modify a (\<lambda>n. n\<lparr>jn_next := v, jn_prev := w\<rparr>) h) x =
     (if x = a then map_option (\<lambda>l. (v, w)) (links h x) else links h x)"
  "links (modify a (\<lambda>n. n\<lparr>jn_prev := w, jn_next := v\<rparr>) h) x =
     (if x = a then map_option (\<lambda>l. (v, w)) (links h x) else links h x)"
  "links (modify a (\<lambda>n. n\<lparr>jn_child := c\<rparr>) h) x = links h x"
  by (auto simp: links_def nodes_modify option.map_comp o_def)

lemma kid_modify:
  "kid (modify a (\<lambda>n. n\<lparr>jn_next := v\<rparr>) h) x = kid h x"
  "kid (modify a (\<lambda>n. n\<lparr>jn_prev := w\<rparr>) h) x = kid h x"
  "kid (modify a (\<lambda>n. n\<lparr>jn_next := v, jn_prev := w\<rparr>) h) x = kid h x"
  "kid (modify a (\<lambda>n. n\<lparr>jn_prev := w, jn_next := v\<rparr>) h) x = kid h x"
  "kid (modify a (\<lambda>n. n\<lparr>jn_child := c\<rparr>) h) x = (if x = a then map_option (\<lambda>_. c) (kid h x) else kid h x)"
  by (auto simp: kid_def nodes_modify option.map_comp o_def)

lemma core_modify:
  "core (modify a (\<lambda>n. n\<lparr>jn_next := v\<rparr>) h) x = core h x"
  "core (modify a (\<lambda>n. n\<lparr>jn_prev := w\<rparr>) h) x = core h x"
  "core (modify a (\<lambda>n. n\<lparr>jn_next := v, jn_prev := w\<rparr>) h) x = core h x"
  "core (modify a (\<lambda>n. n\<lparr>jn_prev := w, jn_next := v\<rparr>) h) x = core h x"
  "core (modify a (\<lambda>n. n\<lparr>jn_child := c\<rparr>) h) x = core h x"
  by (auto simp: core_def nodes_modify option.map_comp o_def intro!: option.map_cong)

lemmas modify_simps = links_modify kid_modify core_modify

definition succ_of :: "nat list \<Rightarrow> nat \<Rightarrow> nat option" where
  "succ_of xs i = (if Suc i < length xs then Some (xs ! Suc i) else None)"

definition pred_of :: "nat list \<Rightarrow> nat \<Rightarrow> nat" where
  "pred_of xs i = (if i = 0 then last xs else xs ! (i - 1))"

definition linked :: "jheap \<Rightarrow> nat list \<Rightarrow> bool" where
  "linked h xs \<longleftrightarrow> distinct xs \<and> (\<forall>i<length xs. links h (xs ! i) = Some (succ_of xs i, Some (pred_of xs i)))"

definition first_of :: "nat list \<Rightarrow> nat option" where
  "first_of xs = (if xs = [] then None else Some (hd xs))"

definition children :: "jheap \<Rightarrow> nat \<Rightarrow> nat list \<Rightarrow> bool" where
  "children h a xs \<longleftrightarrow> kid h a = Some (first_of xs) \<and> linked h xs \<and> a \<notin> set xs"

definition only_relinked :: "jheap \<Rightarrow> jheap \<Rightarrow> nat \<Rightarrow> nat set \<Rightarrow> bool" where
  "only_relinked h h' a S \<longleftrightarrow>
     jh_next h' = jh_next h \<and> (\<forall>x. core h' x = core h x) \<and> (\<forall>x. x \<noteq> a \<longrightarrow> kid h' x = kid h x) \<and>
     (\<forall>x. x \<notin> S \<longrightarrow> links h' x = links h x)"

lemma only_relinked_refl: "only_relinked h h a S"
  by (simp add: only_relinked_def)

lemma only_relinked_modify:
  assumes "only_relinked h h1 a S"
  shows "x \<in> S \<Longrightarrow> only_relinked h (modify x (\<lambda>n. n\<lparr>jn_next := v\<rparr>) h1) a S"
    "x \<in> S \<Longrightarrow> only_relinked h (modify x (\<lambda>n. n\<lparr>jn_prev := w\<rparr>) h1) a S"
    "x \<in> S \<Longrightarrow> only_relinked h (modify x (\<lambda>n. n\<lparr>jn_next := v, jn_prev := w\<rparr>) h1) a S"
    "x \<in> S \<Longrightarrow> only_relinked h (modify x (\<lambda>n. n\<lparr>jn_prev := w, jn_next := v\<rparr>) h1) a S"
    "only_relinked h (modify a (\<lambda>n. n\<lparr>jn_child := c\<rparr>) h1) a S"
  using assms by (auto simp: only_relinked_def modify_simps)

lemmas relinked_simps = only_relinked_refl only_relinked_modify

lemma linked_links: "linked h xs \<Longrightarrow> i < length xs \<Longrightarrow> links h (xs ! i) = Some (succ_of xs i, Some (pred_of xs i))"
  by (simp add: linked_def)

lemma linked_live: "linked h xs \<Longrightarrow> x \<in> set xs \<Longrightarrow> live h x"
  by (metis in_set_conv_nth linked_links links_live)

lemma linkedI:
  "distinct xs \<Longrightarrow> (\<And>i. i < length xs \<Longrightarrow> links h (xs ! i) = Some (succ_of xs i, Some (pred_of xs i))) \<Longrightarrow> linked h xs"
  by (simp add: linked_def)

lemma linked_cong:
  assumes "linked h xs" "\<And>x. x \<in> set xs \<Longrightarrow> links h' x = links h x"
  shows "linked h' xs"
  using assms by (simp add: linked_def)

lemma children_frame:
  assumes "children h b ys" "only_relinked h h' a S" "b \<noteq> a" "set ys \<inter> S = {}"
  shows "children h' b ys"
proof -
  have "links h' x = links h x" if "x \<in> set ys" for x
    using assms(2,4) that by (auto simp: only_relinked_def)
  then show ?thesis
    using assms linked_cong [of h ys h'] by (simp add: children_def only_relinked_def)
qed

section \<open>Appending\<close>

lemma add_first:
  assumes "children h a []" "live h i" "i \<noteq> a"
  shows "add_item_to_array (Some a) (Some i) h =
    Inr (True, modify i (\<lambda>n. n\<lparr>jn_prev := Some i, jn_next := None\<rparr>) (modify a (\<lambda>n. n\<lparr>jn_child := Some i\<rparr>) h))"
  using assms
  by (auto simp: add_item_to_array_def children_def first_of_def node_at_live kid_live the_kid store_at_live)

lemma add_last:
  assumes "children h a xs" "xs \<noteq> []" "live h i" "i \<noteq> a"
  shows "add_item_to_array (Some a) (Some i) h =
    Inr (True, modify (hd xs) (\<lambda>n. n\<lparr>jn_prev := Some i\<rparr>) (modify i (\<lambda>n. n\<lparr>jn_prev := Some (last xs)\<rparr>)
      (modify (last xs) (\<lambda>n. n\<lparr>jn_next := Some i\<rparr>) h)))"
proof -
  have k: "kid h a = Some (Some (hd xs))" and l: "linked h xs"
    using assms by (auto simp: children_def first_of_def)
  have c: "links h (hd xs) = Some (succ_of xs 0, Some (last xs))"
    using linked_links [OF l, of 0] assms(2) by (simp add: hd_conv_nth pred_of_def)
  let ?h = "modify i (\<lambda>n. n\<lparr>jn_prev := Some (last xs)\<rparr>) (modify (last xs) (\<lambda>n. n\<lparr>jn_next := Some i\<rparr>) h)"
  have "kid ?h a = Some (Some (hd xs))" by (simp add: modify_simps k)
  then show ?thesis
    using k c assms linked_live [OF l] kid_live [OF k]
    by (simp add: add_item_to_array_def node_at_live the_kid the_links store_at_live suffix_object_def)
qed

lemma append_ok:
  assumes "children h a xs" "links h i = Some (None, p)" "i \<notin> set xs" "i \<noteq> a"
  shows "\<exists>h'. add_item_to_array (Some a) (Some i) h = Inr (True, h') \<and> children h' a (xs @ [i]) \<and>
    only_relinked h h' a (insert i (set xs))"
proof (cases "xs = []")
  case True
  then show ?thesis
    using assms add_first [of h a i] links_live [OF assms(2)]
    by (auto simp: children_def linked_def first_of_def only_relinked_def modify_simps succ_of_def pred_of_def)
next
  case False
  let ?h = "modify (hd xs) (\<lambda>n. n\<lparr>jn_prev := Some i\<rparr>) (modify i (\<lambda>n. n\<lparr>jn_prev := Some (last xs)\<rparr>)
      (modify (last xs) (\<lambda>n. n\<lparr>jn_next := Some i\<rparr>) h))"
  have l: "linked h xs" and d: "distinct xs" using assms(1) by (auto simp: children_def linked_def)
  have "linked ?h (xs @ [i])"
  proof (rule linkedI)
    show "distinct (xs @ [i])" using d assms by simp
  next
    fix j assume j: "j < length (xs @ [i])"
    show "links ?h ((xs @ [i]) ! j) = Some (succ_of (xs @ [i]) j, Some (pred_of (xs @ [i]) j))"
    proof (cases "j < length xs")
      case True
      have "xs ! j = hd xs \<longleftrightarrow> j = 0" "xs ! j = last xs \<longleftrightarrow> Suc j = length xs" "xs ! j \<noteq> i"
        using True False d assms(3) by (auto simp: hd_conv_nth last_conv_nth nth_eq_iff_index_eq)
      then show ?thesis
        using True linked_links [OF l True] by (auto simp: modify_simps succ_of_def pred_of_def nth_append)
    next
      case last: False
      then have [simp]: "j = length xs" using j by simp
      have "hd xs \<noteq> i" "last xs \<noteq> i" using assms(3) False by auto
      then show ?thesis
        using assms(2) False by (simp add: modify_simps succ_of_def pred_of_def nth_append last_conv_nth)
    qed
  qed
  moreover have "kid ?h a = Some (first_of (xs @ [i]))" "a \<notin> set (xs @ [i])"
    using assms False by (auto simp: modify_simps children_def first_of_def)
  moreover have "only_relinked h ?h a (insert i (set xs))"
    using False by (auto simp: only_relinked_def modify_simps)
  ultimately show ?thesis
    using add_last [OF assms(1) False links_live [OF assms(2)] assms(4)] by (auto simp: children_def)
qed

section \<open>Detaching\<close>

lemma children_nth:
  assumes "children h a xs" "k < length xs"
  shows "live h a" "links h (xs ! k) = Some (succ_of xs k, Some (pred_of xs k))" "live h (xs ! k)"
    "xs ! k \<noteq> a" "kid h a = Some (Some (hd xs))" "live h (hd xs)" "live h (pred_of xs k)"
    "succ_of xs k = Some s \<Longrightarrow> live h s"
proof -
  have l: "linked h xs" and k: "kid h a = Some (Some (hd xs))" and n: "a \<notin> set xs" and e: "xs \<noteq> []"
    using assms by (auto simp: children_def first_of_def)
  show "live h a" "kid h a = Some (Some (hd xs))" using k kid_live by auto
  show "links h (xs ! k) = Some (succ_of xs k, Some (pred_of xs k))" by (rule linked_links [OF l assms(2)])
  show "xs ! k \<noteq> a" using n assms(2) nth_mem by blast
  have "pred_of xs k \<in> set xs" using assms(2) e by (auto simp: pred_of_def)
  then show "live h (xs ! k)" "live h (hd xs)" "live h (pred_of xs k)"
    using linked_live [OF l] assms(2) e by auto
  show "live h s" if "succ_of xs k = Some s"
    using that linked_live [OF l] assms(2) by (auto simp: succ_of_def split: if_splits)
qed

lemma links_cleared: "live h x \<Longrightarrow> links (modify x (\<lambda>n. n\<lparr>jn_prev := w, jn_next := v\<rparr>) h) x = Some (v, w)"
  by (auto simp: links_def nodes_modify live_def)

definition detached :: "nat \<Rightarrow> nat list \<Rightarrow> nat \<Rightarrow> jheap \<Rightarrow> jheap" where
  "detached a xs k h =
     (let h = (if k = 0 then h else modify (xs ! (k - 1)) (\<lambda>n. n\<lparr>jn_next := succ_of xs k\<rparr>) h);
          h = (if Suc k < length xs then modify (xs ! Suc k) (\<lambda>n. n\<lparr>jn_prev := Some (pred_of xs k)\<rparr>) h else h);
          h = (if k = 0 then modify a (\<lambda>n. n\<lparr>jn_child := succ_of xs k\<rparr>) h
               else if Suc k < length xs then h
               else modify (hd xs) (\<lambda>n. n\<lparr>jn_prev := Some (pred_of xs k)\<rparr>) h)
      in modify (xs ! k) (\<lambda>n. n\<lparr>jn_prev := None, jn_next := None\<rparr>) h)"

lemma nth_eq_hd: "distinct xs \<Longrightarrow> k < length xs \<Longrightarrow> xs ! k = hd xs \<longleftrightarrow> k = 0"
  by (cases xs) (auto simp: nth_eq_iff_index_eq [of "x # xs" for x xs, of _ _ k 0, simplified] nth_Cons split: nat.splits)

lemma detach_runs:
  assumes "children h a xs" "k < length xs"
  shows "cJSON_DetachItemViaPointer (Some a) (Some (xs ! k)) h = Inr (Some (xs ! k), detached a xs k h)"
proof -
  note c = children_nth [OF assms]
  have d: "distinct xs" using assms(1) by (simp add: children_def linked_def)
  show ?thesis
    using c(1-7) c(8) [of "xs ! Suc k"] nth_eq_hd [OF d assms(2)]
    by (cases "k = 0"; cases "Suc k < length xs")
      (simp_all add: cJSON_DetachItemViaPointer_def detached_def node_at_live the_kid the_links store_at_live
        succ_of_def pred_of_def)
qed

lemma links_detached:
  assumes l: "linked h xs" and k: "k < length xs" and n: "a \<notin> set xs" and m: "m < length xs" "m \<noteq> k"
  shows "links (detached a xs k h) (xs ! m) =
    Some (if Suc m = k then succ_of xs k else succ_of xs m,
      Some (if m = Suc k \<or> m = 0 \<and> Suc k = length xs then pred_of xs k else pred_of xs m))"
proof -
  have d: "distinct xs" using l by (simp add: linked_def)
  define x where "x = xs ! m"
  have "links h x = Some (succ_of xs m, Some (pred_of xs m))" "x = hd xs \<longleftrightarrow> m = 0" "x \<noteq> a" "x \<noteq> xs ! k"
    using linked_links [OF l m(1)] nth_eq_hd [OF d m(1)] nth_mem [OF m(1)] n d k m
    by (auto simp: x_def nth_eq_iff_index_eq)
  moreover have "x = xs ! Suc k \<longleftrightarrow> m = Suc k" if "Suc k < length xs"
    using that m d by (simp add: x_def nth_eq_iff_index_eq)
  moreover have "x = xs ! (k - 1) \<longleftrightarrow> Suc m = k" if "k \<noteq> 0"
    using that k m d by (auto simp: x_def nth_eq_iff_index_eq)
  ultimately show ?thesis
    using k m unfolding x_def [symmetric]
    by (cases "k = 0"; cases "Suc k < length xs") (simp_all add: detached_def Let_def modify_simps)
qed

lemma linked_drop_nth:
  assumes "linked h xs" "k < length xs" "a \<notin> set xs"
  shows "linked (detached a xs k h) (take k xs @ drop (Suc k) xs)"
proof (rule linkedI)
  let ?ys = "take k xs @ drop (Suc k) xs"
  have "distinct xs" using assms by (simp add: linked_def)
  then show "distinct ?ys" by (auto simp: set_take_disj_set_drop_if_distinct)
  fix j assume j: "j < length ?ys"
  let ?m = "if j < k then j else Suc j"
  have m: "?m < length xs" "?m \<noteq> k" using j assms(2) by auto
  have nth: "?ys ! i = xs ! (if i < k then i else Suc i)" if "i < length ?ys" for i
    using that assms(2) by (auto simp: nth_append)
  have last: "last ?ys = (if Suc k < length xs then last xs else xs ! (k - 1))"
  proof (cases "Suc k < length xs")
    case False
    then have "take k xs \<noteq> []" "drop (Suc k) xs = []" "k < length xs" using j assms(2) by auto
    then show ?thesis using last_conv_nth [of "take k xs"] False by simp
  qed (simp add: last_append)
  have len: "length ?ys = length xs - 1" using assms(2) by simp
  have "succ_of ?ys j = (if Suc ?m = k then succ_of xs k else succ_of xs ?m)"
    using j assms(2) nth [of "Suc j"] by (auto simp: succ_of_def)
  moreover have "pred_of ?ys j = (if ?m = Suc k \<or> ?m = 0 \<and> Suc k = length xs then pred_of xs k else pred_of xs ?m)"
    using j assms(2) nth [of "j - 1"] last by (auto simp: pred_of_def)
  ultimately show "links (detached a xs k h) (?ys ! j) = Some (succ_of ?ys j, Some (pred_of ?ys j))"
    using links_detached [OF assms m] nth [OF j] by simp
qed

lemma detach_ok:
  assumes "children h a xs" "k < length xs"
  shows "\<exists>h'. cJSON_DetachItemViaPointer (Some a) (Some (xs ! k)) h = Inr (Some (xs ! k), h') \<and>
    children h' a (take k xs @ drop (Suc k) xs) \<and> links h' (xs ! k) = Some (None, None) \<and>
    only_relinked h h' a (set xs)"
proof (intro exI conjI)
  show "cJSON_DetachItemViaPointer (Some a) (Some (xs ! k)) h = Inr (Some (xs ! k), detached a xs k h)"
    by (rule detach_runs [OF assms])
  have l: "linked h xs" and n: "a \<notin> set xs" and d: "distinct xs" using assms by (auto simp: children_def linked_def)
  note c = children_nth [OF assms]
  show "links (detached a xs k h) (xs ! k) = Some (None, None)"
    using c(3) by (cases "k = 0") (simp_all add: detached_def Let_def links_cleared)
  show "only_relinked h (detached a xs k h) a (set xs)"
    using assms(2) hd_in_set [of xs] by (cases "xs = []") (auto simp: detached_def Let_def relinked_simps)
  have "a \<notin> set (take k xs @ drop (Suc k) xs)" using n by (auto dest: in_set_takeD in_set_dropD)
  moreover have "kid (detached a xs k h) a = Some (first_of (take k xs @ drop (Suc k) xs))"
    using c(4,5) assms(2) n
    by (auto simp: detached_def Let_def modify_simps first_of_def succ_of_def hd_append hd_drop_conv_nth)
  ultimately show "children (detached a xs k h) a (take k xs @ drop (Suc k) xs)"
    using linked_drop_nth [OF l assms(2) n] by (simp add: children_def)
qed

section \<open>Inserting\<close>

lemma get_array_item_at_nth:
  "linked h (ys @ xs) \<Longrightarrow> get_array_item_at (first_of xs) k h = Inr (if k < length xs then Some (xs ! k) else None)"
proof (induction k arbitrary: ys xs)
  case 0
  then show ?case by (cases xs) (auto simp: first_of_def)
next
  case (Suc k)
  show ?case
  proof (cases xs)
    case (Cons x zs)
    then have "links h x = Some (succ_of (ys @ xs) (length ys), Some (pred_of (ys @ xs) (length ys)))"
      using linked_links [OF Suc.prems, of "length ys"] by simp
    moreover have "succ_of (ys @ xs) (length ys) = first_of zs"
      using Cons by (auto simp: succ_of_def first_of_def nth_append hd_conv_nth)
    moreover have "linked h ((ys @ [x]) @ zs)" using Suc.prems Cons by simp
    ultimately show ?thesis
      using Suc.IH [of "ys @ [x]" zs] Cons by (auto simp: first_of_def node_at_live links_live the_links)
  qed (simp add: first_of_def)
qed

lemma get_array_item_nth:
  assumes "children h a xs"
  shows "get_array_item_h (Some a) k h = Inr (if k < length xs then Some (xs ! k) else None)"
  using assms get_array_item_at_nth [of h "[]" xs k]
  by (auto simp: get_array_item_h_def children_def node_at_live kid_live the_kid)

definition inserted :: "nat \<Rightarrow> nat list \<Rightarrow> nat \<Rightarrow> nat \<Rightarrow> jheap \<Rightarrow> jheap" where
  "inserted a xs k i h =
     (let h = modify i (\<lambda>n. n\<lparr>jn_next := Some (xs ! k), jn_prev := Some (pred_of xs k)\<rparr>) h;
          h = modify (xs ! k) (\<lambda>n. n\<lparr>jn_prev := Some i\<rparr>) h
      in if k = 0 then modify a (\<lambda>n. n\<lparr>jn_child := Some i\<rparr>) h
         else modify (xs ! (k - 1)) (\<lambda>n. n\<lparr>jn_next := Some i\<rparr>) h)"

lemma insert_runs:
  assumes "children h a xs" "k < length xs" "live h i" "i \<notin> set xs" "i \<noteq> a"
  shows "cJSON_InsertItemInArray (Some a) (int k) (Some i) h = Inr (True, inserted a xs k i h)"
proof -
  note c = children_nth [OF assms(1,2)]
  have d: "distinct xs" using assms(1) by (simp add: children_def linked_def)
  let ?h = "modify (xs ! k) (\<lambda>n. n\<lparr>jn_prev := Some i\<rparr>)
    (modify i (\<lambda>n. n\<lparr>jn_next := Some (xs ! k), jn_prev := Some (pred_of xs k)\<rparr>) h)"
  have i: "xs ! k \<noteq> i" using assms(2,4) nth_mem by blast
  have "kid ?h a = Some (Some (hd xs))" using c(5) by (simp add: modify_simps)
  then have r: "jn_child (the (jh_nodes ?h a)) = Some (hd xs)" by (simp add: the_kid)
  obtain l where "links h i = Some l" using assms(3) by (auto simp: live_def links_def)
  then have "links ?h i = Some (Some (xs ! k), Some (pred_of xs k))" using i by (simp add: modify_simps)
  then have s: "jn_prev (the (jh_nodes ?h i)) = Some (pred_of xs k)" by (simp add: the_links)
  have p: "jn_prev (the (jh_nodes h (xs ! k))) = Some (pred_of xs k)" using the_links [OF c(2)] by simp
  have "get_array_item_h (Some a) k h = Inr (Some (xs ! k))" using get_array_item_nth [OF assms(1)] assms(2) by simp
  then have "cJSON_InsertItemInArray (Some a) (int k) (Some i) h =
      andThen (if k = 0 then Inr (modify a (\<lambda>n. n\<lparr>jn_child := Some i\<rparr>) ?h)
        else Inr (modify (pred_of xs k) (\<lambda>n. n\<lparr>jn_next := Some i\<rparr>) ?h)) (\<lambda>h. Inr (True, h))"
    using c(1,3,7) assms(3) nth_eq_hd [OF d assms(2)] r s p
    by (cases "k = 0") (simp_all add: cJSON_InsertItemInArray_def node_at_live store_at_live)
  then show ?thesis by (simp add: inserted_def pred_of_def)
qed

lemma links_inserted:
  assumes l: "linked h xs" and k: "k < length xs" and i: "i \<notin> set xs" and m: "m < length xs"
  shows "links (inserted a xs k i h) (xs ! m) =
    Some (if Suc m = k then Some i else succ_of xs m, Some (if m = k then i else pred_of xs m))"
proof -
  have d: "distinct xs" using l by (simp add: linked_def)
  define x where "x = xs ! m"
  have "links h x = Some (succ_of xs m, Some (pred_of xs m))" "x \<noteq> i" "x = xs ! k \<longleftrightarrow> m = k"
    using linked_links [OF l m] nth_mem [OF m] i d k m by (auto simp: x_def nth_eq_iff_index_eq)
  moreover have "x = xs ! (k - 1) \<longleftrightarrow> Suc m = k" if "k \<noteq> 0"
    using that k m d by (auto simp: x_def nth_eq_iff_index_eq)
  ultimately show ?thesis
    unfolding x_def [symmetric]
    by (cases "k = 0") (simp_all add: inserted_def Let_def modify_simps)
qed

lemma links_inserted_new:
  assumes "k < length xs" "i \<notin> set xs" "live h i"
  shows "links (inserted a xs k i h) i = Some (Some (xs ! k), Some (pred_of xs k))"
proof -
  obtain l where "links h i = Some l" using assms(3) by (auto simp: live_def links_def)
  moreover have "i \<noteq> xs ! k" "i \<noteq> xs ! (k - 1)"
    using nth_mem [of k xs] nth_mem [of "k - 1" xs] assms(1,2) by auto
  ultimately show ?thesis by (cases "k = 0") (simp_all add: inserted_def Let_def modify_simps)
qed

lemma linked_insert_nth:
  assumes "linked h xs" "k < length xs" "i \<notin> set xs" "live h i"
  shows "linked (inserted a xs k i h) (take k xs @ i # drop k xs)"
proof (rule linkedI)
  let ?ys = "take k xs @ i # drop k xs"
  have "distinct xs" using assms by (simp add: linked_def)
  then show "distinct ?ys"
    using assms(3) by (auto simp: set_take_disj_set_drop_if_distinct dest: in_set_takeD in_set_dropD)
  fix j assume j: "j < length ?ys"
  have last: "last ?ys = last xs" using assms(2) by simp
  have nth: "?ys ! n = (if n < k then xs ! n else if n = k then i else xs ! (n - 1))" if "n < length ?ys" for n
    using that assms(2) by (auto simp: nth_append nth_Cons split: nat.splits intro!: arg_cong [where f = "(!) xs"])
  show "links (inserted a xs k i h) (?ys ! j) = Some (succ_of ?ys j, Some (pred_of ?ys j))"
  proof (cases "j = k")
    case True
    have "succ_of ?ys k = Some (xs ! k)" "pred_of ?ys k = pred_of xs k"
      using assms(2) nth [of "Suc k"] nth [of "k - 1"] last by (auto simp: succ_of_def pred_of_def)
    then show ?thesis using True nth [OF j] links_inserted_new [OF assms(2-4)] by simp
  next
    case False
    let ?m = "if j < k then j else j - 1"
    have m: "?m < length xs" using False j assms(2) by auto
    have "succ_of ?ys j = (if Suc ?m = k then Some i else succ_of xs ?m)"
      using False j assms(2) nth [of "Suc j"] by (auto simp: succ_of_def)
    moreover have "pred_of ?ys j = (if ?m = k then i else pred_of xs ?m)"
      using False j assms(2) nth [of "j - 1"] last by (auto simp: pred_of_def)
    moreover have "?ys ! j = xs ! ?m" using False nth [OF j] by simp
    ultimately show ?thesis
      using links_inserted [OF assms(1-3) m, of a] by (simp only:)
  qed
qed

lemma insert_ok:
  assumes "children h a xs" "links h i = Some (None, p)" "i \<notin> set xs" "i \<noteq> a"
  shows "\<exists>h'. cJSON_InsertItemInArray (Some a) (int k) (Some i) h = Inr (True, h') \<and>
    children h' a (take k xs @ i # drop k xs) \<and> only_relinked h h' a (insert i (set xs))"
proof (cases "k < length xs")
  case True
  note c = children_nth [OF assms(1) True]
  have l: "linked h xs" and n: "a \<notin> set xs" using assms(1) by (auto simp: children_def)
  let ?h = "inserted a xs k i h"
  have "kid ?h a = Some (first_of (take k xs @ i # drop k xs))"
    using c(5) True by (auto simp: inserted_def Let_def modify_simps first_of_def hd_append)
  moreover have "a \<notin> set (take k xs @ i # drop k xs)"
    using n assms(4) by (auto dest: in_set_takeD in_set_dropD)
  moreover have "only_relinked h ?h a (insert i (set xs))"
    using True by (auto simp: inserted_def Let_def relinked_simps)
  ultimately show ?thesis
    using insert_runs [OF assms(1) True links_live [OF assms(2)] assms(3,4)]
      linked_insert_nth [OF l True assms(3) links_live [OF assms(2)]]
    by (auto simp: children_def)
next
  case False
  then have "cJSON_InsertItemInArray (Some a) (int k) (Some i) h = add_item_to_array (Some a) (Some i) h"
    using get_array_item_nth [OF assms(1)] by (simp add: cJSON_InsertItemInArray_def)
  then show ?thesis using append_ok [OF assms] False by simp
qed

section \<open>Item lists as an interface\<close>

text \<open>
  What the functions that take an array and an index promise: \<open>rep h a xs\<close> is the list at \<open>a\<close>, \<open>loose h i\<close> an
  item in no chain.
\<close>

locale item_list =
  fixes rep :: "'h \<Rightarrow> nat \<Rightarrow> nat list \<Rightarrow> bool"
    and loose :: "'h \<Rightarrow> nat \<Rightarrow> bool"
    and insert_at :: "nat \<Rightarrow> nat \<Rightarrow> nat \<Rightarrow> 'h \<Rightarrow> crash + bool \<times> 'h"
    and detach_at :: "nat \<Rightarrow> nat \<Rightarrow> 'h \<Rightarrow> crash + nat option \<times> 'h"
  assumes insert_law: "rep h a xs \<Longrightarrow> loose h i \<Longrightarrow> i \<notin> set xs \<Longrightarrow> i \<noteq> a \<Longrightarrow>
      \<exists>h'. insert_at a k i h = Inr (True, h') \<and> rep h' a (take k xs @ i # drop k xs) \<and>
        (\<forall>b ys. rep h b ys \<longrightarrow> b \<noteq> a \<longrightarrow> set ys \<inter> insert i (set xs) = {} \<longrightarrow> rep h' b ys)"
    and detach_law: "rep h a xs \<Longrightarrow> k < length xs \<Longrightarrow>
      \<exists>h'. detach_at a k h = Inr (Some (xs ! k), h') \<and> rep h' a (take k xs @ drop (Suc k) xs) \<and>
        loose h' (xs ! k) \<and> (\<forall>b ys. rep h b ys \<longrightarrow> b \<noteq> a \<longrightarrow> set ys \<inter> set xs = {} \<longrightarrow> rep h' b ys)"
    and rep_distinct: "rep h a xs \<Longrightarrow> distinct xs"
begin

lemma insert_detach:
  assumes "rep h a xs" "loose h i" "i \<notin> set xs" "i \<noteq> a" "k \<le> length xs"
  shows "\<exists>h1 h2. insert_at a k i h = Inr (True, h1) \<and> detach_at a k h1 = Inr (Some i, h2) \<and> rep h2 a xs \<and> loose h2 i"
proof -
  let ?ys = "take k xs @ i # drop k xs"
  obtain h1 where h1: "insert_at a k i h = Inr (True, h1)" "rep h1 a ?ys"
    using insert_law [OF assms(1-4)] by blast
  have k: "k < length ?ys" "?ys ! k = i" "take k ?ys @ drop (Suc k) ?ys = xs"
    using assms(5) by (auto simp: nth_append min_def)
  show ?thesis using h1 detach_law [OF h1(2) k(1)] unfolding k(2,3) by blast
qed

lemma move_item:
  assumes "rep h a xs" "rep h b ys" "a \<noteq> b" "k < length xs" "set xs \<inter> set ys = {}" "b \<notin> set xs"
  shows "\<exists>h1 h2. detach_at a k h = Inr (Some (xs ! k), h1) \<and> insert_at b j (xs ! k) h1 = Inr (True, h2) \<and>
    rep h2 a (take k xs @ drop (Suc k) xs) \<and> rep h2 b (take j ys @ (xs ! k) # drop j ys)"
proof -
  let ?zs = "take k xs @ drop (Suc k) xs"
  obtain h1 where h1: "detach_at a k h = Inr (Some (xs ! k), h1)" "rep h1 a ?zs" "loose h1 (xs ! k)" "rep h1 b ys"
    using detach_law [OF assms(1,4)] assms(2,3,5) by (metis inf_commute)
  have x: "xs ! k \<in> set xs" using assms(4) by simp
  then have n: "xs ! k \<notin> set ys" "xs ! k \<noteq> b" using assms(5,6) by auto
  have "xs ! k \<notin> set ?zs"
    using rep_distinct [OF assms(1)] id_take_nth_drop [OF assms(4)]
    by (metis distinct.simps(2) distinct_append Un_iff disjoint_insert(1) list.simps(15) set_append)
  then have "set ?zs \<inter> insert (xs ! k) (set ys) = {}"
    using assms(5) by (auto dest: in_set_takeD in_set_dropD)
  then show ?thesis using h1 insert_law [OF h1(4,3) n, of j] assms(3) by metis
qed

end

definition loose :: "jheap \<Rightarrow> nat \<Rightarrow> bool" where
  "loose h i \<longleftrightarrow> links h i = Some (None, None)"

interpretation jlist: item_list children loose
  "\<lambda>a k i. cJSON_InsertItemInArray (Some a) (int k) (Some i)" "\<lambda>a k. cJSON_DetachItemFromArray (Some a) (int k)"
proof unfold_locales
  show "distinct xs" if "children h a xs" for h a xs
    using that by (simp add: children_def linked_def)
  show "\<exists>h'. cJSON_InsertItemInArray (Some a) (int k) (Some i) h = Inr (True, h') \<and>
        children h' a (take k xs @ i # drop k xs) \<and>
        (\<forall>b ys. children h b ys \<longrightarrow> b \<noteq> a \<longrightarrow> set ys \<inter> insert i (set xs) = {} \<longrightarrow> children h' b ys)"
    if "children h a xs" "loose h i" "i \<notin> set xs" "i \<noteq> a" for h a xs i k
    using insert_ok [OF that(1) _ that(3,4), of None k] that(2) children_frame unfolding loose_def by blast
  show "\<exists>h'. cJSON_DetachItemFromArray (Some a) (int k) h = Inr (Some (xs ! k), h') \<and>
        children h' a (take k xs @ drop (Suc k) xs) \<and> loose h' (xs ! k) \<and>
        (\<forall>b ys. children h b ys \<longrightarrow> b \<noteq> a \<longrightarrow> set ys \<inter> set xs = {} \<longrightarrow> children h' b ys)"
    if "children h a xs" "k < length xs" for h a xs k
  proof -
    have "cJSON_DetachItemFromArray (Some a) (int k) h = cJSON_DetachItemViaPointer (Some a) (Some (xs ! k)) h"
      using get_array_item_nth [OF that(1), of k] that(2) by (simp add: cJSON_DetachItemFromArray_def)
    then show ?thesis using detach_ok [OF that] children_frame unfolding loose_def by metis
  qed
qed

end
