(* ===== verification/CJsonOwned.thy ===== *)
theory CJsonOwned
  imports CJsonChains
begin

text \<open>
  Deleting, replacing and naming items. \<open>owned h p S\<close> says that following the chain at \<open>p\<close>, and the children
  of every item in it that is not a reference, reaches each item of \<open>S\<close> once and nothing else.
\<close>

section \<open>Deleting\<close>

inductive owned :: "jheap \<Rightarrow> nat option \<Rightarrow> nat set \<Rightarrow> bool" for h where
  owned_null: "owned h None {}"
| owned_ref: "jh_nodes h a = Some n \<Longrightarrow> jn_type n AND cJSON_IsReference \<noteq> 0 \<Longrightarrow> owned h (jn_next n) N \<Longrightarrow>
    a \<notin> N \<Longrightarrow> owned h (Some a) (insert a N)"
| owned_tree: "jh_nodes h a = Some n \<Longrightarrow> jn_type n AND cJSON_IsReference = 0 \<Longrightarrow> owned h (jn_child n) C \<Longrightarrow>
    owned h (jn_next n) N \<Longrightarrow> a \<notin> C \<Longrightarrow> a \<notin> N \<Longrightarrow> C \<inter> N = {} \<Longrightarrow> owned h (Some a) (insert a (C \<union> N))"

definition erase :: "nat set \<Rightarrow> jheap \<Rightarrow> jheap" where
  "erase S h = h\<lparr>jh_nodes := jh_nodes h |` (- S)\<rparr>"

lemma nodes_erase: "jh_nodes (erase S h) x = (if x \<in> S then None else jh_nodes h x)"
  by (simp add: erase_def)

lemma erase_empty [simp]: "erase {} h = h"
  by (simp add: erase_def restrict_map_def)

lemma erase_erase: "erase S (erase T h) = erase (T \<union> S) h"
  by (simp add: erase_def restrict_map_def fun_eq_iff)

lemma erase_one: "h\<lparr>jh_nodes := (jh_nodes h)(a := None)\<rparr> = erase {a} h"
  by (simp add: erase_def restrict_map_def fun_upd_def fun_eq_iff)

lemma delete_erases:
  assumes "owned h p S" "\<And>x. x \<in> S \<Longrightarrow> jh_nodes h' x = jh_nodes h x"
  shows "cJSON_Delete p h' = Some (Inr (erase S h'))"
  using assms
proof (induction arbitrary: h' rule: owned.induct)
  case owned_null
  then show ?case by (simp add: cJSON_Delete.simps [of None])
next
  case (owned_ref a n N)
  have "cJSON_Delete (jn_next n) (erase {a} h') = Some (Inr (erase N (erase {a} h')))"
    by (rule owned_ref.IH) (use owned_ref.hyps owned_ref.prems in \<open>auto simp: nodes_erase\<close>)
  then show ?case
    using owned_ref.hyps owned_ref.prems [of a]
    by (simp add: cJSON_Delete.simps [of "Some a"] erase_one erase_erase)
next
  case (owned_tree a n C N)
  have c: "cJSON_Delete (jn_child n) h' = Some (Inr (erase C h'))"
    by (rule owned_tree.IH(1)) (use owned_tree.prems in auto)
  have "cJSON_Delete (jn_next n) (erase {a} (erase C h')) = Some (Inr (erase N (erase {a} (erase C h'))))"
    by (rule owned_tree.IH(2)) (use owned_tree.hyps owned_tree.prems in \<open>auto simp: nodes_erase\<close>)
  moreover have "jn_child n = None \<Longrightarrow> C = {}"
    using owned_tree.hyps(3) by (auto elim: owned.cases)
  ultimately show ?case
    using owned_tree.hyps owned_tree.prems [of a] c
    by (cases "jn_child n = None")
      (auto simp: cJSON_Delete.simps [of "Some a"] erase_one erase_erase nodes_erase Un_commute)
qed

lemma delete_item_erases: "owned h p S \<Longrightarrow> delete_item p h = Inr (erase S h)"
  by (simp add: delete_item_def delete_erases [of h p S h])

lemma owned_cong:
  assumes "owned h p S" "\<And>x. x \<in> S \<Longrightarrow> jh_nodes h' x = jh_nodes h x"
  shows "owned h' p S"
  using assms
proof (induction rule: owned.induct)
  case (owned_ref a n N)
  then show ?case by (auto intro!: owned.owned_ref)
next
  case (owned_tree a n C N)
  then show ?case by (auto intro!: owned.owned_tree)
qed (rule owned.owned_null)

definition owns :: "jheap \<Rightarrow> nat \<Rightarrow> nat set \<Rightarrow> bool" where
  "owns h x C \<longleftrightarrow> (\<exists>n. jh_nodes h x = Some n \<and> x \<notin> C \<and>
     owned h (if jn_type n AND cJSON_IsReference = 0 then jn_child n else None) C)"

lemma owns_owned:
  assumes "owns h x C" "links h x = Some (None, p)"
  shows "owned h (Some x) (insert x C)"
proof -
  obtain n where n: "jh_nodes h x = Some n" "x \<notin> C" "jn_next n = None"
      "owned h (if jn_type n AND cJSON_IsReference = 0 then jn_child n else None) C"
    using assms by (auto simp: owns_def links_def)
  show ?thesis
  proof (cases "jn_type n AND cJSON_IsReference = 0")
    case True
    then show ?thesis using n owned.owned_tree [OF n(1) True, of C "{}"] by (simp add: owned.owned_null)
  next
    case False
    then have "C = {}" using n(4) by (auto elim: owned.cases)
    then show ?thesis using n owned.owned_ref [OF n(1) False, of "{}"] by (simp add: owned.owned_null)
  qed
qed

lemma same_node:
  "n\<lparr>jn_next := None, jn_prev := None, jn_child := None\<rparr> = m\<lparr>jn_next := None, jn_prev := None, jn_child := None\<rparr> \<Longrightarrow>
    jn_next n = jn_next m \<Longrightarrow> jn_prev n = jn_prev m \<Longrightarrow> jn_child n = jn_child m \<Longrightarrow> n = (m :: jnode)"
  by (cases n; cases m) simp

lemma nodes_eqI:
  assumes "core h' x = core h x" "kid h' x = kid h x" "links h' x = links h x"
  shows "jh_nodes h' x = jh_nodes h x"
  using assms by (cases "jh_nodes h x"; cases "jh_nodes h' x") (auto simp: core_def kid_def links_def intro: same_node)

lemma owns_cong:
  assumes "owns h x C" "core h' x = core h x" "kid h' x = kid h x" "\<And>y. y \<in> C \<Longrightarrow> jh_nodes h' y = jh_nodes h y"
  shows "owns h' x C"
proof -
  obtain n where n: "jh_nodes h x = Some n" "x \<notin> C"
      "owned h (if jn_type n AND cJSON_IsReference = 0 then jn_child n else None) C"
    using assms(1) by (auto simp: owns_def)
  have "map_option jn_type (core h' x) = map_option jn_type (core h x)" using assms(2) by simp
  then obtain n' where n': "jh_nodes h' x = Some n'" "jn_type n' = jn_type n" "jn_child n' = jn_child n"
    using n(1) assms(3) by (cases "jh_nodes h' x") (auto simp: core_def kid_def)
  show ?thesis using n n' owned_cong [OF n(3) assms(4)] by (auto simp: owns_def)
qed

section \<open>Replacing\<close>

definition replaced :: "nat \<Rightarrow> nat list \<Rightarrow> nat \<Rightarrow> nat \<Rightarrow> jheap \<Rightarrow> jheap" where
  "replaced a xs k i h =
     (let h = modify i (\<lambda>n. n\<lparr>jn_next := succ_of xs k, jn_prev := Some (pred_of xs k)\<rparr>) h;
          h = (if Suc k < length xs then modify (xs ! Suc k) (\<lambda>n. n\<lparr>jn_prev := Some i\<rparr>) h else h);
          h = (if k = 0
               then modify a (\<lambda>n. n\<lparr>jn_child := Some i\<rparr>)
                 (if length xs = 1 then modify i (\<lambda>n. n\<lparr>jn_prev := Some i\<rparr>) h else h)
               else
                 let h = modify (xs ! (k - 1)) (\<lambda>n. n\<lparr>jn_next := Some i\<rparr>) h
                 in if Suc k < length xs then h else modify (hd xs) (\<lambda>n. n\<lparr>jn_prev := Some i\<rparr>) h)
      in modify (xs ! k) (\<lambda>n. n\<lparr>jn_next := None, jn_prev := None\<rparr>) h)"

lemma replace_runs:
  assumes "children h a xs" "k < length xs" "live h i" "i \<notin> set xs" "i \<noteq> a"
  shows "cJSON_ReplaceItemViaPointer (Some a) (Some (xs ! k)) (Some i) h =
    andThen (delete_item (Some (xs ! k)) (replaced a xs k i h)) (\<lambda>h. Inr (True, h))"
proof -
  note c = children_nth [OF assms(1,2)]
  have l: "linked h xs" and d: "distinct xs" using assms(1) by (simp_all add: children_def linked_def)
  have i: "xs ! k \<noteq> i" using nth_mem [OF assms(2)] assms(4) by auto
  have hd: "hd xs \<noteq> i" using assms(2,4) hd_in_set [of xs] by fastforce
  let ?h1 = "modify i (\<lambda>n. n\<lparr>jn_next := succ_of xs k, jn_prev := Some (pred_of xs k)\<rparr>) h"
  let ?h2 = "if Suc k < length xs then modify (xs ! Suc k) (\<lambda>n. n\<lparr>jn_prev := Some i\<rparr>) ?h1 else ?h1"
  have n: "jn_next (the (jh_nodes h (xs ! k))) = succ_of xs k" "jn_prev (the (jh_nodes h (xs ! k))) = Some (pred_of xs k)"
    using the_links [OF c(2)] by auto
  have "kid ?h2 a = Some (Some (hd xs))" using c(5) by (simp add: modify_simps)
  then have r: "jn_child (the (jh_nodes ?h2 a)) = Some (hd xs)" by (rule the_kid)
  obtain li where li: "links h i = Some li" using assms(3) by (auto simp: live_def links_def)
  have "i \<noteq> xs ! Suc k" if "Suc k < length xs" using nth_mem [OF that] assms(4) by auto
  then have s2: "links ?h2 i = Some (succ_of xs k, Some (pred_of xs k))" using li by (simp add: modify_simps)
  note s = the_links [OF s2]
  let ?h3 = "modify (pred_of xs k) (\<lambda>n. n\<lparr>jn_next := Some i\<rparr>) ?h2"
  have "links ?h3 i = Some (succ_of xs k, Some (pred_of xs k))" if "k \<noteq> 0"
    using s2 that assms(2,4) nth_mem [of "k - 1" xs] by (auto simp: links_modify(1) pred_of_def)
  then have s3: "jn_next (the (jh_nodes ?h3 i)) = succ_of xs k" if "k \<noteq> 0" using that the_links by blast
  have "links ?h2 (hd xs) = Some (succ_of xs 0, Some (last xs))" if "k = 0"
  proof -
    have "hd xs \<noteq> xs ! Suc 0" if "Suc 0 < length xs" using nth_eq_hd [OF d that] by auto
    then show ?thesis
      using linked_links [OF l, of 0] assms(2) hd that by (auto simp: modify_simps hd_conv_nth pred_of_def)
  qed
  then have t: "jn_prev (the (jh_nodes ?h2 (hd xs))) = Some (last xs)" if "k = 0" using that the_links by blast
  have u: "last xs = hd xs \<longleftrightarrow> length xs = 1"
    using d assms(2) by (cases xs) (auto simp: last_conv_nth)
  have v: "live ?h2 x = live h x" for x by simp
  show ?thesis
  proof (cases "k = 0")
    case True
    then have e: "hd xs = xs ! k" using assms(2) by (cases xs) auto
    show ?thesis
      using True c(1,3,7) c(8) [of "xs ! Suc k"] assms(2,3,5) n i r [unfolded e] s t [OF True, unfolded e] u [unfolded e]
      by (cases "Suc k < length xs")
        (simp_all add: cJSON_ReplaceItemViaPointer_def replaced_def Let_def node_at_live store_at_live succ_of_def)
  next
    case False
    then show ?thesis
      using c(1,3,6,7) c(8) [of "xs ! Suc k"] assms(2,3,5) n i r s s3 [OF False] nth_eq_hd [OF d assms(2)]
      by (cases "Suc k < length xs")
        (simp_all add: cJSON_ReplaceItemViaPointer_def replaced_def Let_def node_at_live store_at_live succ_of_def pred_of_def)
  qed
qed

lemma links_replaced:
  assumes l: "linked h xs" and k: "k < length xs" and i: "i \<notin> set xs" and m: "m < length xs" "m \<noteq> k"
  shows "links (replaced a xs k i h) (xs ! m) =
    Some (if Suc m = k then Some i else succ_of xs m,
      Some (if m = Suc k \<or> m = 0 \<and> Suc k = length xs then i else pred_of xs m))"
proof -
  have d: "distinct xs" using l by (simp add: linked_def)
  define x where "x = xs ! m"
  have "links h x = Some (succ_of xs m, Some (pred_of xs m))" "x = hd xs \<longleftrightarrow> m = 0" "x \<noteq> i" "x \<noteq> xs ! k"
    using linked_links [OF l m(1)] nth_eq_hd [OF d m(1)] nth_mem [OF m(1)] i d k m
    by (auto simp: x_def nth_eq_iff_index_eq)
  moreover have "x = xs ! Suc k \<longleftrightarrow> m = Suc k" if "Suc k < length xs"
    using that m d by (simp add: x_def nth_eq_iff_index_eq)
  moreover have "x = xs ! (k - 1) \<longleftrightarrow> Suc m = k" if "k \<noteq> 0"
    using that k m d by (auto simp: x_def nth_eq_iff_index_eq)
  ultimately show ?thesis
    using k m unfolding x_def [symmetric]
    by (cases "k = 0"; cases "Suc k < length xs") (simp_all add: replaced_def Let_def modify_simps)
qed

lemma links_replaced_new:
  assumes "k < length xs" "i \<notin> set xs" "live h i"
  shows "links (replaced a xs k i h) i = Some (succ_of xs k, Some (if length xs = 1 then i else pred_of xs k))"
proof -
  obtain l where "links h i = Some l" using assms(3) by (auto simp: live_def links_def)
  moreover have "i \<noteq> xs ! m" if "m < length xs" for m using nth_mem [OF that] assms(2) by auto
  moreover have "i \<noteq> hd xs" using assms(1,2) hd_in_set [of xs] by fastforce
  ultimately show ?thesis
    using assms(1) by (cases "k = 0"; cases "Suc k < length xs") (auto simp: replaced_def Let_def modify_simps)
qed

lemma linked_update:
  assumes "linked h xs" "k < length xs" "i \<notin> set xs" "live h i"
  shows "linked (replaced a xs k i h) (xs[k := i])"
proof (rule linkedI)
  let ?ys = "xs[k := i]"
  have "distinct xs" using assms by (simp add: linked_def)
  then show "distinct ?ys" using assms(3) by (simp add: distinct_list_update)
  fix j assume j: "j < length ?ys"
  have last: "last ?ys = (if Suc k = length xs then i else last xs)"
    using assms(2) by (cases "xs = []") (auto simp: last_conv_nth nth_list_update)
  have s: "succ_of ?ys j = (if Suc j = k then Some i else succ_of xs j)"
    using j assms(2) by (auto simp: succ_of_def nth_list_update)
  have p: "pred_of ?ys j = (if j = Suc k \<or> j = 0 \<and> Suc k = length xs then i else pred_of xs j)"
    using j last by (auto simp: pred_of_def nth_list_update)
  show "links (replaced a xs k i h) (?ys ! j) = Some (succ_of ?ys j, Some (pred_of ?ys j))"
  proof (cases "j = k")
    case True
    then show ?thesis
      using links_replaced_new [OF assms(2-4)] assms(2) s p by (auto simp: succ_of_def)
  next
    case False
    then show ?thesis
      using links_replaced [OF assms(1-3), of j] j s p by simp
  qed
qed

lemma links_erase: "links (erase S h) x = (if x \<in> S then None else links h x)"
  and kid_erase: "kid (erase S h) x = (if x \<in> S then None else kid h x)"
  and core_erase: "core (erase S h) x = (if x \<in> S then None else core h x)"
  and live_erase: "live (erase S h) x \<longleftrightarrow> x \<notin> S \<and> live h x"
  by (simp_all add: links_def kid_def core_def live_def nodes_erase)

lemma children_erase:
  assumes "children h a xs" "a \<notin> S" "set xs \<inter> S = {}"
  shows "children (erase S h) a xs"
proof -
  have "links (erase S h) x = links h x" if "x \<in> set xs" for x using that assms(3) by (auto simp: links_erase)
  then show ?thesis using assms linked_cong [of h xs "erase S h"] by (simp add: children_def kid_erase)
qed

lemma relinked_replaced:
  assumes "k < length xs"
  shows "only_relinked h (replaced a xs k i h) a (insert i (set xs))"
  using assms hd_in_set [of xs] by (cases "xs = []") (auto simp: replaced_def Let_def relinked_simps)

lemma children_replaced:
  assumes "children h a xs" "k < length xs" "live h i" "i \<notin> set xs" "i \<noteq> a"
  shows "children (replaced a xs k i h) a (xs[k := i])"
proof -
  have "linked h xs" and n: "a \<notin> set xs" using assms(1) by (auto simp: children_def)
  then have "linked (replaced a xs k i h) (xs[k := i])" using linked_update assms by blast
  moreover have "kid (replaced a xs k i h) a = Some (first_of (xs[k := i]))"
    using children_nth(5) [OF assms(1,2)] assms(2)
    by (cases xs; cases k) (auto simp: replaced_def Let_def modify_simps first_of_def)
  moreover have "a \<notin> set (xs[k := i])" using n assms(5) set_update_subset_insert [of xs k i] by auto
  ultimately show ?thesis by (simp add: children_def)
qed

lemma live_core: "live h x \<longleftrightarrow> core h x \<noteq> None"
  by (simp add: live_def core_def)

lemma links_reset: "live h x \<Longrightarrow> links (modify x (\<lambda>n. n\<lparr>jn_next := v, jn_prev := w\<rparr>) h) x = Some (v, w)"
  by (auto simp: links_def nodes_modify live_def)

lemma replace_erases:
  assumes "children h a xs" "k < length xs" "live h i" "i \<notin> set xs" "i \<noteq> a"
    and o: "owns h (xs ! k) C" "C \<inter> insert a (insert i (set xs)) = {}"
  shows "cJSON_ReplaceItemInArray (Some a) (int k) (Some i) h =
    Inr (True, erase (insert (xs ! k) C) (replaced a xs k i h))"
proof -
  let ?h = "replaced a xs k i h"
  have f: "only_relinked h ?h a (insert i (set xs))" by (rule relinked_replaced [OF assms(2)])
  have "jh_nodes ?h y = jh_nodes h y" if "y \<in> C" for y
    using f that o(2) by (intro nodes_eqI) (auto simp: only_relinked_def)
  moreover have "core ?h (xs ! k) = core h (xs ! k)" "kid ?h (xs ! k) = kid h (xs ! k)"
    using f children_nth(4) [OF assms(1,2)] by (auto simp: only_relinked_def)
  ultimately have "owns ?h (xs ! k) C" using owns_cong [OF o(1)] by blast
  moreover have "links ?h (xs ! k) = Some (None, None)"
    using children_nth(3) [OF assms(1,2)] by (cases "k = 0") (simp_all add: replaced_def Let_def links_reset)
  ultimately have "owned ?h (Some (xs ! k)) (insert (xs ! k) C)" by (rule owns_owned)
  then show ?thesis
    using replace_runs [OF assms(1-5)] get_array_item_nth [OF assms(1), of k] assms(2)
    by (simp add: cJSON_ReplaceItemInArray_def delete_item_erases)
qed

lemma replace_ok:
  assumes "children h a xs" "k < length xs" "live h i" "i \<notin> set xs" "i \<noteq> a"
    and "owns h (xs ! k) C" "C \<inter> insert a (insert i (set xs)) = {}"
  shows "\<exists>h'. cJSON_ReplaceItemInArray (Some a) (int k) (Some i) h = Inr (True, h') \<and>
    children h' a (xs[k := i]) \<and> (\<forall>x. live h' x \<longleftrightarrow> live h x \<and> x \<notin> insert (xs ! k) C) \<and>
    (\<forall>x. live h' x \<longrightarrow> core h' x = core h x)"
proof (intro exI conjI)
  let ?h = "erase (insert (xs ! k) C) (replaced a xs k i h)"
  show "cJSON_ReplaceItemInArray (Some a) (int k) (Some i) h = Inr (True, ?h)" by (rule replace_erases [OF assms])
  have d: "distinct xs" using assms(1) by (simp add: children_def linked_def)
  have "set (xs[k := i]) \<inter> insert (xs ! k) C = {}"
    using assms(2,4,7) d by (auto simp: set_update_distinct)
  moreover have "a \<notin> insert (xs ! k) C" using children_nth(4) [OF assms(1,2)] assms(7) by auto
  ultimately show "children ?h a (xs[k := i])" using children_replaced [OF assms(1-5)] children_erase by blast
  have c: "core (replaced a xs k i h) x = core h x" for x
    using relinked_replaced [OF assms(2)] by (auto simp: only_relinked_def)
  then have "live (replaced a xs k i h) x = live h x" for x
    by (simp add: live_core c)
  then show "\<forall>x. live ?h x \<longleftrightarrow> live h x \<and> x \<notin> insert (xs ! k) C" by (auto simp: live_erase)
  show "\<forall>x. live ?h x \<longrightarrow> core ?h x = core h x" using c by (auto simp: core_erase live_erase)
qed

section \<open>Names\<close>

definition name_of :: "jheap \<Rightarrow> nat \<Rightarrow> u8 list option" where
  "name_of h x = Option.bind (jh_nodes h x) jn_string"

lemma name_of_core: "name_of h x = Option.bind (core h x) jn_string"
  by (cases "jh_nodes h x") (simp_all add: name_of_def core_def)

definition stops :: "u8 list \<Rightarrow> bool \<Rightarrow> u8 list option \<Rightarrow> bool" where
  "stops name case_sensitive s =
     (if case_sensitive then s = None \<or> cview name = cview (the s) else case_insensitive_strcmp (Some name) s = 0)"

lemma find_named_chain:
  "linked h (ys @ xs) \<Longrightarrow>
    find_named name cs (first_of xs) h =
      Some (Inr (case find (\<lambda>x. stops name cs (name_of h x)) xs of
                   None \<Rightarrow> None | Some x \<Rightarrow> if name_of h x = None then None else Some x))"
proof (induction xs arbitrary: ys)
  case Nil
  then show ?case by (simp add: first_of_def find_named.simps [of _ _ None])
next
  case (Cons x xs)
  have l: "links h x = Some (succ_of (ys @ x # xs) (length ys), Some (pred_of (ys @ x # xs) (length ys)))"
    using linked_links [OF Cons.prems, of "length ys"] by simp
  then obtain n where n: "jh_nodes h x = Some n" by (auto simp: links_def)
  have "succ_of (ys @ x # xs) (length ys) = first_of xs"
    by (auto simp: succ_of_def first_of_def nth_append hd_conv_nth)
  then have "jn_next n = first_of xs" using l n by (simp add: links_def)
  moreover have "find_named name cs (first_of xs) h =
      Some (Inr (case find (\<lambda>x. stops name cs (name_of h x)) xs of
                   None \<Rightarrow> None | Some x \<Rightarrow> if name_of h x = None then None else Some x))"
    using Cons.IH [of "ys @ [x]"] Cons.prems by simp
  ultimately show ?case
    using n by (auto simp: first_of_def find_named.simps [of _ _ "Some x"] stops_def name_of_def)
qed

lemma get_object_item_found:
  assumes "children h a xs"
  shows "get_object_item_h (Some a) (Some name) cs h =
    Inr (case find (\<lambda>x. stops name cs (name_of h x)) xs of
           None \<Rightarrow> None | Some x \<Rightarrow> if name_of h x = None then None else Some x)"
  using assms find_named_chain [of h "[]" xs name cs]
  by (auto simp: get_object_item_h_def children_def node_at_live kid_live the_kid)

lemma find_last: "\<forall>x\<in>set xs. \<not> P x \<Longrightarrow> P i \<Longrightarrow> find P (xs @ [i]) = Some i"
  by (induction xs) auto

lemma strcmp_tolower_refl [simp]: "strcmp_tolower s s = 0"
  by (induction s) auto

lemma cview_cview [simp]: "cview (cview s) = cview s"
  by (simp add: cview_def takeWhile_idem)

lemma stops_copy [simp]: "stops name cs (Some (cview name))"
  by (simp add: stops_def case_insensitive_strcmp_def)

lemma add_then_get_ok:
  assumes "children h a xs" "links h i = Some (None, p)" "i \<notin> set xs" "i \<noteq> a"
    and "\<forall>x\<in>set xs. \<not> stops name cs (name_of h x)"
  shows "\<exists>h'. cJSON_AddItemToObject (Some a) (Some name) (Some i) h = Inr (True, h') \<and>
    children h' a (xs @ [i]) \<and> get_object_item_h (Some a) (Some name) cs h' = Inr (Some i)"
proof -
  define t where "t = jn_type (the (jh_nodes h i)) AND NOT cJSON_StringIsConst"
  let ?h = "modify i (\<lambda>n. n\<lparr>jn_string := Some (cview name), jn_type := t\<rparr>) h"
  have lv: "live h i" using assms(2) by (rule links_live)
  have e: "cJSON_AddItemToObject (Some a) (Some name) (Some i) h = add_item_to_array (Some a) (Some i) ?h"
    using assms(4) lv
    by (simp add: cJSON_AddItemToObject_def add_item_to_object_def node_at_live store_at_live cJSON_strdup_def t_def)
  have k: "links ?h x = links h x" "kid ?h x = kid h x" for x
    by (auto simp: links_def kid_def nodes_modify option.map_comp o_def)
  have "children ?h a xs" using assms(1) k by (simp add: children_def linked_def)
  then obtain h' where h': "add_item_to_array (Some a) (Some i) ?h = Inr (True, h')" "children h' a (xs @ [i])"
      "only_relinked ?h h' a (insert i (set xs))"
    using append_ok [of ?h a xs i p] assms k by auto
  have "core h' x = core ?h x" for x
    using h'(3) by (simp add: only_relinked_def)
  then have nm: "name_of h' x = name_of ?h x" for x
    by (simp add: name_of_core)
  have ni: "name_of ?h i = Some (cview name)" using lv by (auto simp: name_of_def nodes_modify live_def)
  have "name_of ?h x = name_of h x" if "x \<in> set xs" for x
    using that assms(3) by (auto simp: name_of_def nodes_modify)
  then have "find (\<lambda>x. stops name cs (name_of h' x)) (xs @ [i]) = Some i"
    using assms(5) nm ni by (intro find_last) auto
  then show ?thesis using e h' get_object_item_found [OF h'(2), of name cs] nm ni by simp
qed

section \<open>Properties\<close>

text \<open>The heap of the examples: an array at 0 with the items 1 and 2, an array at 3 with the item 4, a loose item 5.\<close>

definition demo_heap :: jheap where
  "demo_heap =
     \<lparr>jh_nodes = [
        0 \<mapsto> zero_node\<lparr>jn_type := cJSON_Array, jn_child := Some 1\<rparr>,
        1 \<mapsto> zero_node\<lparr>jn_type := cJSON_True, jn_next := Some 2, jn_prev := Some 2\<rparr>,
        2 \<mapsto> zero_node\<lparr>jn_type := cJSON_Array, jn_child := Some 6, jn_prev := Some 1\<rparr>,
        3 \<mapsto> zero_node\<lparr>jn_type := cJSON_Object, jn_child := Some 4\<rparr>,
        4 \<mapsto> zero_node\<lparr>jn_type := cJSON_NULL, jn_prev := Some 4, jn_string := Some [97]\<rparr>,
        5 \<mapsto> zero_node\<lparr>jn_type := cJSON_False\<rparr>,
        6 \<mapsto> zero_node\<lparr>jn_type := cJSON_NULL, jn_prev := Some 6\<rparr>],
      jh_next = 7\<rparr>"

lemma demo_children:
  "children demo_heap 0 [1, 2]" "children demo_heap 3 [4]" "loose demo_heap 5" "links demo_heap 5 = Some (None, None)"
  by (auto simp: children_def linked_def loose_def links_def kid_def first_of_def succ_of_def pred_of_def demo_heap_def
      zero_node_def less_Suc_eq numeral_2_eq_2)

lemma demo_owns: "owns demo_heap 2 {6}"
proof -
  have "owned demo_heap (Some 6) (insert 6 ({} \<union> {}))"
    by (rule owned_tree [of _ 6 "zero_node\<lparr>jn_type := cJSON_NULL, jn_prev := Some 6\<rparr>"])
      (auto simp: demo_heap_def zero_node_def cJSON_types cJSON_IsReference_def owned_null)
  then show ?thesis by (simp add: owns_def demo_heap_def zero_node_def cJSON_types cJSON_IsReference_def)
qed

lemma demo_owned: "owned demo_heap (Some 3) {3, 4}"
proof -
  have "owned demo_heap (Some 4) (insert 4 ({} \<union> {}))"
    by (rule owned_tree [of _ 4 "zero_node\<lparr>jn_type := cJSON_NULL, jn_prev := Some 4, jn_string := Some [97]\<rparr>"])
      (auto simp: demo_heap_def zero_node_def cJSON_types cJSON_IsReference_def owned_null)
  then have "owned demo_heap (Some 3) (insert 3 ({4} \<union> {}))"
    by (intro owned_tree [of _ 3 "zero_node\<lparr>jn_type := cJSON_Object, jn_child := Some 4\<rparr>"])
      (auto simp: demo_heap_def zero_node_def cJSON_types cJSON_IsReference_def owned_null)
  then show ?thesis by simp
qed

text \<open>
  C32: Appending implements appending to the list of children: where the children of an array are \<open>xs\<close> and the item
  is in no chain, \<open>cJSON_AddItemToArray\<close> returns true and the children are \<open>xs\<close> followed by the item, the circular
  \<open>prev\<close> pointers included. No item changes its value, and no other chain changes.
\<close>

theorem cjson_append_refines:
  assumes "children h a xs" "loose h i" "i \<notin> set xs" "i \<noteq> a"
  shows "\<exists>h'. cJSON_AddItemToArray (Some a) (Some i) h = Inr (True, h') \<and> children h' a (xs @ [i]) \<and>
    only_relinked h h' a (insert i (set xs))"
  using append_ok [OF assms(1) _ assms(3,4)] assms(2) unfolding cJSON_AddItemToArray_def loose_def by blast

theorem cjson_append_refines_witness:
  "\<exists>h'. cJSON_AddItemToArray (Some 0) (Some 5) demo_heap = Inr (True, h') \<and> children h' 0 [1, 2, 5]"
  using cjson_append_refines [OF demo_children(1,3)] by auto

text \<open>
  C33: Detaching the item at an index of one array and inserting it at an index of another moves it: the first array
  loses exactly that item, the second has it at the index, or at its end if the index lies behind it.
\<close>

theorem cjson_move_item:
  assumes "children h a xs" "children h b ys" "a \<noteq> b" "k < length xs" "set xs \<inter> set ys = {}" "b \<notin> set xs"
  shows "\<exists>h1 h2. cJSON_DetachItemFromArray (Some a) (int k) h = Inr (Some (xs ! k), h1) \<and>
    cJSON_InsertItemInArray (Some b) (int j) (Some (xs ! k)) h1 = Inr (True, h2) \<and>
    children h2 a (take k xs @ drop (Suc k) xs) \<and> children h2 b (take j ys @ (xs ! k) # drop j ys)"
  by (rule jlist.move_item [OF assms])

theorem cjson_move_item_witness:
  "\<exists>h1 h2. cJSON_DetachItemFromArray (Some 0) 0 demo_heap = Inr (Some 1, h1) \<and>
    cJSON_InsertItemInArray (Some 3) 0 (Some 1) h1 = Inr (True, h2) \<and> children h2 0 [2] \<and> children h2 3 [1, 4]"
  using cjson_move_item [OF demo_children(1,2), of 0 0] by simp

text \<open>
  C34: Replacing the child at an index puts the new item in its place, frees the old item and everything below it
  that it owns, and nothing else: every other item stays allocated with its value.
\<close>

theorem cjson_replace_refines:
  assumes "children h a xs" "k < length xs" "live h i" "i \<notin> set xs" "i \<noteq> a"
    and "owns h (xs ! k) C" "C \<inter> insert a (insert i (set xs)) = {}"
  shows "\<exists>h'. cJSON_ReplaceItemInArray (Some a) (int k) (Some i) h = Inr (True, h') \<and>
    children h' a (xs[k := i]) \<and> (\<forall>x. live h' x \<longleftrightarrow> live h x \<and> x \<notin> insert (xs ! k) C) \<and>
    (\<forall>x. live h' x \<longrightarrow> core h' x = core h x)"
  by (rule replace_ok [OF assms])

theorem cjson_replace_refines_witness:
  "\<exists>h'. cJSON_ReplaceItemInArray (Some 0) 1 (Some 5) demo_heap = Inr (True, h') \<and> children h' 0 [1, 5] \<and>
    \<not> live h' 2 \<and> \<not> live h' 6"
  using cjson_replace_refines [OF demo_children(1), of 1 5 "{6}"] links_live [OF demo_children(4)] demo_owns by auto

text \<open>
  C35: Deleting a tree returns, frees every item of it exactly once and frees nothing else, where the items can be
  reached from the root in only one way.
\<close>

theorem cjson_delete_frees:
  assumes "owned h p S"
  shows "\<exists>h'. cJSON_Delete p h = Some (Inr h') \<and> (\<forall>x. jh_nodes h' x = (if x \<in> S then None else jh_nodes h x))"
  using delete_erases [OF assms, of h] by (auto simp: nodes_erase)

theorem cjson_delete_frees_witness:
  "\<exists>h'. cJSON_Delete (Some 3) demo_heap = Some (Inr h') \<and> jh_nodes h' 3 = None \<and> jh_nodes h' 4 = None \<and>
    jh_nodes h' 5 = jh_nodes demo_heap 5"
  using cjson_delete_frees [OF demo_owned] by auto

text \<open>
  C36: An item added to an object under a name is what a lookup of that name returns, with either comparison, where
  the lookup stops at none of the members that were there before.
\<close>

theorem cjson_add_then_get:
  assumes "children h a xs" "loose h i" "i \<notin> set xs" "i \<noteq> a"
    and "\<forall>x\<in>set xs. \<not> stops name case_sensitive (name_of h x)"
  shows "\<exists>h'. cJSON_AddItemToObject (Some a) (Some name) (Some i) h = Inr (True, h') \<and>
    children h' a (xs @ [i]) \<and> get_object_item_h (Some a) (Some name) case_sensitive h' = Inr (Some i)"
  using add_then_get_ok [OF assms(1) _ assms(3-5)] assms(2) unfolding loose_def by blast

theorem cjson_add_then_get_witness:
  "\<exists>h'. cJSON_AddItemToObject (Some 3) (Some [66]) (Some 5) demo_heap = Inr (True, h') \<and>
    get_object_item_h (Some 3) (Some [66]) False h' = Inr (Some 5)"
proof -
  have "\<not> stops [66] False (name_of demo_heap 4)"
    by (simp add: stops_def name_of_def demo_heap_def case_insensitive_strcmp_def cview_def tolower_def)
  then show ?thesis using cjson_add_then_get [OF demo_children(2,3), of "[66]" False] by auto
qed

section \<open>What the interface does not check\<close>

text \<open>A null item is refused by every other function; inserting it before an existing item dereferences it.\<close>

lemma insert_null_crashes:
  assumes "children h a xs" "k < length xs"
  shows "cJSON_InsertItemInArray (Some a) (int k) None h = Inl NullDeref"
  using children_nth(3) [OF assms] get_array_item_nth [OF assms(1), of k] assms(2)
  by (cases "jh_nodes h (xs ! k)") (simp_all add: cJSON_InsertItemInArray_def live_def store_at_def node_at_def)

text \<open>
  Appending does not clear \<open>next\<close> of an item that goes behind others: an item taken from a chain without being
  detached brings its old successor along.
\<close>

lemma append_keeps_next:
  assumes "children h a xs" "xs \<noteq> []" "links h i = Some (n, p)" "i \<notin> set xs" "i \<noteq> a"
    "add_item_to_array (Some a) (Some i) h = Inr (True, h')"
  shows "links h' i = Some (n, Some (last xs))"
proof -
  have "hd xs \<noteq> i" "last xs \<noteq> i" using assms(2,4) by auto
  then show ?thesis
    using add_last [OF assms(1,2) links_live [OF assms(3)] assms(5)] assms(3,6) by (auto simp: modify_simps)
qed

end
