(* ===== verification/CJsonPrint.thy ===== *)
theory CJsonPrint
  imports CJsonProps
begin

text \<open>
  The printing half of \<open>src/common/cJSON.cc\<close>: the growing buffer, numbers with \<open>sprintf\<close>'s \<open>%g\<close>, escaped strings, arrays and
  objects, and the four functions that print an item. Stores into the buffer are checked and end in \<open>OutOfBounds\<close>.
  The reference is \<open>render\<close>, the text of an item as a function of the item.
\<close>

section \<open>Hooks\<close>

text \<open>A function pointer of the hooks is that of the C library or one of the user's; \<open>reallocate\<close> is \<open>realloc\<close> or null.\<close>

datatype 'f hook_fn = LibC | UserFn 'f

record 'f internal_hooks =
  hk_allocate :: "'f hook_fn"
  hk_deallocate :: "'f hook_fn"
  hk_reallocate :: bool

definition cJSON_InitHooks :: "('f hook_fn option \<times> 'f hook_fn option) option \<Rightarrow> 'f internal_hooks" where
  "cJSON_InitHooks hooks =
     (case hooks of
        None \<Rightarrow> \<lparr>hk_allocate = LibC, hk_deallocate = LibC, hk_reallocate = True\<rparr>
      | Some (malloc_fn, free_fn) \<Rightarrow>
          let allocate = (case malloc_fn of None \<Rightarrow> LibC | Some f \<Rightarrow> f);
              deallocate = (case free_fn of None \<Rightarrow> LibC | Some f \<Rightarrow> f)
          in \<lparr>hk_allocate = allocate, hk_deallocate = deallocate,
              hk_reallocate = (allocate = LibC \<and> deallocate = LibC)\<rparr>)"

section \<open>The print buffer\<close>

text \<open>
  \<open>buffer\<close> and \<open>length\<close> are one list. \<open>pr_realloc\<close> says whether the hooks have a \<open>reallocate\<close>. \<open>U size\<close> is
  what a new block of a size holds before anything is stored there.
\<close>

record printbuffer =
  pr_buffer :: "u8 list"
  pr_offset :: nat
  pr_depth :: nat
  pr_noalloc :: bool
  pr_format :: bool
  pr_realloc :: bool

type_synonym printed = "crash + bool \<times> printbuffer"

text \<open>A call that may return false or a null pointer, on which the caller returns false.\<close>

definition andIf :: "printed \<Rightarrow> (printbuffer \<Rightarrow> printed) \<Rightarrow> printed" where
  "andIf m f = andThen m (\<lambda>x. if fst x then f (snd x) else Inr (False, snd x))"

lemma andIf_cong [fundef_cong]:
  "m = m' \<Longrightarrow> (\<And>p. m' = Inr (True, p) \<Longrightarrow> f p = g p) \<Longrightarrow> andIf m f = andIf m' g"
  by (auto simp: andIf_def intro!: andThen_cong)

definition ensure :: "(nat \<Rightarrow> nat \<Rightarrow> u8) \<Rightarrow> nat \<Rightarrow> printbuffer \<Rightarrow> printed" where
  "ensure U needed p =
     (let len = length (pr_buffer p)
      in if 0 < len \<and> len \<le> pr_offset p then Inr (False, p)
         else if nat INT_MAX < needed then Inr (False, p)
         else
           let needed = needed + pr_offset p + 1
           in if needed \<le> len then Inr (True, p)
              else if pr_noalloc p then Inr (False, p)
              else if nat INT_MAX div 2 < needed \<and> nat INT_MAX < needed then Inr (False, p)
              else
                let newsize = (if nat INT_MAX div 2 < needed then nat INT_MAX else needed * 2)
                in if pr_realloc p
                   then Inr (True, p\<lparr>pr_buffer := pr_buffer p @ map (U newsize) [len..<newsize]\<rparr>)
                   else if len < pr_offset p + 1 then Inl OutOfBounds
                   else Inr (True, p\<lparr>pr_buffer := take (pr_offset p + 1) (pr_buffer p) @ map (U newsize) [pr_offset p + 1..<newsize]\<rparr>))"

text \<open>Stores at an index of the buffer.\<close>

definition poke :: "nat \<Rightarrow> u8 list \<Rightarrow> printbuffer \<Rightarrow> crash + printbuffer" where
  "poke i bs p =
     (if i + length bs \<le> length (pr_buffer p)
      then Inr (p\<lparr>pr_buffer := take i (pr_buffer p) @ bs @ drop (i + length bs) (pr_buffer p)\<rparr>)
      else Inl OutOfBounds)"

definition add_offset :: "nat \<Rightarrow> printbuffer \<Rightarrow> printbuffer" where
  "add_offset n p = p\<lparr>pr_offset := pr_offset p + n\<rparr>"

definition update_offset :: "printbuffer \<Rightarrow> crash + printbuffer" where
  "update_offset p =
     (case cstr_of (drop (pr_offset p) (pr_buffer p)) of
        None \<Rightarrow> Inl OutOfBounds
      | Some s \<Rightarrow> Inr (add_offset (length s) p))"

text \<open>Reserve and store at the offset; the offset stays or moves by \<open>n\<close>.\<close>

definition put_at_offset :: "(nat \<Rightarrow> nat \<Rightarrow> u8) \<Rightarrow> nat \<Rightarrow> u8 list \<Rightarrow> nat \<Rightarrow> printbuffer \<Rightarrow> printed" where
  "put_at_offset U needed bs n p =
     andIf (ensure U needed p) (\<lambda>p. andThen (poke (pr_offset p) bs p) (\<lambda>p. Inr (True, add_offset n p)))"

section \<open>Numbers\<close>

definition dbl_le :: "dbl \<Rightarrow> dbl \<Rightarrow> bool" where
  "dbl_le a b = (case (a, b) of (Fin x, Fin y) \<Rightarrow> x \<le> y | (Infinity s, _) \<Rightarrow> s \<or> b = Infinity False | (_, Infinity s) \<Rightarrow> \<not> s)"

text \<open>
  The difference of infinities of the same sign is not a number, which compares with nothing; otherwise an infinite
  operand makes both sides infinite.
\<close>

definition compare_double :: "dbl \<Rightarrow> dbl \<Rightarrow> bool" where
  "compare_double a b =
     (case (a, b) of
        (Fin x, Fin y) \<Rightarrow> dbl_le (binary64 False \<bar>x - y\<bar>) (binary64 False (max \<bar>x\<bar> \<bar>y\<bar> * pow2 (- 52)))
      | (Infinity s, Infinity t) \<Rightarrow> s \<noteq> t
      | _ \<Rightarrow> True)"

definition decimal_exponent :: "rat \<Rightarrow> int" where
  "decimal_exponent x =
     (case quotient_of x of
        (n, d) \<Rightarrow>
          let e = int (length (decimal_nat (nat n))) - int (length (decimal_nat (nat d)))
          in if pow10 e \<le> x then e else e - 1)"

definition strip_zeros :: "u8 list \<Rightarrow> u8 list" where
  "strip_zeros ds = rev (dropWhile (\<lambda>c. c = 48) (rev ds))"

definition with_fraction :: "u8 list \<Rightarrow> u8 list \<Rightarrow> u8 list" where
  "with_fraction ds fs = (if strip_zeros fs = [] then ds else ds @ 46 # strip_zeros fs)"

text \<open>The digits and the decimal exponent of a positive number, rounded to \<open>prec\<close> digits.\<close>

definition significant :: "nat \<Rightarrow> rat \<Rightarrow> nat \<times> int" where
  "significant prec x =
     (let e = decimal_exponent x; m = nat (round_half_even (x / pow10 (e - int prec + 1)))
      in if m = 10 ^ prec then (10 ^ (prec - 1), e + 1) else (m, e))"

text \<open>\<open>sprintf\<close> with \<open>%1.<prec>g\<close>.\<close>

definition printf_g :: "nat \<Rightarrow> rat \<Rightarrow> u8 list" where
  "printf_g prec x =
     (if x = 0 then [48]
      else
        case significant prec \<bar>x\<bar> of
          (m, e) \<Rightarrow>
            let ds = decimal_nat m
            in (if x < 0 then [45] else []) @
               (if - 4 \<le> e \<and> e < int prec
                then
                  if 0 \<le> e then with_fraction (take (nat e + 1) ds) (drop (nat e + 1) ds)
                  else with_fraction [48] (replicate (nat (- e) - 1) 48 @ ds)
                else
                  with_fraction (take 1 ds) (drop 1 ds) @ 101 # (if e < 0 then 45 else 43) #
                    (if \<bar>e\<bar> < 10 then [48] else []) @ decimal_nat (nat \<bar>e\<bar>)))"

definition number_text :: "dbl \<Rightarrow> u8 list" where
  "number_text d =
     (case d of
        Infinity _ \<Rightarrow> json_null
      | Fin x \<Rightarrow>
          let number_buffer = printf_g 15 x
          in case strtod number_buffer of
               (test, used) \<Rightarrow> if used = 0 \<or> \<not> compare_double test d then printf_g 17 x else number_buffer)"

definition print_number :: "(nat \<Rightarrow> nat \<Rightarrow> u8) \<Rightarrow> cJSON \<Rightarrow> printbuffer \<Rightarrow> printed" where
  "print_number U item p =
     (let number_buffer = number_text (item_valuedouble item); len = length number_buffer
      in if 25 < len then Inr (False, p)
         else put_at_offset U (len + 1) (number_buffer @ [0]) len p)"

section \<open>Strings\<close>

definition escape_characters :: "u8 list \<Rightarrow> nat" where
  "escape_characters s =
     sum_list (map (\<lambda>c. if c \<in> {34, 92, 8, 12, 10, 13, 9} then 1 else if c < 32 then 5 else 0) s)"

definition hex_char :: "u8 \<Rightarrow> u8" where
  "hex_char d = (if d < 10 then 48 + d else 87 + d)"

text \<open>What follows the backslash, with the terminator that \<open>sprintf\<close> writes; the output pointer moves by the second number.\<close>

definition escape_of :: "u8 \<Rightarrow> u8 list \<times> nat" where
  "escape_of c =
     (if c = 92 then ([92], 1) else if c = 34 then ([34], 1) else if c = 8 then ([98], 1) else if c = 12 then ([102], 1)
      else if c = 10 then ([110], 1) else if c = 13 then ([114], 1) else if c = 9 then ([116], 1)
      else ([117, 48, 48, hex_char (c div 16), hex_char (c mod 16), 0], 5))"

fun copy_escaped :: "u8 list \<Rightarrow> nat \<Rightarrow> printbuffer \<Rightarrow> crash + printbuffer" where
  "copy_escaped [] i p = Inr p"
| "copy_escaped (c # s) i p =
     (if 31 < c \<and> c \<noteq> 34 \<and> c \<noteq> 92
      then andThen (poke i [c] p) (copy_escaped s (i + 1))
      else andThen (poke i (92 # fst (escape_of c)) p) (copy_escaped s (i + 1 + snd (escape_of c))))"

definition print_string_ptr :: "(nat \<Rightarrow> nat \<Rightarrow> u8) \<Rightarrow> u8 list option \<Rightarrow> printbuffer \<Rightarrow> printed" where
  "print_string_ptr U input p =
     (case input of
        None \<Rightarrow> put_at_offset U 3 [34, 34, 0] 0 p
      | Some input \<Rightarrow>
          let s = cview input; output_length = length s + escape_characters s
          in if escape_characters s = 0
             then put_at_offset U (output_length + 3) (34 # s @ [34, 0]) 0 p
             else
               andIf (ensure U (output_length + 3) p) (\<lambda>p.
                 andThen (poke (pr_offset p) [34] p) (\<lambda>p.
                 andThen (copy_escaped s (pr_offset p + 1) p) (\<lambda>p.
                 andThen (poke (pr_offset p + output_length + 1) [34, 0] p) (\<lambda>p.
                   Inr (True, p))))))"

definition print_string :: "(nat \<Rightarrow> nat \<Rightarrow> u8) \<Rightarrow> cJSON \<Rightarrow> printbuffer \<Rightarrow> printed" where
  "print_string U item p = print_string_ptr U (item_valuestring item) p"

section \<open>Values\<close>

definition enter :: "printbuffer \<Rightarrow> printbuffer" where
  "enter p = p\<lparr>pr_depth := pr_depth p + 1\<rparr>"

definition leave :: "printbuffer \<Rightarrow> printbuffer" where
  "leave p = p\<lparr>pr_depth := pr_depth p - 1\<rparr>"

fun print_value :: "(nat \<Rightarrow> nat \<Rightarrow> u8) \<Rightarrow> cJSON \<Rightarrow> printbuffer \<Rightarrow> printed"
  and print_elements :: "(nat \<Rightarrow> nat \<Rightarrow> u8) \<Rightarrow> cJSON list \<Rightarrow> printbuffer \<Rightarrow> printed"
  and print_members :: "(nat \<Rightarrow> nat \<Rightarrow> u8) \<Rightarrow> cJSON list \<Rightarrow> printbuffer \<Rightarrow> printed" where
  "print_value U (Item t ch vs vi vd s) p =
     (let t = t AND 0xFF
      in if t = cJSON_NULL then put_at_offset U 5 (json_null @ [0]) 0 p
         else if t = cJSON_False then put_at_offset U 6 (json_false @ [0]) 0 p
         else if t = cJSON_True then put_at_offset U 5 (json_true @ [0]) 0 p
         else if t = cJSON_Number then print_number U (Item t ch vs vi vd s) p
         else if t = cJSON_Raw
         then
           (case vs of
              None \<Rightarrow> Inr (False, p)
            | Some v \<Rightarrow> put_at_offset U (length (cview v) + 1) (cview v @ [0]) 0 p)
         else if t = cJSON_String then print_string U (Item t ch vs vi vd s) p
         else if t = cJSON_Array
         then
           andIf (put_at_offset U 1 [91] 1 p) (\<lambda>p.
           andIf (print_elements U ch (enter p)) (\<lambda>p.
           andIf (put_at_offset U 2 [93, 0] 0 p) (\<lambda>p. Inr (True, leave p))))
         else if t = cJSON_Object
         then
           andIf (put_at_offset U (if pr_format p then 3 else 2) (if pr_format p then [123, 10] else [123])
             (if pr_format p then 2 else 1) p) (\<lambda>p.
           andIf (print_members U ch (enter p)) (\<lambda>p.
           andIf (put_at_offset U (if pr_format p then pr_depth p + 1 else 2)
             ((if pr_format p then replicate (pr_depth p - 1) 9 else []) @ [125, 0]) 0 p) (\<lambda>p. Inr (True, leave p))))
         else Inr (False, p))"
| "print_elements U [] p = Inr (True, p)"
| "print_elements U (current # rest) p =
     andIf (print_value U current p) (\<lambda>p.
     andThen (update_offset p) (\<lambda>p.
       if rest = [] then Inr (True, p)
       else
         andIf (put_at_offset U (if pr_format p then 3 else 2) (if pr_format p then [44, 32, 0] else [44, 0])
           (if pr_format p then 2 else 1) p) (\<lambda>p. print_elements U rest p)))"
| "print_members U [] p = Inr (True, p)"
| "print_members U (current # rest) p =
     andIf (if pr_format p then put_at_offset U (pr_depth p) (replicate (pr_depth p) 9) (pr_depth p) p else Inr (True, p)) (\<lambda>p.
     andIf (print_string_ptr U (item_string current) p) (\<lambda>p.
     andThen (update_offset p) (\<lambda>p.
     andIf (put_at_offset U (if pr_format p then 2 else 1) (if pr_format p then [58, 9] else [58])
       (if pr_format p then 2 else 1) p) (\<lambda>p.
     andIf (print_value U current p) (\<lambda>p.
     andThen (update_offset p) (\<lambda>p.
       let sep = (if rest = [] then [] else [44]) @ (if pr_format p then [10] else [])
       in andIf (put_at_offset U (length sep + 1) (sep @ [0]) (length sep) p) (\<lambda>p. print_members U rest p)))))))"

text \<open>A block for the text: a buffer of 256 bytes that grows, and in the end one of the right size.\<close>

definition new_printbuffer :: "u8 list \<Rightarrow> bool \<Rightarrow> bool \<Rightarrow> bool \<Rightarrow> printbuffer" where
  "new_printbuffer buf noalloc fmt realloc =
     \<lparr>pr_buffer = buf, pr_offset = 0, pr_depth = 0, pr_noalloc = noalloc, pr_format = fmt, pr_realloc = realloc\<rparr>"

definition print_item :: "(nat \<Rightarrow> nat \<Rightarrow> u8) \<Rightarrow> bool \<Rightarrow> bool \<Rightarrow> cJSON option \<Rightarrow> crash + u8 list option" where
  "print_item U realloc fmt item =
     (case item of
        None \<Rightarrow> Inr None
      | Some item \<Rightarrow>
          andThen (print_value U item (new_printbuffer (map (U 256) [0..<256]) False fmt realloc)) (\<lambda>x.
            if \<not> fst x then Inr None
            else
              andThen (update_offset (snd x)) (\<lambda>p.
                if realloc
                then Inr (Some (take (pr_offset p + 1) (pr_buffer p) @
                       map (U (pr_offset p + 1)) [length (pr_buffer p)..<pr_offset p + 1]))
                else Inr (Some (take (pr_offset p) (take (min (length (pr_buffer p)) (pr_offset p + 1)) (pr_buffer p) @
                       map (U (pr_offset p + 1)) [length (pr_buffer p)..<pr_offset p + 1]) @ [0])))))"

definition cJSON_Print :: "(nat \<Rightarrow> nat \<Rightarrow> u8) \<Rightarrow> bool \<Rightarrow> cJSON option \<Rightarrow> crash + u8 list option" where
  "cJSON_Print U realloc item = print_item U realloc True item"

definition cJSON_PrintUnformatted :: "(nat \<Rightarrow> nat \<Rightarrow> u8) \<Rightarrow> bool \<Rightarrow> cJSON option \<Rightarrow> crash + u8 list option" where
  "cJSON_PrintUnformatted U realloc item = print_item U realloc False item"

definition cJSON_PrintBuffered ::
  "(nat \<Rightarrow> nat \<Rightarrow> u8) \<Rightarrow> bool \<Rightarrow> cJSON option \<Rightarrow> int \<Rightarrow> bool \<Rightarrow> crash + u8 list option" where
  "cJSON_PrintBuffered U realloc item prebuffer fmt =
     (if prebuffer < 0 then Inr None
      else
        case item of
          None \<Rightarrow> Inr None
        | Some item \<Rightarrow>
            andThen (print_value U item
                (new_printbuffer (map (U (nat prebuffer)) [0..<nat prebuffer]) False fmt realloc)) (\<lambda>x.
              Inr (if fst x then Some (pr_buffer (snd x)) else None)))"

text \<open>The caller's block must have the \<open>len\<close> bytes the caller says it has.\<close>

definition cJSON_PrintPreallocated ::
  "(nat \<Rightarrow> nat \<Rightarrow> u8) \<Rightarrow> bool \<Rightarrow> cJSON option \<Rightarrow> u8 list option \<Rightarrow> int \<Rightarrow> bool \<Rightarrow> crash + bool \<times> u8 list option" where
  "cJSON_PrintPreallocated U realloc item buffer len fmt =
     (case (item, buffer) of
        (_, None) \<Rightarrow> Inr (False, None)
      | (None, Some buf) \<Rightarrow> Inr (False, Some buf)
      | (Some item, Some buf) \<Rightarrow>
          if len < 0 then Inr (False, Some buf)
          else if length buf < nat len then Inl OutOfBounds
          else
            andThen (print_value U item (new_printbuffer (take (nat len) buf) True fmt realloc)) (\<lambda>x.
              Inr (fst x, Some (pr_buffer (snd x) @ drop (nat len) buf))))"

section \<open>The text of an item\<close>

definition escape_char :: "u8 \<Rightarrow> u8 list" where
  "escape_char c = (if 31 < c \<and> c \<noteq> 34 \<and> c \<noteq> 92 then [c] else 92 # take (snd (escape_of c)) (fst (escape_of c)))"

definition quoted :: "u8 list option \<Rightarrow> u8 list" where
  "quoted s = 34 # concat (map escape_char (case s of None \<Rightarrow> [] | Some s \<Rightarrow> cview s)) @ [34]"

fun render :: "bool \<Rightarrow> nat \<Rightarrow> cJSON \<Rightarrow> u8 list option"
  and render_elements :: "bool \<Rightarrow> nat \<Rightarrow> cJSON list \<Rightarrow> u8 list option"
  and render_members :: "bool \<Rightarrow> nat \<Rightarrow> cJSON list \<Rightarrow> u8 list option" where
  "render f d (Item t ch vs vi vd s) =
     (let t = t AND 0xFF
      in if t = cJSON_NULL then Some json_null
         else if t = cJSON_False then Some json_false
         else if t = cJSON_True then Some json_true
         else if t = cJSON_Number then (if 25 < length (number_text vd) then None else Some (number_text vd))
         else if t = cJSON_Raw then map_option cview vs
         else if t = cJSON_String then Some (quoted vs)
         else if t = cJSON_Array then map_option (\<lambda>x. [91] @ x @ [93]) (render_elements f (d + 1) ch)
         else if t = cJSON_Object
         then map_option (\<lambda>x. (if f then [123, 10] else [123]) @ x @ (if f then replicate d 9 else []) @ [125])
                (render_members f (d + 1) ch)
         else None)"
| "render_elements f d [] = Some []"
| "render_elements f d (x # xs) =
     (case render f d x of
        None \<Rightarrow> None
      | Some a \<Rightarrow> map_option (\<lambda>b. a @ (if xs = [] then [] else if f then [44, 32] else [44]) @ b) (render_elements f d xs))"
| "render_members f d [] = Some []"
| "render_members f d (x # xs) =
     (case render f d x of
        None \<Rightarrow> None
      | Some a \<Rightarrow>
          map_option (\<lambda>b. (if f then replicate d 9 else []) @ quoted (item_string x) @ (if f then [58, 9] else [58]) @ a @
            (if xs = [] then [] else [44]) @ (if f then [10] else []) @ b) (render_members f d xs))"

section \<open>Writing into the buffer\<close>

text \<open>The buffer has \<open>T\<close> before the offset and room behind it; the most it can ever hold is \<open>capacity\<close>.\<close>

definition capacity :: "printbuffer \<Rightarrow> nat" where
  "capacity p = (if pr_noalloc p then length (pr_buffer p) else nat INT_MAX)"

definition same_mode :: "printbuffer \<Rightarrow> printbuffer \<Rightarrow> bool" where
  "same_mode p p' \<longleftrightarrow> pr_noalloc p' = pr_noalloc p \<and> pr_format p' = pr_format p \<and> pr_realloc p' = pr_realloc p \<and>
     pr_depth p' = pr_depth p \<and> capacity p' = capacity p"

definition pr_at :: "printbuffer \<Rightarrow> u8 list \<Rightarrow> bool" where
  "pr_at p T \<longleftrightarrow> (\<exists>rest. pr_buffer p = T @ rest \<and> rest \<noteq> []) \<and> pr_offset p = length T \<and> length (pr_buffer p) \<le> nat INT_MAX"

definition holds :: "printbuffer \<Rightarrow> u8 list \<Rightarrow> u8 list \<Rightarrow> bool" where
  "holds p T tx \<longleftrightarrow> (\<exists>rest. pr_buffer p = T @ tx @ 0 # rest) \<and>
     (\<exists>k\<le>length tx. pr_offset p = length T + k) \<and> length (pr_buffer p) \<le> nat INT_MAX"

lemma same_mode_refl [simp]: "same_mode p p" by (simp add: same_mode_def)

lemma same_mode_trans: "same_mode p q \<Longrightarrow> same_mode q r \<Longrightarrow> same_mode p r" by (simp add: same_mode_def)

lemma ensure_ok:
  assumes "pr_at p T" "length T + needed + 1 \<le> capacity p"
  shows "\<exists>p'. ensure U needed p = Inr (True, p') \<and> pr_at p' T \<and> same_mode p p' \<and> length T + needed + 1 \<le> length (pr_buffer p')"
proof -
  obtain rest where b: "pr_buffer p = T @ rest" "rest \<noteq> []" "pr_offset p = length T" "length (pr_buffer p) \<le> nat INT_MAX"
    using assms(1) by (auto simp: pr_at_def)
  have cap: "length T + needed + 1 \<le> nat INT_MAX" using assms(2) b(4) by (auto simp: capacity_def split: if_splits)
  define n where "n = length T + needed + 1"
  show ?thesis
  proof (cases "n \<le> length (pr_buffer p)")
    case True
    then show ?thesis using b cap assms by (intro exI [of _ p]) (auto simp: ensure_def Let_def n_def)
  next
    case False
    then have na: "\<not> pr_noalloc p" using assms(2) by (auto simp: capacity_def n_def)
    define newsize where "newsize = (if nat INT_MAX div 2 < n then nat INT_MAX else n * 2)"
    have ns: "n \<le> newsize" "newsize \<le> nat INT_MAX" using cap by (auto simp: newsize_def n_def)
    define q where "q = (if pr_realloc p then p\<lparr>pr_buffer := pr_buffer p @ map (U newsize) [length (pr_buffer p)..<newsize]\<rparr>
      else p\<lparr>pr_buffer := take (pr_offset p + 1) (pr_buffer p) @ map (U newsize) [pr_offset p + 1..<newsize]\<rparr>)"
    have "ensure U needed p = Inr (True, q)"
      using False na b(1,2,3) cap unfolding ensure_def Let_def q_def newsize_def n_def
      by (auto simp: add.commute add.left_commute)
    moreover have "length (pr_buffer q) = newsize" using ns False b n_def by (cases rest) (auto simp: q_def)
    moreover have "\<exists>rest. pr_buffer q = T @ rest \<and> rest \<noteq> []"
      using b by (cases rest) (auto simp: q_def)
    ultimately show ?thesis using b(3) ns na
      by (intro exI [of _ q]) (auto simp: pr_at_def same_mode_def capacity_def q_def n_def)
  qed
qed

lemma put_ok:
  assumes "pr_at p T" "length T + needed + 1 \<le> capacity p" "length bs \<le> needed + 1"
  shows "\<exists>p' rest. put_at_offset U needed bs n p = Inr (True, p') \<and> same_mode p p' \<and>
    pr_buffer p' = T @ bs @ rest \<and> length (T @ bs @ rest) \<ge> length T + needed + 1 \<and> pr_offset p' = length T + n \<and>
    length (pr_buffer p') \<le> nat INT_MAX"
proof -
  obtain q where q: "ensure U needed p = Inr (True, q)" "pr_at q T" "same_mode p q" "length T + needed + 1 \<le> length (pr_buffer q)"
    using ensure_ok [OF assms(1,2)] by blast
  obtain rest where b: "pr_buffer q = T @ rest" "pr_offset q = length T" "length (pr_buffer q) \<le> nat INT_MAX"
    using q(2) by (auto simp: pr_at_def)
  have l: "length bs \<le> length rest" using q(4) assms(3) b(1) by simp
  let ?p = "add_offset n (q\<lparr>pr_buffer := T @ bs @ drop (length bs) rest\<rparr>)"
  have "put_at_offset U needed bs n p = Inr (True, ?p)"
    using q(1) b l by (simp add: put_at_offset_def andIf_def poke_def)
  moreover have "same_mode p ?p" using q(3) l b(1) by (auto simp: same_mode_def capacity_def add_offset_def split: if_splits)
  ultimately show ?thesis using b l q(4) by (intro exI [of _ ?p] exI [of _ "drop (length bs) rest"]) (auto simp: add_offset_def)
qed

text \<open>The three ways the code uses it: text that moves the offset, text with a terminator that moves it, a whole value.\<close>

lemma put_text:
  assumes "pr_at p T" "length T + needed + 1 \<le> capacity p" "length bs \<le> needed"
  shows "\<exists>p'. put_at_offset U needed bs (length bs) p = Inr (True, p') \<and> same_mode p p' \<and> pr_at p' (T @ bs)"
  using put_ok [OF assms(1,2), of bs U "length bs"] assms(3) by (fastforce simp: pr_at_def)

lemma put_text_terminated:
  assumes "pr_at p T" "length T + length bs + 2 \<le> capacity p"
  shows "\<exists>p'. put_at_offset U (length bs + 1) (bs @ [0]) (length bs) p = Inr (True, p') \<and> same_mode p p' \<and> pr_at p' (T @ bs)"
  using put_ok [OF assms(1), of "length bs + 1" "bs @ [0]" U "length bs"] assms(2) by (fastforce simp: pr_at_def)

lemma put_value:
  assumes "pr_at p T" "length T + needed + 1 \<le> capacity p" "length tx \<le> needed" "n \<le> length tx"
  shows "\<exists>p'. put_at_offset U needed (tx @ [0]) n p = Inr (True, p') \<and> same_mode p p' \<and> holds p' T tx"
  using put_ok [OF assms(1,2), of "tx @ [0]" U n] assms(3,4) by (fastforce simp: holds_def)

lemma update_ok:
  assumes "holds p T tx" "0 \<notin> set tx"
  shows "\<exists>p'. update_offset p = Inr p' \<and> same_mode p p' \<and> pr_at p' (T @ tx)"
proof -
  obtain rest k where r: "pr_buffer p = T @ tx @ 0 # rest" "k \<le> length tx" "pr_offset p = length T + k" "length (pr_buffer p) \<le> nat INT_MAX"
    using assms(1) by (auto simp: holds_def)
  have "drop (pr_offset p) (pr_buffer p) = cstring (drop k tx) @ rest" using r(1-3) by (simp add: cstring_def)
  moreover have "is_cstr (drop k tx)" using assms(2) by (auto simp: is_cstr_def dest: in_set_dropD)
  ultimately have "cstr_of (drop (pr_offset p) (pr_buffer p)) = Some (drop k tx)" by simp
  then show ?thesis using r by (auto simp: update_offset_def pr_at_def same_mode_def capacity_def add_offset_def)
qed

section \<open>Strings are escaped in place\<close>

lemma control_char: "31 < (c :: u8) \<longleftrightarrow> \<not> c < 32"
  by (simp add: word_less_nat_alt) linarith

lemma length_escape_char:
  "length (escape_char c) = 1 + (if c \<in> {34, 92, 8, 12, 10, 13, 9} then 1 else if c < 32 then 5 else 0)"
  by (auto simp: escape_char_def escape_of_def control_char)

lemma escape_count: "length (concat (map escape_char s)) = length s + escape_characters s"
  by (induction s) (simp_all add: escape_characters_def length_escape_char)

text \<open>Only the terminator of \<open>sprintf\<close> goes beyond the text, by one byte.\<close>

lemma escape_write:
  assumes "\<not> (31 < c \<and> c \<noteq> 34 \<and> c \<noteq> 92)"
  obtains z where "92 # fst (escape_of c) = escape_char c @ z" "length z \<le> 1" "length (escape_char c) = 1 + snd (escape_of c)"
proof -
  let ?z = "drop (snd (escape_of c)) (fst (escape_of c))"
  have "92 # fst (escape_of c) = escape_char c @ ?z" using assms by (simp add: escape_char_def)
  moreover have "length ?z \<le> 1" "length (escape_char c) = 1 + snd (escape_of c)" using assms by (auto simp: escape_char_def escape_of_def)
  ultimately show ?thesis using that by blast
qed

lemma poke_prefix:
  assumes "pr_buffer p = A @ rest" "length (e @ z) \<le> length rest"
  shows "poke (length A) (e @ z) p = Inr (p\<lparr>pr_buffer := (A @ e) @ z @ drop (length (e @ z)) rest\<rparr>)"
  using assms by (simp add: poke_def)

lemma copy_escaped_ok:
  assumes "pr_buffer p = A @ rest" "length (concat (map escape_char s)) < length rest"
  shows "\<exists>rest'. copy_escaped s (length A) p = Inr (p\<lparr>pr_buffer := A @ concat (map escape_char s) @ rest'\<rparr>) \<and>
    length (concat (map escape_char s)) + length rest' = length rest"
  using assms
proof (induction s arbitrary: p A rest)
  case Nil
  then show ?case by (intro exI [of _ rest]) simp
next
  case (Cons c s)
  let ?e = "escape_char c"
  obtain z where z: "copy_escaped (c # s) (length A) p = andThen (poke (length A) (?e @ z) p) (copy_escaped s (length (A @ ?e)))" "length z \<le> 1"
  proof (cases "31 < c \<and> c \<noteq> 34 \<and> c \<noteq> 92")
    case True
    then have "?e = [c]" by (simp add: escape_char_def)
    then show ?thesis using that [of "[]"] True by simp
  next
    case False
    then obtain z where "92 # fst (escape_of c) = ?e @ z" "length z \<le> 1" "length ?e = 1 + snd (escape_of c)" by (rule escape_write)
    then show ?thesis using that [of z] False by (simp add: add.assoc del: One_nat_def)
  qed
  define q where "q = p\<lparr>pr_buffer := (A @ ?e) @ z @ drop (length (?e @ z)) rest\<rparr>"
  have l: "length (?e @ z) \<le> length rest" using Cons.prems(2) z(2) by simp
  have "poke (length A) (?e @ z) p = Inr q" unfolding q_def by (rule poke_prefix [OF Cons.prems(1) l])
  moreover have b: "pr_buffer q = (A @ ?e) @ z @ drop (length (?e @ z)) rest" by (simp add: q_def)
  have "length (concat (map escape_char s)) < length (z @ drop (length (?e @ z)) rest)" using Cons.prems(2) l by simp
  from Cons.IH [OF b this] obtain rest' where "copy_escaped s (length (A @ ?e)) q = Inr (q\<lparr>pr_buffer := (A @ ?e) @ concat (map escape_char s) @ rest'\<rparr>)"
    "length (concat (map escape_char s)) + length rest' = length (z @ drop (length (?e @ z)) rest)" by blast
  ultimately show ?case using z(1) l by (intro exI [of _ rest']) (simp add: q_def)
qed

lemma nothing_to_escape: "escape_characters s = 0 \<Longrightarrow> concat (map escape_char s) = s"
  by (induction s) (auto simp: escape_characters_def escape_char_def control_char split: if_splits)

lemma print_string_ptr_ok:
  assumes "pr_at p T" "length T + length (quoted s) + 2 \<le> capacity p"
  shows "\<exists>p'. print_string_ptr U s p = Inr (True, p') \<and> same_mode p p' \<and> holds p' T (quoted s)"
proof (cases s)
  case None
  then show ?thesis using put_value [OF assms(1), of 3 "[34, 34]" 0 U] assms(2) by (simp add: print_string_ptr_def quoted_def)
next
  case (Some v)
  define w where "w = cview v"
  define e where "e = concat (map escape_char w)"
  have q: "quoted s = 34 # e @ [34]" by (simp add: Some quoted_def e_def w_def)
  have len: "length w + escape_characters w = length e" by (simp add: e_def escape_count)
  have need: "length T + (length e + 3) + 1 \<le> capacity p" using assms(2) by (simp add: q)
  show ?thesis
  proof (cases "escape_characters w = 0")
    case True
    then have "e = w" by (simp add: e_def nothing_to_escape)
    then show ?thesis using put_value [OF assms(1) need, of "34 # e @ [34]" 0 U] True
      unfolding q by (simp add: print_string_ptr_def Some w_def [symmetric])
  next
    case False
    obtain p1 where p1: "ensure U (length e + 3) p = Inr (True, p1)" "pr_at p1 T" "same_mode p p1" "length T + (length e + 3) + 1 \<le> length (pr_buffer p1)"
      using ensure_ok [OF assms(1) need] by blast
    then obtain rest where r: "pr_buffer p1 = T @ rest" "pr_offset p1 = length T" "length e + 4 \<le> length rest" by (auto simp: pr_at_def)
    define p2 where "p2 = p1\<lparr>pr_buffer := (T @ [34]) @ [] @ drop (length ([34 :: u8] @ [])) rest\<rparr>"
    have "poke (length T) ([34] @ []) p1 = Inr p2" unfolding p2_def by (rule poke_prefix [OF r(1)]) (use r(3) in simp)
    moreover have b2: "pr_buffer p2 = (T @ [34]) @ drop 1 rest" by (simp add: p2_def)
    have "length (concat (map escape_char w)) < length (drop 1 rest)" using r(3) by (simp add: e_def [symmetric])
    from copy_escaped_ok [OF b2 this] obtain rest2 where c: "copy_escaped w (length (T @ [34])) p2 = Inr (p2\<lparr>pr_buffer := (T @ [34]) @ e @ rest2\<rparr>)"
      "length e + length rest2 = length (drop 1 rest)" unfolding e_def by blast
    define p3 where "p3 = p2\<lparr>pr_buffer := (T @ [34]) @ e @ rest2\<rparr>"
    define p4 where "p4 = p3\<lparr>pr_buffer := (((T @ [34]) @ e) @ [34, 0]) @ [] @ drop (length ([34 :: u8, 0] @ [])) rest2\<rparr>"
    have "poke (length ((T @ [34]) @ e)) ([34, 0] @ []) p3 = Inr p4" unfolding p4_def
      by (rule poke_prefix) (use c(2) r(3) in \<open>simp_all add: p3_def\<close>)
    ultimately have "print_string_ptr U s p = Inr (True, p4)"
      using p1(1) r(2) c(1) False len
      by (simp add: print_string_ptr_def Some w_def [symmetric] andIf_def p2_def p3_def Let_def add.commute add.left_commute)
    moreover have "length (pr_buffer p4) = length (pr_buffer p1)" using c(2) r by (simp add: p4_def)
    then have "same_mode p p4" using p1(3) by (auto simp: same_mode_def capacity_def p4_def p3_def p2_def split: if_splits)
    moreover have "holds p4 T (quoted s)" unfolding holds_def
      using \<open>length (pr_buffer p4) = length (pr_buffer p1)\<close> p1(2) r(2) by (auto simp: q p4_def p3_def p2_def pr_at_def)
    ultimately show ?thesis by blast
  qed
qed

section \<open>Values\<close>

lemma andIf_ok [simp]: "m = Inr (True, p) \<Longrightarrow> andIf m f = f p"
  by (simp add: andIf_def)

lemma decimal_nat_digits: "set (decimal_nat n) \<subseteq> {c. is_digit c}"
proof (induction n rule: decimal_nat.induct)
  case (1 n)
  have "is_digit (48 + of_nat k)" if "k < 10" for k
    using that by (auto simp: is_digit_def word_le_nat_alt unat_plus_if' unsigned_of_nat take_bit_nat_eq_self)
  from this [of n] this [of "n mod 10"] show ?case using 1 by (auto simp: decimal_nat.simps [of n])
qed

lemma set_strip_zeros: "set (strip_zeros ds) \<subseteq> set ds"
  unfolding strip_zeros_def by (auto dest: set_dropWhileD)

lemma with_fraction_chars: "set (with_fraction ds fs) \<subseteq> set ds \<union> {46} \<union> set fs"
  using set_strip_zeros [of fs] by (auto simp: with_fraction_def)

lemma printf_g_chars: "set (printf_g prec x) \<subseteq> {c. number_char c}"
proof -
  have d: "set (decimal_nat n) \<subseteq> {c. number_char c}" for n using decimal_nat_digits [of n] by (auto simp: number_char_def)
  have n: "number_char 48" "number_char 45" "number_char 43" "number_char 101" "number_char 46" by (simp_all add: number_char_def is_digit_def)
  have w: "set (with_fraction ds fs) \<subseteq> {c. number_char c}" if "set ds \<subseteq> {c. number_char c}" "set fs \<subseteq> {c. number_char c}" for ds fs
    using with_fraction_chars [of ds fs] that n(5) by auto
  have td: "set (take k (decimal_nat m)) \<subseteq> {c. number_char c}" "set (drop k (decimal_nat m)) \<subseteq> {c. number_char c}" for k m
    by (rule order_trans [OF set_take_subset d], rule order_trans [OF set_drop_subset d])
  obtain m e where me: "significant prec \<bar>x\<bar> = (m, e)" by fastforce
  have z: "set (with_fraction [48] (replicate k 48 @ decimal_nat m)) \<subseteq> {c. number_char c}" for k
    by (rule w) (use n(1) d [of m] in auto)
  note parts = w [OF td, of "nat e + 1" m "nat e + 1" m] w [OF td, of 1 m 1 m] z [of "nat (- e) - 1"] d [of "nat \<bar>e\<bar>"]
  show ?thesis
    unfolding printf_g_def me prod.case Let_def set_append set_simps
    using parts n by (simp split: if_split) auto
qed

lemma number_text_no_nul: "0 \<notin> set (number_text d)"
proof -
  have "\<not> number_char 0" by (simp add: number_char_def is_digit_def)
  then have "0 \<notin> set (printf_g prec x)" for prec x using printf_g_chars [of prec x] by auto
  then show ?thesis by (auto simp: number_text_def json_null_def Let_def split: dbl.splits prod.splits if_splits)
qed

lemma hex_char_digit:
  assumes "unat d < 16"
  shows "hex_char d \<noteq> 0 \<and> hex_digit (hex_char d) = Some (ucast d)"
proof -
  have "\<forall>d\<in>set (map of_nat [0..<16]). hex_char d \<noteq> 0 \<and> hex_digit (hex_char d) = Some (ucast d)" by code_simp
  moreover have "d \<in> set (map of_nat [0..<16])" using assms by (auto intro!: image_eqI [of _ _ "unat d"])
  ultimately show ?thesis by blast
qed

lemma nibbles: "unat (c div 16 :: u8) < 16" "unat (c mod 16 :: u8) < 16"
proof -
  have "unat c < 256" using unsigned_less [of c, where ?'a = nat] by simp
  then have "unat c div 16 < 16" "unat c mod 16 < 16" by (simp_all add: div_less_iff_less_mult)
  then show "unat (c div 16) < 16" "unat (c mod 16) < 16" by (simp_all add: unat_div unat_mod)
qed

lemma hex_char_no_nul: "hex_char (c div 16) \<noteq> 0" "hex_char (c mod 16) \<noteq> 0"
  using hex_char_digit nibbles by blast+

lemma escape_char_eq:
  "escape_char c =
     (if 31 < c \<and> c \<noteq> 34 \<and> c \<noteq> 92 then [c]
      else 92 # (if c = 92 then [92] else if c = 34 then [34] else if c = 8 then [98] else if c = 12 then [102]
        else if c = 10 then [110] else if c = 13 then [114] else if c = 9 then [116]
        else [117, 48, 48, hex_char (c div 16), hex_char (c mod 16)]))"
  unfolding escape_char_def escape_of_def
  by (cases "c = 92"; cases "c = 34"; cases "c = 8"; cases "c = 12"; cases "c = 10"; cases "c = 13"; cases "c = 9") simp_all

lemma escape_no_nul: "c \<noteq> 0 \<Longrightarrow> 0 \<notin> set (escape_char c)"
proof -
  assume c: "c \<noteq> 0"
  define a b where "a = hex_char (c div 16)" and "b = hex_char (c mod 16)"
  have "a \<noteq> 0" "b \<noteq> 0" using hex_char_no_nul [of c] by (simp_all add: a_def b_def)
  then show ?thesis unfolding escape_char_eq a_def [symmetric] b_def [symmetric] using c by simp
qed

lemma quoted_no_nul: "0 \<notin> set (quoted s)"
proof -
  have "0 \<notin> set (escape_char c)" if "c \<in> set (cview v)" for c v
    by (rule escape_no_nul) (use that in \<open>auto simp: cview_def dest: set_takeWhileD\<close>)
  then have "0 \<notin> set (concat (map escape_char (cview v)))" for v unfolding set_concat set_map by blast
  then show ?thesis by (auto simp: quoted_def split: option.splits)
qed

lemma render_no_nul:
  "render f d item = Some tx \<Longrightarrow> 0 \<notin> set tx"
  "render_elements f d items = Some tx \<Longrightarrow> 0 \<notin> set tx"
  "render_members f d items = Some tx \<Longrightarrow> 0 \<notin> set tx"
proof (induction f d item and f d items and f d items arbitrary: tx and tx and tx rule: render_render_elements_render_members.induct)
  case (1 f d t ch vs vi vd s)
  have c: "0 \<notin> set (cview v)" for v by (auto simp: cview_def dest: set_takeWhileD)
  show ?case using "1.prems" "1.IH" number_text_no_nul [of vd] quoted_no_nul [of vs] c
    by (auto simp: json_null_def json_false_def json_true_def Let_def split: if_splits)
next
  case (3 f d x xs)
  then show ?case by (auto split: option.splits if_splits)
next
  case (5 f d x xs)
  then show ?case using quoted_no_nul [of "item_string x"] by (auto split: option.splits if_splits)
qed simp_all

definition prints :: "(printbuffer \<Rightarrow> printed) \<Rightarrow> u8 list \<Rightarrow> bool \<Rightarrow> nat \<Rightarrow> bool" where
  "prints f tx fmt d \<longleftrightarrow> (\<forall>p T. pr_at p T \<longrightarrow> pr_format p = fmt \<longrightarrow> pr_depth p = d \<longrightarrow> length T + length tx + 2 \<le> capacity p \<longrightarrow>
     (\<exists>p'. f p = Inr (True, p') \<and> same_mode p p' \<and> holds p' T tx))"

definition appends :: "(printbuffer \<Rightarrow> printed) \<Rightarrow> u8 list \<Rightarrow> bool \<Rightarrow> nat \<Rightarrow> bool" where
  "appends f tx fmt d \<longleftrightarrow> (\<forall>p T. pr_at p T \<longrightarrow> pr_format p = fmt \<longrightarrow> pr_depth p = d \<longrightarrow> length T + length tx + 2 \<le> capacity p \<longrightarrow>
     (\<exists>p'. f p = Inr (True, p') \<and> same_mode p p' \<and> pr_at p' (T @ tx)))"

lemma andIf_assoc: "andIf (andIf m f) g = andIf m (\<lambda>p. andIf (f p) g)"
proof (cases m)
  case (Inr x)
  then show ?thesis by (cases x) (auto simp: andIf_def)
qed (simp add: andIf_def)

lemma appendsD:
  assumes "appends f a fmt d" "pr_at p T" "pr_format p = fmt" "pr_depth p = d" "length T + length a + 2 \<le> capacity p"
  obtains p' where "f p = Inr (True, p')" "same_mode p p'" "pr_at p' (T @ a)"
  using assms by (auto simp: appends_def)

lemma printsD:
  assumes "prints f a fmt d" "pr_at p T" "pr_format p = fmt" "pr_depth p = d" "length T + length a + 2 \<le> capacity p"
  obtains p' where "f p = Inr (True, p')" "same_mode p p'" "holds p' T a"
  using assms by (auto simp: prints_def)

lemma holds_append: "holds p (T @ a) b \<Longrightarrow> holds p T (a @ b)"
  unfolding holds_def by (auto simp: add.assoc)

lemma appends_bind:
  assumes "appends f a fmt d" "appends k b fmt d"
  shows "appends (\<lambda>p. andIf (f p) k) (a @ b) fmt d"
  unfolding appends_def
proof (intro allI impI)
  fix p T assume p: "pr_at p T" "pr_format p = fmt" "pr_depth p = d" "length T + length (a @ b) + 2 \<le> capacity p"
  have "length T + length a + 2 \<le> capacity p" using p(4) by simp
  then obtain q where q: "f p = Inr (True, q)" "same_mode p q" "pr_at q (T @ a)" by (rule appendsD [OF assms(1) p(1-3)])
  have m: "pr_format q = fmt" "pr_depth q = d" "length (T @ a) + length b + 2 \<le> capacity q" using q(2) p by (simp_all add: same_mode_def)
  obtain r where "k q = Inr (True, r)" "same_mode q r" "pr_at r ((T @ a) @ b)" by (rule appendsD [OF assms(2) q(3) m])
  then show "\<exists>p'. andIf (f p) k = Inr (True, p') \<and> same_mode p p' \<and> pr_at p' (T @ a @ b)"
    using q same_mode_trans by auto
qed

lemma appends_prints:
  assumes "appends f a fmt d" "prints k b fmt d"
  shows "prints (\<lambda>p. andIf (f p) k) (a @ b) fmt d"
  unfolding prints_def
proof (intro allI impI)
  fix p T assume p: "pr_at p T" "pr_format p = fmt" "pr_depth p = d" "length T + length (a @ b) + 2 \<le> capacity p"
  have "length T + length a + 2 \<le> capacity p" using p(4) by simp
  then obtain q where q: "f p = Inr (True, q)" "same_mode p q" "pr_at q (T @ a)" by (rule appendsD [OF assms(1) p(1-3)])
  have m: "pr_format q = fmt" "pr_depth q = d" "length (T @ a) + length b + 2 \<le> capacity q" using q(2) p by (simp_all add: same_mode_def)
  obtain r where "k q = Inr (True, r)" "same_mode q r" "holds r (T @ a) b" by (rule printsD [OF assms(2) q(3) m])
  then show "\<exists>p'. andIf (f p) k = Inr (True, p') \<and> same_mode p p' \<and> holds p' T (a @ b)"
    using q same_mode_trans holds_append by auto
qed

lemma prints_bind:
  assumes "prints f a fmt d" "0 \<notin> set a" "appends k b fmt d"
  shows "appends (\<lambda>p. andIf (f p) (\<lambda>p. andThen (update_offset p) k)) (a @ b) fmt d"
  unfolding appends_def
proof (intro allI impI)
  fix p T assume p: "pr_at p T" "pr_format p = fmt" "pr_depth p = d" "length T + length (a @ b) + 2 \<le> capacity p"
  have "length T + length a + 2 \<le> capacity p" using p(4) by simp
  then obtain q where q: "f p = Inr (True, q)" "same_mode p q" "holds q T a" by (rule printsD [OF assms(1) p(1-3)])
  obtain q' where q': "update_offset q = Inr q'" "same_mode q q'" "pr_at q' (T @ a)" using update_ok [OF q(3) assms(2)] by blast
  have m: "pr_format q' = fmt" "pr_depth q' = d" "length (T @ a) + length b + 2 \<le> capacity q'" using q(2) q'(2) p by (simp_all add: same_mode_def)
  obtain r where "k q' = Inr (True, r)" "same_mode q' r" "pr_at r ((T @ a) @ b)" by (rule appendsD [OF assms(3) q'(3) m])
  then show "\<exists>p'. andIf (f p) (\<lambda>p. andThen (update_offset p) k) = Inr (True, p') \<and> same_mode p p' \<and> pr_at p' (T @ a @ b)"
    using q(1) q'(1) same_mode_trans [OF q(2) same_mode_trans [OF q'(2)]] by auto
qed

lemma appends_nothing: "appends (\<lambda>p. Inr (True, p)) [] fmt d"
  by (simp add: appends_def)

lemma appends_text: "length bs \<le> needed \<Longrightarrow> needed \<le> length bs + 1 \<Longrightarrow> appends (put_at_offset U needed bs (length bs)) bs fmt d"
  unfolding appends_def by (intro allI impI put_text) simp_all

lemma appends_terminated: "appends (put_at_offset U (length bs + 1) (bs @ [0]) (length bs)) bs fmt d"
  unfolding appends_def by (intro allI impI put_text_terminated) simp_all

lemma prints_text: "length tx \<le> needed \<Longrightarrow> needed \<le> length tx + 1 \<Longrightarrow> n \<le> length tx \<Longrightarrow> prints (put_at_offset U needed (tx @ [0]) n) tx fmt d"
  unfolding prints_def by (intro allI impI put_value) simp_all

lemma prints_string: "prints (print_string_ptr U s) (quoted s) fmt d"
  unfolding prints_def by (intro allI impI print_string_ptr_ok) simp_all

text \<open>Between \<open>depth++\<close> and \<open>depth--\<close>.\<close>

lemma prints_nested:
  assumes "prints f a fmt (d + 1)"
  shows "prints (\<lambda>p. andIf (f (enter p)) (\<lambda>p. Inr (True, leave p))) a fmt d"
  unfolding prints_def
proof (intro allI impI)
  fix p T assume p: "pr_at p T" "pr_format p = fmt" "pr_depth p = d" "length T + length a + 2 \<le> capacity p"
  then have e: "pr_at (enter p) T" "pr_format (enter p) = fmt" "pr_depth (enter p) = d + 1" "length T + length a + 2 \<le> capacity (enter p)"
    by (auto simp: enter_def pr_at_def capacity_def split: if_splits)
  obtain q where "f (enter p) = Inr (True, q)" "same_mode (enter p) q" "holds q T a" by (rule printsD [OF assms e])
  then show "\<exists>p'. andIf (f (enter p)) (\<lambda>p. Inr (True, leave p)) = Inr (True, p') \<and> same_mode p p' \<and> holds p' T a"
    by (intro exI [of _ "leave q"]) (auto simp: enter_def leave_def same_mode_def holds_def capacity_def split: if_splits)
qed

lemma prints_cong:
  assumes "\<And>p. pr_format p = fmt \<Longrightarrow> pr_depth p = d \<Longrightarrow> f p = g p" "prints g a fmt d"
  shows "prints f a fmt d"
  using assms by (auto simp: prints_def)

lemma appends_cong:
  assumes "\<And>p. pr_format p = fmt \<Longrightarrow> pr_depth p = d \<Longrightarrow> f p = g p" "appends g a fmt d"
  shows "appends f a fmt d"
  using assms by (auto simp: appends_def)

text \<open>What is reserved is what is written, so the printer writes exactly the text of the item.\<close>

lemma print_renders:
  "render fmt d item = Some tx \<Longrightarrow> prints (print_value U item) tx fmt d"
  "render_elements fmt d items = Some tx \<Longrightarrow> appends (print_elements U items) tx fmt d"
  "render_members fmt d items = Some tx \<Longrightarrow> appends (print_members U items) tx fmt d"
proof (induction fmt d item and fmt d items and fmt d items arbitrary: tx and tx and tx rule: render_render_elements_render_members.induct)
  case (1 f d t ch vs vi vd s)
  let ?t = "t AND 0xFF"
  consider "?t = cJSON_NULL" | "?t = cJSON_False" | "?t = cJSON_True" | "?t = cJSON_Number" | "?t = cJSON_Raw" | "?t = cJSON_String"
    | "?t = cJSON_Array" | "?t = cJSON_Object" using "1.prems" by (auto simp: Let_def split: if_splits)
  then show ?case
  proof cases
    case 1
    then show ?thesis using prints_text [of json_null 5 0 U f d] "1.prems" by (auto simp: json_null_def)
  next
    case 2
    then show ?thesis using prints_text [of json_false 6 0 U f d] "1.prems" by (auto simp: json_false_def cJSON_types)
  next
    case 3
    then show ?thesis using prints_text [of json_true 5 0 U f d] "1.prems" by (auto simp: json_true_def cJSON_types)
  next
    case 4
    then show ?thesis using prints_text [of "number_text vd" "length (number_text vd) + 1" "length (number_text vd)" U f d] "1.prems"
      by (auto simp: print_number_def Let_def cJSON_types split: if_splits)
  next
    case 5
    then show ?thesis using prints_text [of "cview v" "length (cview v) + 1" 0 U f d for v] "1.prems"
      by (auto simp: cJSON_types split: option.splits)
  next
    case 6
    then show ?thesis using prints_string [of U vs f d] "1.prems" by (auto simp: print_string_def cJSON_types)
  next
    case 7
    then obtain x where x: "render_elements f (d + 1) ch = Some x" "tx = [91] @ x @ [93]" using "1.prems" by (auto simp: cJSON_types)
    have e: "prints (\<lambda>p. andIf (print_elements U ch p) (put_at_offset U 2 ([93] @ [0]) 0)) (x @ [93]) f (d + 1)"
      by (rule appends_prints [OF "1.IH"(1) prints_text]) (use 7 x in \<open>simp_all add: cJSON_types\<close>)
    have "prints (\<lambda>p. andIf (put_at_offset U 1 [91] (length [91 :: u8]) p) (\<lambda>p. andIf (andIf (print_elements U ch (enter p)) (put_at_offset U 2 ([93] @ [0]) 0))
        (\<lambda>p. Inr (True, leave p)))) ([91] @ x @ [93]) f d"
      by (rule appends_prints [OF appends_text prints_nested [OF e]]) simp_all
    then show ?thesis using 7 x(2) by (simp add: andIf_assoc cJSON_types)
  next
    case 8
    let ?o = "if f then [123, 10] else [123 :: u8]" and ?c = "(if f then replicate d 9 else []) @ [125 :: u8]"
    obtain x where x: "render_members f (d + 1) ch = Some x" "tx = ?o @ x @ ?c" using "1.prems" 8 by (auto simp: cJSON_types)
    let ?z = "\<lambda>p. put_at_offset U (if pr_format p then pr_depth p + 1 else 2) ((if pr_format p then replicate (pr_depth p - 1) 9 else []) @ [125, 0]) 0 p"
    have "prints ?z ?c f (d + 1)" by (rule prints_cong [OF _ prints_text [of ?c "if f then d + 2 else 2" 0 U]]) simp_all
    then have e: "prints (\<lambda>p. andIf (print_members U ch p) ?z) (x @ ?c) f (d + 1)"
      by (intro appends_prints "1.IH"(2)) (use 8 x in \<open>simp_all add: cJSON_types\<close>)
    have two: "length ?o = (if f then 2 else 1)" by simp
    have o: "appends (put_at_offset U (if f then 3 else 2) ?o (if f then 2 else 1)) ?o f d"
      using appends_text [of ?o "if f then 3 else 2" U f d] unfolding two by simp
    have "prints (\<lambda>p. andIf (put_at_offset U (if f then 3 else 2) ?o (if f then 2 else 1) p) (\<lambda>p. andIf (andIf (print_members U ch (enter p)) ?z)
        (\<lambda>p. Inr (True, leave p)))) (?o @ x @ ?c) f d"
      by (rule appends_prints [OF o prints_nested [OF e]])
    then show ?thesis unfolding x(2) by (rule prints_cong [rotated]) (use 8 in \<open>simp add: andIf_assoc cJSON_types\<close>)
  qed
next
  case (2 f d)
  then show ?case by (simp add: appends_nothing)
next
  case (3 f d x xs)
  let ?s = "if xs = [] then [] else if f then [44, 32] else [44 :: u8]"
  obtain a b where ab: "render f d x = Some a" "render_elements f d xs = Some b" "tx = a @ ?s @ b" using "3.prems" by (auto split: option.splits)
  have "appends (\<lambda>p. if xs = [] then Inr (True, p)
      else andIf (put_at_offset U (if pr_format p then 3 else 2) (if pr_format p then [44, 32, 0] else [44, 0]) (if pr_format p then 2 else 1) p)
        (print_elements U xs)) (?s @ b) f d"
    using appends_bind [OF appends_terminated, OF "3.IH"(2) [OF ab(1,2)], of U ?s] ab(2) appends_nothing [of f d]
    by (cases "xs = []") (auto simp: numeral_2_eq_2 numeral_3_eq_3 elim!: appends_cong [rotated])
  from prints_bind [OF "3.IH"(1) [OF ab(1)] render_no_nul(1) [OF ab(1)] this] show ?case by (simp add: ab(3) fun_eq_iff)
next
  case (4 f d)
  then show ?case by (simp add: appends_nothing)
next
  case (5 f d x xs)
  let ?i = "if f then replicate d 9 else [] :: u8 list" and ?q = "quoted (item_string x)" and ?m = "if f then [58, 9] else [58 :: u8]"
    and ?s = "(if xs = [] then [] else [44]) @ (if f then [10] else [] :: u8 list)"
  obtain a b where ab: "render f d x = Some a" "render_members f d xs = Some b" "tx = ?i @ ?q @ ?m @ a @ ?s @ b"
    using "5.prems" by (auto split: option.splits)
  have "appends (\<lambda>p. let sep = (if xs = [] then [] else [44]) @ (if pr_format p then [10] else [])
      in andIf (put_at_offset U (length sep + 1) (sep @ [0]) (length sep) p) (print_members U xs)) (?s @ b) f d"
    by (rule appends_cong [OF _ appends_bind [OF appends_terminated, OF "5.IH"(2) [OF ab(1,2)]]]) (simp add: Let_def)
  note v = prints_bind [OF "5.IH"(1) [OF ab(1)] render_no_nul(1) [OF ab(1)] this]
  have "appends (\<lambda>p. andIf (put_at_offset U (if pr_format p then 2 else 1) (if pr_format p then [58, 9] else [58]) (if pr_format p then 2 else 1) p)
      (\<lambda>p. andIf (print_value U x p) (\<lambda>p. andThen (update_offset p)
      (\<lambda>p. let sep = (if xs = [] then [] else [44]) @ (if pr_format p then [10] else [])
        in andIf (put_at_offset U (length sep + 1) (sep @ [0]) (length sep) p) (print_members U xs))))) (?m @ a @ ?s @ b) f d"
    by (rule appends_cong [OF _ appends_bind [OF appends_text v, of ?m "length ?m" U]]) (simp_all add: numeral_2_eq_2)
  note k = prints_bind [OF prints_string quoted_no_nul this]
  have i: "appends (\<lambda>p. if pr_format p then put_at_offset U (pr_depth p) (replicate (pr_depth p) 9) (pr_depth p) p else Inr (True, p)) ?i f d"
    using appends_text [of "replicate d 9" d U f d] appends_nothing [of f d] by (cases f) (auto elim!: appends_cong [rotated])
  show ?case using appends_bind [OF i k, of U "item_string x"] by (simp add: ab(3) fun_eq_iff)
qed

section \<open>Printing never writes outside its buffer\<close>

definition returns :: "printbuffer \<Rightarrow> printed \<Rightarrow> (printbuffer \<Rightarrow> bool) \<Rightarrow> bool" where
  "returns p r P \<longleftrightarrow> (\<exists>ok q. r = Inr (ok, q) \<and> pr_noalloc q = pr_noalloc p \<and>
     (pr_noalloc p \<longrightarrow> length (pr_buffer q) = length (pr_buffer p)) \<and> (ok \<longrightarrow> P q))"

definition safe_append :: "(printbuffer \<Rightarrow> printed) \<Rightarrow> bool" where
  "safe_append f \<longleftrightarrow> (\<forall>p T. pr_at p T \<longrightarrow> returns p (f p) (\<lambda>q. \<exists>T'. pr_at q T'))"

definition safe_value :: "(printbuffer \<Rightarrow> printed) \<Rightarrow> bool" where
  "safe_value f \<longleftrightarrow> (\<forall>p T. pr_at p T \<longrightarrow> returns p (f p) (\<lambda>q. \<exists>T' tx. holds q T' tx \<and> 0 \<notin> set tx))"

lemma ensure_full:
  assumes "pr_at p T" "capacity p < length T + needed + 1"
  shows "ensure U needed p = Inr (False, p)"
  using assms by (auto simp: ensure_def capacity_def pr_at_def Let_def split: if_splits)

lemma returns_Inr [simp]:
  "returns p (Inr (ok, q)) P \<longleftrightarrow> pr_noalloc q = pr_noalloc p \<and> (pr_noalloc p \<longrightarrow> length (pr_buffer q) = length (pr_buffer p)) \<and> (ok \<longrightarrow> P q)"
  by (auto simp: returns_def)

lemma returns_bind:
  assumes "returns p m P" "\<And>q. P q \<Longrightarrow> returns q (k q) Q"
  shows "returns p (andIf m k) Q"
  using assms unfolding returns_def andIf_def by fastforce

lemma returns_same: "m = Inr (True, q) \<Longrightarrow> same_mode p q \<Longrightarrow> P q \<Longrightarrow> returns p m P"
  by (auto simp: returns_def same_mode_def capacity_def split: if_splits)

lemma returns_put:
  assumes "pr_at p T" "length bs \<le> needed + 1"
    and "\<And>q rest. pr_buffer q = T @ bs @ rest \<Longrightarrow> length (T @ bs @ rest) \<ge> length T + needed + 1 \<Longrightarrow>
      pr_offset q = length T + n \<Longrightarrow> length (pr_buffer q) \<le> nat INT_MAX \<Longrightarrow> P q"
  shows "returns p (put_at_offset U needed bs n p) P"
proof (cases "length T + needed + 1 \<le> capacity p")
  case True
  from put_ok [OF assms(1) True assms(2), of U n] obtain q rest where q: "put_at_offset U needed bs n p = Inr (True, q)" "same_mode p q"
    "pr_buffer q = T @ bs @ rest" "length (T @ bs @ rest) \<ge> length T + needed + 1" "pr_offset q = length T + n"
    "length (pr_buffer q) \<le> nat INT_MAX" by blast
  show ?thesis by (rule returns_same [OF q(1,2)]) (rule assms(3) [OF q(3-6)])
next
  case False
  then show ?thesis using ensure_full [OF assms(1), of needed U] by (auto simp: put_at_offset_def andIf_def)
qed

lemma safe_text: "length bs \<le> needed \<Longrightarrow> safe_append (put_at_offset U needed bs (length bs))"
  unfolding safe_append_def
proof (intro allI impI, erule returns_put)
  fix T and q :: printbuffer and rest assume "length bs \<le> needed" "pr_buffer q = T @ bs @ rest" "length T + needed + 1 \<le> length (T @ bs @ rest)"
    "pr_offset q = length T + length bs" "length (pr_buffer q) \<le> nat INT_MAX"
  then have "pr_at q (T @ bs)" by (auto simp: pr_at_def)
  then show "\<exists>T'. pr_at q T'" by blast
qed simp

lemma safe_terminated: "length bs \<le> needed \<Longrightarrow> safe_append (put_at_offset U needed (bs @ [0]) (length bs))"
  unfolding safe_append_def
proof (intro allI impI, erule returns_put)
  fix T and q :: printbuffer and rest assume "pr_buffer q = T @ (bs @ [0]) @ rest" "pr_offset q = length T + length bs" "length (pr_buffer q) \<le> nat INT_MAX"
  then have "pr_at q (T @ bs)" by (auto simp: pr_at_def)
  then show "\<exists>T'. pr_at q T'" by blast
qed simp

lemma safe_put_value: "length tx \<le> needed \<Longrightarrow> 0 \<notin> set tx \<Longrightarrow> n \<le> length tx \<Longrightarrow> safe_value (put_at_offset U needed (tx @ [0]) n)"
  unfolding safe_value_def
proof (intro allI impI, erule returns_put)
  fix T and q :: printbuffer and rest assume "0 \<notin> set tx" "n \<le> length tx" "pr_buffer q = T @ (tx @ [0]) @ rest" "pr_offset q = length T + n"
    "length (pr_buffer q) \<le> nat INT_MAX"
  then have "holds q T tx \<and> 0 \<notin> set tx" by (auto simp: holds_def)
  then show "\<exists>T' tx. holds q T' tx \<and> 0 \<notin> set tx" by blast
qed simp

lemma safe_string: "safe_value (print_string_ptr U s)"
  unfolding safe_value_def
proof (intro allI impI)
  fix p T assume p: "pr_at p T"
  show "returns p (print_string_ptr U s p) (\<lambda>q. \<exists>T' tx. holds q T' tx \<and> 0 \<notin> set tx)"
  proof (cases "length T + length (quoted s) + 2 \<le> capacity p")
    case True
    then show ?thesis using print_string_ptr_ok [OF p True, of U] quoted_no_nul [of s] by (auto intro: returns_same)
  next
    case False
    show ?thesis
    proof (cases s)
      case None
      then show ?thesis using False ensure_full [OF p, of 3 U]
        by (auto simp: print_string_ptr_def quoted_def put_at_offset_def andIf_def)
    next
      case (Some v)
      then have "ensure U (length (cview v) + escape_characters (cview v) + 3) p = Inr (False, p)"
        using False by (intro ensure_full [OF p]) (simp add: quoted_def escape_count)
      then show ?thesis using Some
        by (auto simp: print_string_ptr_def put_at_offset_def andIf_def Let_def)
    qed
  qed
qed

lemma safe_bind: "safe_append f \<Longrightarrow> safe_append k \<Longrightarrow> safe_append (\<lambda>p. andIf (f p) k)"
  unfolding safe_append_def by (blast intro: returns_bind)

lemma safe_append_value: "safe_append f \<Longrightarrow> safe_value k \<Longrightarrow> safe_value (\<lambda>p. andIf (f p) k)"
  unfolding safe_append_def safe_value_def by (blast intro: returns_bind)

lemma safe_nothing: "safe_append (\<lambda>p. Inr (True, p))"
  by (auto simp: safe_append_def)

lemma safe_update:
  assumes "safe_value f" "safe_append k"
  shows "safe_append (\<lambda>p. andIf (f p) (\<lambda>p. andThen (update_offset p) k))"
  unfolding safe_append_def
proof (intro allI impI)
  fix p T assume "pr_at p T"
  then have "returns p (f p) (\<lambda>q. \<exists>T' tx. holds q T' tx \<and> 0 \<notin> set tx)" using assms(1) by (auto simp: safe_value_def)
  then show "returns p (andIf (f p) (\<lambda>p. andThen (update_offset p) k)) (\<lambda>q. \<exists>T'. pr_at q T')"
  proof (rule returns_bind)
    fix q assume "\<exists>T' tx. holds q T' tx \<and> 0 \<notin> set tx"
    then obtain T' tx r where r: "update_offset q = Inr r" "same_mode q r" "pr_at r (T' @ tx)" using update_ok by blast
    then have "returns r (k r) (\<lambda>q. \<exists>T'. pr_at q T')" using assms(2) by (auto simp: safe_append_def)
    then show "returns q (andThen (update_offset q) k) (\<lambda>q. \<exists>T'. pr_at q T')"
      using r(1,2) by (auto simp: returns_def same_mode_def capacity_def split: if_splits)
  qed
qed

lemma safe_nested:
  assumes "safe_value f"
  shows "safe_value (\<lambda>p. andIf (f (enter p)) (\<lambda>p. Inr (True, leave p)))"
  unfolding safe_value_def
proof (intro allI impI)
  fix p T assume "pr_at p T"
  then have "pr_at (enter p) T" by (simp add: pr_at_def enter_def)
  then have "returns (enter p) (f (enter p)) (\<lambda>q. \<exists>T' tx. holds q T' tx \<and> 0 \<notin> set tx)" using assms by (auto simp: safe_value_def)
  then have "returns p (f (enter p)) (\<lambda>q. \<exists>T' tx. holds q T' tx \<and> 0 \<notin> set tx)" by (simp add: returns_def enter_def)
  then show "returns p (andIf (f (enter p)) (\<lambda>p. Inr (True, leave p))) (\<lambda>q. \<exists>T' tx. holds q T' tx \<and> 0 \<notin> set tx)"
    by (rule returns_bind) (simp add: leave_def holds_def)
qed

text \<open>What a step stores depends on the mode and the depth of the buffer it is given.\<close>

lemma safe_append_each:
  assumes "\<And>p. \<exists>g. safe_append g \<and> f p = g p"
  shows "safe_append f"
  unfolding safe_append_def
proof (intro allI impI)
  fix p T assume "pr_at p T"
  moreover obtain g where "safe_append g" "f p = g p" using assms [of p] by blast
  ultimately show "returns p (f p) (\<lambda>q. \<exists>T'. pr_at q T')" unfolding safe_append_def by auto
qed

lemma safe_value_each:
  assumes "\<And>p. \<exists>g. safe_value g \<and> f p = g p"
  shows "safe_value f"
  unfolding safe_value_def
proof (intro allI impI)
  fix p T assume "pr_at p T"
  moreover obtain g where "safe_value g" "f p = g p" using assms [of p] by blast
  ultimately show "returns p (f p) (\<lambda>q. \<exists>T' tx. holds q T' tx \<and> 0 \<notin> set tx)" unfolding safe_value_def by auto
qed

lemma safe_elements: "(\<And>x. x \<in> set xs \<Longrightarrow> safe_value (print_value U x)) \<Longrightarrow> safe_append (print_elements U xs)"
proof (induction xs)
  case (Cons x xs)
  have c: "safe_append (\<lambda>p. put_at_offset U (if pr_format p then 3 else 2) (if pr_format p then [44, 32, 0] else [44, 0]) (if pr_format p then 2 else 1) p)"
  proof (rule safe_append_each)
    fix p :: printbuffer
    show "\<exists>g. safe_append g \<and> put_at_offset U (if pr_format p then 3 else 2) (if pr_format p then [44, 32, 0] else [44, 0]) (if pr_format p then 2 else 1) p = g p"
      using safe_terminated [of "[44, 32]" 3 U] safe_terminated [of "[44]" 2 U] by (cases "pr_format p") (auto simp: numeral_2_eq_2)
  qed
  have "safe_append (\<lambda>p. if xs = [] then Inr (True, p) else andIf (put_at_offset U (if pr_format p then 3 else 2)
      (if pr_format p then [44, 32, 0] else [44, 0]) (if pr_format p then 2 else 1) p) (print_elements U xs))"
    using safe_bind [OF c Cons.IH] Cons.prems safe_nothing by (cases "xs = []") simp_all
  from safe_update [OF Cons.prems this, of x] show ?case by (simp add: safe_append_def)
qed (auto simp: safe_append_def)

lemma safe_members: "(\<And>x. x \<in> set xs \<Longrightarrow> safe_value (print_value U x)) \<Longrightarrow> safe_append (print_members U xs)"
proof (induction xs)
  case (Cons x xs)
  have s: "safe_append (\<lambda>p. let sep = (if xs = [] then [] else [44]) @ (if pr_format p then [10] else [])
      in andIf (put_at_offset U (length sep + 1) (sep @ [0]) (length sep) p) (print_members U xs))"
  proof (rule safe_append_each)
    fix p :: printbuffer
    define sep :: "u8 list" where "sep = (if xs = [] then [] else [44]) @ (if pr_format p then [10] else [])"
    have "safe_append (\<lambda>p. andIf (put_at_offset U (length sep + 1) (sep @ [0]) (length sep) p) (print_members U xs))"
      by (intro safe_bind safe_terminated Cons.IH Cons.prems) simp_all
    then show "\<exists>g. safe_append g \<and> (let sep = (if xs = [] then [] else [44]) @ (if pr_format p then [10] else [])
        in andIf (put_at_offset U (length sep + 1) (sep @ [0]) (length sep) p) (print_members U xs)) = g p"
      by (intro exI [of _ "\<lambda>p. andIf (put_at_offset U (length sep + 1) (sep @ [0]) (length sep) p) (print_members U xs)"]) (simp add: sep_def Let_def)
  qed
  note v = safe_update [OF Cons.prems s, of x]
  have m: "safe_append (\<lambda>p. put_at_offset U (if pr_format p then 2 else 1) (if pr_format p then [58, 9] else [58]) (if pr_format p then 2 else 1) p)"
  proof (rule safe_append_each)
    fix p :: printbuffer
    show "\<exists>g. safe_append g \<and> put_at_offset U (if pr_format p then 2 else 1) (if pr_format p then [58, 9] else [58]) (if pr_format p then 2 else 1) p = g p"
      using safe_text [of "[58, 9]" 2 U] safe_text [of "[58]" 1 U] by (cases "pr_format p") (auto simp: numeral_2_eq_2)
  qed
  have i: "safe_append (\<lambda>p. if pr_format p then put_at_offset U (pr_depth p) (replicate (pr_depth p) 9) (pr_depth p) p else Inr (True, p))"
  proof (rule safe_append_each)
    fix p :: printbuffer
    show "\<exists>g. safe_append g \<and> (if pr_format p then put_at_offset U (pr_depth p) (replicate (pr_depth p) 9) (pr_depth p) p else Inr (True, p)) = g p"
      using safe_text [of "replicate (pr_depth p) 9" "pr_depth p" U] safe_nothing by (cases "pr_format p") auto
  qed
  from safe_bind [OF i safe_update [OF safe_string safe_bind [OF m v]], of U "item_string x"] show ?case
    using Cons.prems by (simp add: safe_append_def Let_def)
qed (auto simp: safe_append_def)

lemma print_value_safe: "safe_value (print_value U item)"
proof (induction item)
  case (Item t ch vs vi vd s)
  let ?t = "t AND 0xFF"
  have j: "0 \<notin> set json_null" "0 \<notin> set json_false" "0 \<notin> set json_true" "0 \<notin> set (cview v)" for v
    by (auto simp: json_null_def json_false_def json_true_def cview_def dest: set_takeWhileD)
  have l: "safe_value (put_at_offset U 5 (json_null @ [0]) 0)" "safe_value (put_at_offset U 6 (json_false @ [0]) 0)"
    "safe_value (put_at_offset U 5 (json_true @ [0]) 0)" "safe_value (put_at_offset U (length (cview v) + 1) (cview v @ [0]) 0)" for v
    using safe_put_value [of json_null 5 0 U] safe_put_value [of json_false 6 0 U] safe_put_value [of json_true 5 0 U]
      safe_put_value [of "cview v" "length (cview v) + 1" 0 U] j(4) [of v] by (simp_all add: json_null_def json_false_def json_true_def)
  have n: "safe_value (print_number U it)" for it
    using safe_put_value [of "number_text (item_valuedouble it)" "length (number_text (item_valuedouble it)) + 1"
        "length (number_text (item_valuedouble it))" U] number_text_no_nul [of "item_valuedouble it"]
    by (cases "25 < length (number_text (item_valuedouble it))") (simp_all add: safe_value_def print_number_def Let_def)
  have a: "safe_value (\<lambda>p. andIf (put_at_offset U 1 [91] 1 p) (\<lambda>p. andIf (andIf (print_elements U ch (enter p)) (put_at_offset U 2 ([93] @ [0]) 0))
      (\<lambda>p. Inr (True, leave p))))"
    using safe_text [of "[91]" 1 U] safe_elements [of ch U] Item.IH by (intro safe_append_value safe_nested safe_put_value) simp_all
  have o: "safe_append (\<lambda>p. put_at_offset U (if pr_format p then 3 else 2) (if pr_format p then [123, 10] else [123]) (if pr_format p then 2 else 1) p)"
  proof (rule safe_append_each)
    fix p :: printbuffer
    show "\<exists>g. safe_append g \<and> put_at_offset U (if pr_format p then 3 else 2) (if pr_format p then [123, 10] else [123]) (if pr_format p then 2 else 1) p = g p"
      using safe_text [of "[123, 10]" 3 U] safe_text [of "[123]" 2 U] by (cases "pr_format p") (auto simp: numeral_2_eq_2)
  qed
  let ?z = "\<lambda>p. put_at_offset U (if pr_format p then pr_depth p + 1 else 2) ((if pr_format p then replicate (pr_depth p - 1) 9 else []) @ [125, 0]) 0 p"
  have z: "safe_value ?z"
  proof (rule safe_value_each)
    fix p :: printbuffer
    let ?g = "put_at_offset U (if pr_format p then pr_depth p + 1 else 2) (((if pr_format p then replicate (pr_depth p - 1) 9 else []) @ [125]) @ [0]) 0"
    have "safe_value ?g" by (rule safe_put_value) auto
    then show "\<exists>g. safe_value g \<and> ?z p = g p" by (intro exI [of _ ?g]) simp
  qed
  have ob: "safe_value (\<lambda>p. andIf (put_at_offset U (if pr_format p then 3 else 2) (if pr_format p then [123, 10] else [123]) (if pr_format p then 2 else 1) p)
      (\<lambda>p. andIf (andIf (print_members U ch (enter p)) ?z) (\<lambda>p. Inr (True, leave p))))"
    using safe_members [of ch U] Item.IH by (intro safe_append_value safe_nested o z) simp_all
  have f: "safe_value (\<lambda>p. Inr (False, p))" by (simp add: safe_value_def)
  have s: "safe_value (print_string U it)" for it using safe_string by (simp add: print_string_def [abs_def])
  show ?case
  proof (rule safe_value_each)
    fix p :: printbuffer
    have sv: "\<exists>g. safe_value g \<and> x = g p" if "safe_value g" "x = g p" for x g using that by blast
    consider "?t = cJSON_NULL" | "?t = cJSON_False" | "?t = cJSON_True" | "?t = cJSON_Number" | "?t = cJSON_Raw" | "?t = cJSON_String"
      | "?t = cJSON_Array" | "?t = cJSON_Object"
      | "\<forall>u\<in>{cJSON_NULL, cJSON_False, cJSON_True, cJSON_Number, cJSON_Raw, cJSON_String, cJSON_Array, cJSON_Object}. ?t \<noteq> u" by blast
    then show "\<exists>g. safe_value g \<and> print_value U (Item t ch vs vi vd s) p = g p"
    proof cases
      case 1 then show ?thesis by (intro sv [OF l(1)]) simp
    next
      case 2 then show ?thesis by (intro sv [OF l(2)]) (simp add: cJSON_types)
    next
      case 3 then show ?thesis by (intro sv [OF l(3)]) (simp add: cJSON_types)
    next
      case 4 then show ?thesis by (intro sv [OF n [of "Item cJSON_Number ch vs vi vd s"]]) (simp add: cJSON_types)
    next
      case 5
      show ?thesis
      proof (cases vs)
        case None
        then show ?thesis using 5 by (intro sv [OF f]) (simp add: cJSON_types)
      next
        case (Some v)
        then show ?thesis using 5 by (intro sv [OF l(4) [of v]]) (simp add: cJSON_types)
      qed
    next
      case 6 then show ?thesis by (intro sv [OF s [of "Item cJSON_String ch vs vi vd s"]]) (simp add: cJSON_types)
    next
      case 7 then show ?thesis by (intro sv [OF a]) (simp add: cJSON_types andIf_assoc)
    next
      case 8 then show ?thesis by (intro sv [OF ob]) (simp add: cJSON_types andIf_assoc)
    next
      case 9 then show ?thesis by (intro sv [OF f]) simp
    qed
  qed
qed

lemma ensure_empty: "pr_buffer p = [] \<Longrightarrow> pr_noalloc p \<Longrightarrow> ensure U needed p = Inr (False, p)"
  by (simp add: ensure_def Let_def)

lemma print_empty: "pr_buffer p = [] \<Longrightarrow> pr_noalloc p \<Longrightarrow> print_value U item p = Inr (False, p)"
  by (cases item) (simp add: put_at_offset_def andIf_def ensure_empty print_number_def print_string_def print_string_ptr_def Let_def split: option.split)

lemma new_buffer_at: "bs \<noteq> [] \<Longrightarrow> length bs \<le> nat INT_MAX \<Longrightarrow> pr_at (new_printbuffer bs noalloc fmt realloc) []"
  by (simp add: pr_at_def new_printbuffer_def)

lemma print_value_text:
  assumes "render fmt 0 item = Some tx" "bs \<noteq> []" "length bs \<le> nat INT_MAX"
    "length tx + 2 \<le> (if noalloc then length bs else nat INT_MAX)"
  shows "\<exists>p. print_value U item (new_printbuffer bs noalloc fmt realloc) = Inr (True, p) \<and> holds p [] tx \<and>
    same_mode (new_printbuffer bs noalloc fmt realloc) p"
proof -
  let ?n = "new_printbuffer bs noalloc fmt realloc"
  have "pr_format ?n = fmt" "pr_depth ?n = 0" "length [] + length tx + 2 \<le> capacity ?n"
    using assms(4) by (auto simp: new_printbuffer_def capacity_def split: if_splits)
  from printsD [OF print_renders(1) [OF assms(1)] new_buffer_at [OF assms(2,3)] this] show ?thesis by metis
qed

text \<open>
  C1: The printer writes the text of the item. Whatever fresh memory holds and however the buffer grows, with or without
  \<open>realloc\<close>, the block returned is exactly the text with its terminator, as long as it stays below the largest \<open>int\<close>.
\<close>

theorem cjson_print_text:
  assumes "render fmt 0 item = Some tx" "length tx + 2 \<le> nat INT_MAX"
  shows "print_item U realloc fmt (Some item) = Inr (Some (cstring tx))"
proof -
  let ?b = "map (U 256) [0..<256]"
  have b: "?b \<noteq> []" "length ?b \<le> nat INT_MAX" by (simp_all add: INT_MAX_def)
  obtain p where p: "print_value U item (new_printbuffer ?b False fmt realloc) = Inr (True, p)" "holds p [] tx"
    using print_value_text [OF assms(1) b, of False U realloc] assms(2) by auto
  obtain q where q: "update_offset p = Inr q" "pr_at q tx" using update_ok [OF p(2) render_no_nul(1) [OF assms(1)]] by auto
  have "pr_buffer q = pr_buffer p" using q(1) by (auto simp: update_offset_def add_offset_def split: option.splits)
  then obtain rest where "pr_buffer q = tx @ 0 # rest" "pr_offset q = length tx" using p(2) q(2) by (auto simp: holds_def pr_at_def)
  then show ?thesis using p(1) q(1) by (simp add: print_item_def cstring_def)
qed

text \<open>
  C2: Printing into the caller's block. For every item and every length that the block has, nothing is written behind that
  length, and no access leaves the block. If the text and two more bytes fit, the call reports success and the block starts
  with the text and its terminator.
\<close>

theorem cjson_print_preallocated:
  assumes "0 \<le> len" "len \<le> INT_MAX" "nat len \<le> length buf"
  shows "\<exists>ok buf'. cJSON_PrintPreallocated U realloc (Some item) (Some buf) len fmt = Inr (ok, Some buf') \<and>
    length buf' = length buf \<and> drop (nat len) buf' = drop (nat len) buf \<and>
    (\<forall>tx. render fmt 0 item = Some tx \<and> length tx + 2 \<le> nat len \<longrightarrow> ok \<and> take (length tx + 1) buf' = cstring tx)"
proof (cases "len = 0")
  case True
  then have "print_value U item (new_printbuffer [] True fmt realloc) = Inr (False, new_printbuffer [] True fmt realloc)"
    by (intro print_empty) (simp_all add: new_printbuffer_def)
  then show ?thesis using True
    by (intro exI [of _ False] exI [of _ buf]) (simp add: cJSON_PrintPreallocated_def new_printbuffer_def)
next
  case False
  let ?b = "take (nat len) buf"
  let ?n = "new_printbuffer ?b True fmt realloc"
  have b: "?b \<noteq> []" "length ?b = nat len" "length ?b \<le> nat INT_MAX" using assms False by auto
  have "returns ?n (print_value U item ?n) (\<lambda>q. True)"
    using print_value_safe [of U item] new_buffer_at [OF b(1,3), of True fmt realloc] unfolding safe_value_def returns_def by blast
  then obtain ok p where p: "print_value U item ?n = Inr (ok, p)" "length (pr_buffer p) = nat len"
    using b(2) by (auto simp: returns_def new_printbuffer_def)
  have "ok \<and> take (length tx + 1) (pr_buffer p @ drop (nat len) buf) = cstring tx"
    if r: "render fmt 0 item = Some tx" "length tx + 2 \<le> nat len" for tx
  proof -
    have "length tx + 2 \<le> (if True then length ?b else nat INT_MAX)" using r(2) b(2) by simp
    from print_value_text [OF r(1) b(1,3) this, of U realloc] p(1) obtain rest where "ok" "pr_buffer p = tx @ 0 # rest" by (auto simp: holds_def)
    then show ?thesis by (simp add: cstring_def)
  qed
  then show ?thesis using p assms by (auto simp: cJSON_PrintPreallocated_def)
qed

text \<open>\<open>["a\n", true]\<close>, with the line break escaped.\<close>

definition demo_item :: cJSON where
  "demo_item = Item cJSON_Array
     [Item cJSON_String [] (Some [97, 10]) 0 (Fin 0) None, Item cJSON_True [] None 1 (Fin 0) None] None 0 (Fin 0) None"

definition demo_item_text :: "u8 list" where
  "demo_item_text = [91, 34, 97, 92, 110, 34, 44, 32, 116, 114, 117, 101, 93]"

lemma demo_item_render: "render True 0 demo_item = Some demo_item_text"
  by (simp add: demo_item_def demo_item_text_def cJSON_types quoted_def escape_char_eq cview_def json_true_def)

theorem cjson_print_text_witness: "cJSON_Print (\<lambda>size i. 255) False (Some demo_item) = Inr (Some (cstring demo_item_text))"
  using cjson_print_text [OF demo_item_render, of "\<lambda>size i. 255" False] by (simp add: cJSON_Print_def demo_item_text_def INT_MAX_def)

theorem cjson_print_preallocated_witness:
  "\<exists>buf. cJSON_PrintPreallocated (\<lambda>size i. 0) True (Some demo_item) (Some (replicate 20 255)) 15 True = Inr (True, Some buf) \<and>
    take (length demo_item_text + 1) buf = cstring demo_item_text \<and> drop 15 buf = replicate 5 255"
proof -
  obtain ok buf where "cJSON_PrintPreallocated (\<lambda>size i. 0) True (Some demo_item) (Some (replicate 20 255)) 15 True = Inr (ok, Some buf)"
    "drop (nat 15) buf = drop (nat 15) (replicate 20 255)"
    "\<forall>tx. render True 0 demo_item = Some tx \<and> length tx + 2 \<le> nat 15 \<longrightarrow> ok \<and> take (length tx + 1) buf = cstring tx"
    using cjson_print_preallocated [of 15 "replicate 20 255" "\<lambda>size i. 0" True demo_item True] by (auto simp: INT_MAX_def)
  then show ?thesis using demo_item_render by (simp add: demo_item_text_def)
qed

end
