(* ===== verification/Bitmap.thy ===== *)
theory Bitmap
  imports Prelude
begin

text \<open>
  The number allocator of \<open>include/util/bitmap.h\<close> and the arithmetic helpers of \<open>include/common/common.h\<close>. The locale
  \<open>id_pool\<close> says what a pool of numbers promises; the bitmap is an instance of it as long as its mutex leaves the words alone.
\<close>

section \<open>Helpers of \<open>common.h\<close>\<close>

definition ALIGN_UP :: "u64 \<Rightarrow> u64 \<Rightarrow> u64" where
  "ALIGN_UP a siz = (a + siz - 1) AND NOT (siz - 1)"

definition ALIGN_DOWN :: "u64 \<Rightarrow> u64 \<Rightarrow> u64" where
  "ALIGN_DOWN a siz = a AND NOT (siz - 1)"

definition th_rand :: "u32 \<Rightarrow> u32 \<times> u32" where
  "th_rand seed = (let s = ucast ((ucast seed :: u64) * 1103515245 + 12345) in (s, s))"

definition long_hash :: "u64 \<Rightarrow> u64" where
  "long_hash v = push_bit 53 v OR drop_bit 11 v"

text \<open>\<open>char\<close> is signed: a byte of 128 or more is subtracted from.\<close>

fun str_hash_loop :: "u8 list \<Rightarrow> nat \<Rightarrow> u64 \<Rightarrow> crash + u64" where
  "str_hash_loop s 0 res = Inr res"
| "str_hash_loop [] (Suc n) res = Inl OutOfBounds"
| "str_hash_loop (c # s) (Suc n) res = str_hash_loop s n (res * 131 + scast c)"

definition str_hash :: "u8 list \<Rightarrow> int \<Rightarrow> crash + u64" where
  "str_hash s len = str_hash_loop s (nat len) 0"

section \<open>The bitmap\<close>

record bitmap =
  bm_cnt :: u64
  bm_free_cnt :: u64
  bm_siz :: u64
  bm_data :: "u64 list"

definition create_bitmap :: "u64 \<Rightarrow> bitmap" where
  "create_bitmap cnt =
     (let siz = ALIGN_UP cnt 64;
          data = replicate (unat (siz div 64)) 0
      in \<lparr>bm_cnt = cnt, bm_free_cnt = cnt, bm_siz = siz,
          bm_data = fold (\<lambda>i data. data[i div 64 := data ! (i div 64) OR push_bit (i mod 64) 1]) [unat cnt..<unat siz] data\<rparr>)"

definition ffsl :: "u64 \<Rightarrow> nat" where
  "ffsl v = (case find (bit v) [0..<64] of None \<Rightarrow> 0 | Some k \<Rightarrow> k + 1)"

text \<open>
  Every operation holds the mutex, which is declared behind the words but lies on top of them: the array has no
  elements of its own. What locking and unlocking do to the words is the pair of functions \<open>lock\<close> and \<open>unlock\<close>.
  Under the lock the compare-and-swap loops succeed in their first round.
\<close>

definition bitmap_full :: "bitmap \<Rightarrow> bool" where
  "bitmap_full bp \<longleftrightarrow> bm_free_cnt bp = 0"

fun find_word :: "u64 list \<Rightarrow> nat \<Rightarrow> (nat \<times> nat) option" where
  "find_word [] i = None"
| "find_word (w # ws) i = (if w = - 1 then find_word ws (i + 1) else Some (i, ffsl (w + 1) - 1))"

definition get_free_locked :: "bitmap \<Rightarrow> crash + int \<times> bitmap" where
  "get_free_locked bp =
     (if bm_free_cnt bp = 0 then Inr (- 1, bp)
      else
        let bp = bp\<lparr>bm_free_cnt := bm_free_cnt bp - 1\<rparr>
        in case find_word (take (unat (bm_siz bp div 64)) (bm_data bp)) 0 of
             None \<Rightarrow> Inl PAssert
           | Some (i, j) \<Rightarrow>
               Inr (sint (ucast (push_bit 6 (of_nat i) OR of_nat j :: u64) :: u32),
                 bp\<lparr>bm_data := (bm_data bp)[i := bm_data bp ! i OR push_bit j 1]\<rparr>))"

definition put_back_locked :: "int \<Rightarrow> bitmap \<Rightarrow> crash + bitmap" where
  "put_back_locked bk bp =
     (let i = bk div 64; j = nat (bk mod 64)
      in if i < 0 \<or> int (length (bm_data bp)) \<le> i then Inl OutOfBounds
         else if \<not> bit (bm_data bp ! nat i) j then Inl PAssert
         else Inr (bp\<lparr>bm_data := (bm_data bp)[nat i := bm_data bp ! nat i XOR push_bit j 1],
                     bm_free_cnt := bm_free_cnt bp + 1\<rparr>))"

definition on_data :: "(u64 list \<Rightarrow> u64 list) \<Rightarrow> bitmap \<Rightarrow> bitmap" where
  "on_data f bp = bp\<lparr>bm_data := f (bm_data bp)\<rparr>"

definition get_free :: "(u64 list \<Rightarrow> u64 list) \<Rightarrow> (u64 list \<Rightarrow> u64 list) \<Rightarrow> bitmap \<Rightarrow> crash + int \<times> bitmap" where
  "get_free lock unlock bp =
     andThen (get_free_locked (on_data lock bp)) (\<lambda>(k, bp). Inr (k, on_data unlock bp))"

definition put_back :: "(u64 list \<Rightarrow> u64 list) \<Rightarrow> (u64 list \<Rightarrow> u64 list) \<Rightarrow> int \<Rightarrow> bitmap \<Rightarrow> crash + bitmap" where
  "put_back lock unlock bk bp =
     andThen (put_back_locked bk (on_data lock bp)) (\<lambda>bp. Inr (on_data unlock bp))"

lemma low_ones:
  assumes "k < 64" "\<And>j. j < k \<Longrightarrow> bit (w :: u64) j" "\<not> bit w k" "m = Suc k"
  shows "w + 1 = push_bit k 1 OR push_bit m (drop_bit m w)"
proof -
  let ?d = "push_bit m (drop_bit m w)"
  have m: "n < m \<longleftrightarrow> n < k \<or> n = k" for n using assms(4) by auto
  have "bit w n = bit (mask k OR ?d) n" if "n < 64" for n
    using assms(2) [of n] assms(3) m [of n] that
    by (cases "n < k"; cases "n = k") (auto simp: bit_or_iff bit_mask_iff bit_push_bit_iff bit_drop_bit_eq not_less)
  then have "w = mask k OR ?d" by (intro bit_word_eqI) simp
  moreover have "mask k AND ?d = 0" "push_bit k 1 AND ?d = 0"
    using assms(4) by (auto intro!: bit_word_eqI simp: bit_and_iff bit_mask_iff bit_push_bit_iff bit_1_iff bit_exp_iff simp del: push_bit_Suc)
  ultimately have s: "w = mask k + ?d" "push_bit k 1 OR ?d = push_bit k 1 + ?d"
    using disjunctive_add_eq_or [of "mask k" ?d] disjunctive_add_eq_or [of "push_bit k 1" ?d] by simp_all
  have "w + 1 = (mask k + ?d) + 1" using s(1) by (rule arg_cong)
  also have "\<dots> = push_bit k 1 + ?d" by (simp add: mask_eq_exp_minus_1)
  finally show ?thesis by (simp only: s(2))
qed

lemma find_upt:
  assumes "k < n" "P k" "\<And>j. j < k \<Longrightarrow> \<not> P j"
  shows "find P [0..<n] = Some k"
proof -
  have "[0..<n] = [0..<k] @ k # [Suc k..<n]" using assms(1) upt_add_eq_append [of 0 k "n - k"] by (simp add: upt_conv_Cons)
  moreover have "find P (xs @ k # ys) = Some k" if "\<forall>x\<in>set xs. \<not> P x" for xs ys
    using that assms(2) by (induction xs) auto
  ultimately show ?thesis using assms(3) by auto
qed

lemma ffsl_low_ones:
  assumes "k < 64" "\<And>j. j < k \<Longrightarrow> bit (w :: u64) j" "\<not> bit w k"
  shows "ffsl (w + 1) = Suc k"
proof -
  define d where "d = push_bit (Suc k) (drop_bit (Suc k) w)"
  have e: "w + 1 = push_bit k 1 OR d" unfolding d_def by (rule low_ones [OF assms refl])
  have "bit (w + 1) j \<longleftrightarrow> j = k" if "j \<le> k" for j
    unfolding e using that assms(1) by (auto simp: bit_or_iff bit_push_bit_iff bit_1_iff bit_exp_iff d_def simp del: push_bit_Suc)
  then have "find (bit (w + 1)) [0..<64] = Some k" by (intro find_upt) (use assms(1) in auto)
  then show ?thesis by (simp add: ffsl_def)
qed

lemma first_clear:
  assumes "(w :: u64) \<noteq> - 1"
  obtains k where "k < 64" "\<And>j. j < k \<Longrightarrow> bit w j" "\<not> bit w k" "ffsl (w + 1) - 1 = k"
proof -
  have "\<exists>k. k < 64 \<and> \<not> bit w k"
  proof (rule ccontr)
    assume "\<not> ?thesis"
    then have "w = - 1" by (intro bit_word_eqI) (auto simp: bit_minus_1_iff)
    then show False using assms by simp
  qed
  then obtain k where k: "k < 64 \<and> \<not> bit w k" "\<And>j. j < k \<Longrightarrow> \<not> (j < 64 \<and> \<not> bit w j)"
    using exists_least_iff [of "\<lambda>k. k < 64 \<and> \<not> bit w k"] by blast
  then have "ffsl (w + 1) = Suc k" by (intro ffsl_low_ones) auto
  then show ?thesis using k by (intro that [of k]) auto
qed

section \<open>The set of numbers in use\<close>

definition used :: "u64 list \<Rightarrow> nat set" where
  "used ws = {k. k < 64 * length ws \<and> bit (ws ! (k div 64)) (k mod 64)}"

definition bm_ok :: "bitmap \<Rightarrow> bool" where
  "bm_ok bp \<longleftrightarrow> 64 * length (bm_data bp) = unat (bm_siz bp) \<and> unat (bm_cnt bp) \<le> unat (bm_siz bp) \<and>
     {unat (bm_cnt bp)..<unat (bm_siz bp)} \<subseteq> used (bm_data bp) \<and>
     unat (bm_free_cnt bp) = card ({..<unat (bm_cnt bp)} - used (bm_data bp))"

definition unused :: "bitmap \<Rightarrow> nat set" where
  "unused bp = {..<unat (bm_cnt bp)} - used (bm_data bp)"

lemma div_eq_mod_eq: "(k div 64 = l div 64 \<and> k mod 64 = l mod 64) = (k = (l :: nat))"
  by (metis div_mult_mod_eq)

lemma used_set:
  assumes "k < 64 * length ws"
  shows "used (ws[k div 64 := ws ! (k div 64) OR push_bit (k mod 64) 1]) = insert k (used ws)"
proof -
  have d: "k div 64 < length ws" using assms by (simp add: less_mult_imp_div_less mult.commute)
  have "bit (ws[k div 64 := ws ! (k div 64) OR push_bit (k mod 64) 1] ! (l div 64)) (l mod 64) \<longleftrightarrow>
      bit (ws ! (l div 64)) (l mod 64) \<or> l = k" if "l < 64 * length ws" for l
    using d that div_eq_mod_eq [of l k]
    by (auto simp: nth_list_update bit_or_iff bit_push_bit_iff bit_1_iff bit_exp_iff)
  then show ?thesis using assms by (auto simp: used_def)
qed

lemma used_clear:
  assumes "k \<in> used ws"
  shows "used (ws[k div 64 := ws ! (k div 64) XOR push_bit (k mod 64) 1]) = used ws - {k}"
proof -
  have k: "k < 64 * length ws" "bit (ws ! (k div 64)) (k mod 64)" using assms by (auto simp: used_def)
  have d: "k div 64 < length ws" using k by (simp add: less_mult_imp_div_less mult.commute)
  have "bit (ws[k div 64 := ws ! (k div 64) XOR push_bit (k mod 64) 1] ! (l div 64)) (l mod 64) \<longleftrightarrow>
      bit (ws ! (l div 64)) (l mod 64) \<and> l \<noteq> k" if "l < 64 * length ws" for l
    using d that k(2) div_eq_mod_eq [of l k]
    by (auto simp: nth_list_update bit_xor_iff bit_push_bit_iff bit_1_iff bit_exp_iff)
  then show ?thesis by (auto simp: used_def)
qed

lemma find_word_None: "find_word ws i = None \<longleftrightarrow> (\<forall>w\<in>set ws. w = - 1)"
  by (induction ws i rule: find_word.induct) auto

lemma find_word_Some:
  "find_word ws i0 = Some (i, j) \<Longrightarrow> \<exists>n. i = i0 + n \<and> n < length ws \<and> j < 64 \<and> \<not> bit (ws ! n) j \<and>
    (\<forall>l<j. bit (ws ! n) l) \<and> (\<forall>m<n. ws ! m = - 1)"
proof (induction ws i0 rule: find_word.induct)
  case (2 w ws i0)
  show ?case
  proof (cases "w = - 1")
    case True
    then obtain n where "i = i0 + 1 + n" "n < length ws" "j < 64" "\<not> bit (ws ! n) j"
        "\<forall>l<j. bit (ws ! n) l" "\<forall>m<n. ws ! m = - 1"
      using 2 by auto
    then show ?thesis using True by (intro exI [of _ "Suc n"]) (auto simp: nth_Cons split: nat.splits)
  next
    case False
    then show ?thesis using 2 first_clear [OF False] by (intro exI [of _ 0]) (auto elim!: first_clear)
  qed
qed simp

lemma find_word_least:
  assumes "find_word ws 0 = Some (i, j)"
  shows "i < length ws" "j < 64" "64 * i + j \<notin> used ws" "\<And>l. l < 64 * i + j \<Longrightarrow> l \<in> used ws"
proof -
  from find_word_Some [OF assms] have n: "i < length ws" "j < 64" "\<not> bit (ws ! i) j"
      "\<forall>l<j. bit (ws ! i) l" "\<forall>m<i. ws ! m = - 1" by auto
  show "i < length ws" "j < 64" using n by auto
  show "64 * i + j \<notin> used ws" using n by (simp add: used_def)
  fix l assume l: "l < 64 * i + j"
  show "l \<in> used ws"
  proof (cases "l div 64 = i")
    case True
    then have "l = 64 * i + l mod 64" by (metis mult_div_mod_eq)
    then have "l mod 64 < j" using l by linarith
    then show ?thesis using True n l by (auto simp: used_def)
  next
    case False
    have "l div 64 < Suc i" using l n(2) by (simp add: div_less_iff_less_mult)
    then have "l div 64 < i" using False by simp
    then have "ws ! (l div 64) = - 1" using n by auto
    then show ?thesis using l n(1,2) by (simp add: used_def bit_minus_1_iff)
  qed
qed

lemma push_or_index:
  assumes "j < 64"
  shows "(push_bit 6 (of_nat i) OR of_nat j :: u64) = of_nat (64 * i + j)"
proof -
  have "push_bit 6 i AND j = 0"
  proof (rule bit_eqI)
    fix n
    have "take_bit 6 j = j" using assms by (simp add: take_bit_nat_eq_self)
    then have "bit j n \<Longrightarrow> n < 6" by (metis bit_take_bit_iff)
    then show "bit (push_bit 6 i AND j) n = bit (0 :: nat) n" by (auto simp: bit_and_iff bit_push_bit_iff)
  qed
  then have "push_bit 6 i OR j = push_bit 6 i + j" by (simp add: disjunctive_add_eq_or)
  moreover have "(push_bit 6 (of_nat i) OR of_nat j :: u64) = of_nat (push_bit 6 i OR j)"
    by (simp add: of_nat_or_eq push_bit_of_nat)
  ultimately show ?thesis by (simp add: push_bit_eq_mult mult.commute)
qed

lemma bm_ok_card: "bm_ok bp \<Longrightarrow> unat (bm_free_cnt bp) = card (unused bp)"
  by (simp add: bm_ok_def unused_def)

lemma get_free_full:
  assumes "bm_ok bp" "unused bp = {}"
  shows "get_free_locked bp = Inr (- 1, bp)"
  using bm_ok_card [OF assms(1)] assms(2) by (simp add: get_free_locked_def unat_eq_0)

lemma get_free_least:
  assumes ok: "bm_ok bp" and ne: "unused bp \<noteq> {}" and small: "unat (bm_cnt bp) \<le> 2 ^ 31"
  shows "\<exists>k bp'. get_free_locked bp = Inr (int k, bp') \<and> k \<in> unused bp \<and> (\<forall>l\<in>unused bp. k \<le> l) \<and>
    bm_ok bp' \<and> unused bp' = unused bp - {k} \<and> bm_cnt bp' = bm_cnt bp"
proof -
  let ?ws = "bm_data bp"
  have len: "64 * length ?ws = unat (bm_siz bp)" and cs: "unat (bm_cnt bp) \<le> unat (bm_siz bp)"
    and top: "{unat (bm_cnt bp)..<unat (bm_siz bp)} \<subseteq> used ?ws" using ok by (auto simp: bm_ok_def)
  have fin: "finite (unused bp)" by (simp add: unused_def)
  have card: "unat (bm_free_cnt bp) = card (unused bp)" by (rule bm_ok_card [OF ok])
  then have fr: "bm_free_cnt bp \<noteq> 0" using ne fin by auto
  have tk: "take (unat (bm_siz bp div 64)) ?ws = ?ws" by (simp add: unat_div len [symmetric])
  obtain u where u: "u \<in> unused bp" using ne by auto
  have "find_word ?ws 0 \<noteq> None"
  proof
    assume "find_word ?ws 0 = None"
    then have "\<forall>w\<in>set ?ws. w = - 1" by (simp add: find_word_None)
    moreover have "u div 64 < length ?ws" using u cs len by (auto simp: unused_def div_less_iff_less_mult)
    ultimately have "?ws ! (u div 64) = - 1" by simp
    then show False using u cs len by (auto simp: unused_def used_def bit_minus_1_iff)
  qed
  then obtain i j where f: "find_word ?ws 0 = Some (i, j)" by fastforce
  note l = find_word_least [OF f]
  define k where "k = 64 * i + j"
  have ksiz: "k < 64 * length ?ws" using l(1,2) by (simp add: k_def)
  have kcnt: "k < unat (bm_cnt bp)"
  proof (rule ccontr)
    assume "\<not> ?thesis"
    then have "k \<in> {unat (bm_cnt bp)..<unat (bm_siz bp)}" using ksiz len by simp
    then show False using top l(3) by (auto simp: k_def)
  qed
  have ku: "k \<in> unused bp" using kcnt l(3) by (simp add: unused_def k_def)
  have least: "\<forall>l\<in>unused bp. k \<le> l" using l(4) by (auto simp: unused_def k_def not_less [symmetric])
  have kd: "k div 64 = i" "k mod 64 = j" using l(2) by (simp_all add: k_def)
  let ?bp = "bp\<lparr>bm_free_cnt := bm_free_cnt bp - 1, bm_data := ?ws[i := ?ws ! i OR push_bit j 1]\<rparr>"
  have us: "used (bm_data ?bp) = insert k (used ?ws)" using used_set [OF ksiz] by (simp add: kd)
  have un: "unused ?bp = unused bp - {k}" unfolding unused_def us by auto
  have "unat (bm_free_cnt bp - 1) = card (unused bp) - 1" using fr card by (simp add: unat_minus_one)
  then have "unat (bm_free_cnt ?bp) = card (unused ?bp)" using un ku fin by simp
  then have "bm_ok ?bp" using len cs top us by (auto simp: bm_ok_def unused_def)
  moreover have "sint (ucast (push_bit 6 (of_nat i) OR of_nat j :: u64) :: u32) = int k"
    using sint_of_nat32 [of k] kcnt small by (simp add: push_or_index [OF l(2)] k_def [symmetric] unsigned_of_nat take_bit_nat_eq_self)
  then have "get_free_locked bp = Inr (int k, ?bp)" using fr f tk by (simp add: get_free_locked_def)
  ultimately show ?thesis using ku least un by auto
qed

lemma put_back_frees:
  assumes ok: "bm_ok bp" and k: "k < unat (bm_cnt bp)" "k \<in> used (bm_data bp)"
  shows "\<exists>bp'. put_back_locked (int k) bp = Inr bp' \<and> bm_ok bp' \<and> unused bp' = insert k (unused bp) \<and> bm_cnt bp' = bm_cnt bp"
proof -
  let ?ws = "bm_data bp"
  have len: "64 * length ?ws = unat (bm_siz bp)" and cs: "unat (bm_cnt bp) \<le> unat (bm_siz bp)"
    and top: "{unat (bm_cnt bp)..<unat (bm_siz bp)} \<subseteq> used ?ws" using ok by (auto simp: bm_ok_def)
  have b: "k < 64 * length ?ws" "bit (?ws ! (k div 64)) (k mod 64)" using k(2) by (auto simp: used_def)
  have d: "k div 64 < length ?ws" using b(1) by (simp add: div_less_iff_less_mult)
  let ?bp = "bp\<lparr>bm_data := ?ws[k div 64 := ?ws ! (k div 64) XOR push_bit (k mod 64) 1], bm_free_cnt := bm_free_cnt bp + 1\<rparr>"
  have us: "used (bm_data ?bp) = used ?ws - {k}" using used_clear [OF k(2)] by simp
  have un: "unused ?bp = insert k (unused bp)" using k(1) unfolding unused_def us by auto
  have nk: "k \<notin> unused bp" "finite (unused bp)" using k(2) by (auto simp: unused_def)
  have "card (insert k (unused bp)) \<le> card {..<unat (bm_cnt bp)}"
    using k(1) by (intro card_mono) (auto simp: unused_def)
  then have "unat (bm_free_cnt bp) + 1 \<le> unat (bm_cnt bp)" using nk bm_ok_card [OF ok] by simp
  then have "unat (bm_free_cnt bp + 1) = unat (bm_free_cnt bp) + 1"
    using unsigned_less [of "bm_cnt bp", where ?'a = nat] by (simp add: unat_plus_if')
  then have "unat (bm_free_cnt ?bp) = card (unused ?bp)" using un nk bm_ok_card [OF ok] by simp
  then have "bm_ok ?bp" using len cs top us k(1) by (auto simp: bm_ok_def unused_def)
  moreover have "put_back_locked (int k) bp = Inr ?bp"
    using d b(2) zdiv_int [of k 64, symmetric] zmod_int [of k 64, symmetric] by (simp add: put_back_locked_def Let_def)
  ultimately show ?thesis using un by auto
qed

lemma put_back_unused:
  assumes ok: "bm_ok bp" and k: "k \<in> unused bp"
  shows "put_back_locked (int k) bp = Inl PAssert"
proof -
  have "k < 64 * length (bm_data bp)" "\<not> bit (bm_data bp ! (k div 64)) (k mod 64)"
    using ok k by (auto simp: bm_ok_def unused_def used_def)
  moreover from this have "k div 64 < length (bm_data bp)" by (simp add: div_less_iff_less_mult)
  ultimately show ?thesis
    using zdiv_int [of k 64, symmetric] zmod_int [of k 64, symmetric] by (simp add: put_back_locked_def Let_def)
qed

lemma unat_and_not_63: "unat (a AND NOT 63 :: u64) = unat a div 64 * 64"
proof -
  have "NOT 63 = (NOT (mask 6) :: u64)" by (simp add: mask_eq_exp_minus_1)
  moreover have "unat (a AND NOT (mask 6)) = push_bit 6 (drop_bit 6 (unat a))"
    by (rule bit_eqI) (auto simp: bit_and_iff bit_not_iff bit_mask_iff bit_push_bit_iff bit_drop_bit_eq bit_unsigned_iff dest: bit_imp_le_length)
  ultimately show ?thesis by (simp add: push_bit_eq_mult drop_bit_eq_div)
qed

lemma ALIGN_UP_64:
  assumes "unat cnt \<le> 2 ^ 64 - 64"
  shows "unat (ALIGN_UP cnt 64) = (unat cnt + 63) div 64 * 64"
proof -
  have "cnt + 64 - 1 = cnt + 63" by simp
  moreover have "unat (cnt + 63) = unat cnt + 63" using assms by (simp add: unat_plus_if')
  ultimately have "unat ((cnt + 64 - 1) AND NOT 63) = (unat cnt + 63) div 64 * 64" by (simp only: unat_and_not_63)
  then show ?thesis by (simp add: ALIGN_UP_def)
qed

lemma used_fold:
  assumes "set is \<subseteq> {..<64 * length ws}"
  shows "used (fold (\<lambda>i data. data[i div 64 := data ! (i div 64) OR push_bit (i mod 64) 1]) is ws) = used ws \<union> set is \<and>
    length (fold (\<lambda>i data. data[i div 64 := data ! (i div 64) OR push_bit (i mod 64) 1]) is ws) = length ws"
  using assms
proof (induction "is" arbitrary: ws)
  case (Cons i js)
  have "i < 64 * length ws" using Cons.prems by simp
  then show ?case using Cons.IH [of "ws[i div 64 := ws ! (i div 64) OR push_bit (i mod 64) 1]"] Cons.prems used_set [of i ws] by auto
qed simp

lemma create_bitmap_ok:
  assumes "unat cnt \<le> 2 ^ 64 - 64"
  shows "bm_ok (create_bitmap cnt) \<and> unused (create_bitmap cnt) = {..<unat cnt} \<and> bm_cnt (create_bitmap cnt) = cnt"
proof -
  let ?siz = "ALIGN_UP cnt 64" and ?z = "replicate (unat (ALIGN_UP cnt 64 div 64)) (0 :: u64)"
  note s = ALIGN_UP_64 [OF assms]
  have len: "64 * length ?z = unat ?siz" using s by (simp add: unat_div)
  have cs: "unat cnt \<le> unat ?siz" unfolding s by simp
  have "used ?z = {}" by (auto simp: used_def div_less_iff_less_mult)
  moreover have "set [unat cnt..<unat ?siz] \<subseteq> {..<64 * length ?z}" unfolding len by auto
  ultimately have "used (bm_data (create_bitmap cnt)) = {unat cnt..<unat ?siz}" "length (bm_data (create_bitmap cnt)) = length ?z"
    using used_fold [of "[unat cnt..<unat ?siz]" ?z] by (simp_all add: create_bitmap_def Let_def)
  moreover have "{..<unat cnt} - {unat cnt..<unat ?siz} = {..<unat cnt}" by auto
  ultimately show ?thesis using len cs by (simp add: bm_ok_def unused_def create_bitmap_def Let_def)
qed

section \<open>A pool of numbers\<close>

fun take_ids :: "('s \<Rightarrow> crash + int \<times> 's) \<Rightarrow> nat \<Rightarrow> 's \<Rightarrow> crash + int list \<times> 's" where
  "take_ids get 0 s = Inr ([], s)"
| "take_ids get (Suc n) s = andThen (get s) (\<lambda>(k, s). andThen (take_ids get n s) (\<lambda>(ks, s). Inr (k # ks, s)))"

locale id_pool =
  fixes inv :: "'s \<Rightarrow> bool" and free :: "'s \<Rightarrow> nat set" and cap :: "'s \<Rightarrow> nat"
    and get :: "'s \<Rightarrow> crash + int \<times> 's" and put :: "int \<Rightarrow> 's \<Rightarrow> crash + 's"
  assumes free_cap: "inv s \<Longrightarrow> free s \<subseteq> {..<cap s}"
    and get_none: "inv s \<Longrightarrow> free s = {} \<Longrightarrow> get s = Inr (- 1, s)"
    and get_some: "inv s \<Longrightarrow> k \<in> free s \<Longrightarrow> (\<And>l. l \<in> free s \<Longrightarrow> k \<le> l) \<Longrightarrow>
      \<exists>s'. get s = Inr (int k, s') \<and> inv s' \<and> free s' = free s - {k} \<and> cap s' = cap s"
    and put_some: "inv s \<Longrightarrow> k < cap s \<Longrightarrow> k \<notin> free s \<Longrightarrow>
      \<exists>s'. put (int k) s = Inr s' \<and> inv s' \<and> free s' = insert k (free s) \<and> cap s' = cap s"
begin

lemma take_from:
  assumes "inv s" "free s = {a..<cap s}" "a + n \<le> cap s"
  shows "\<exists>s'. take_ids get n s = Inr (map int [a..<a + n], s') \<and> inv s' \<and> free s' = {a + n..<cap s} \<and> cap s' = cap s"
  using assms
proof (induction n arbitrary: s a)
  case (Suc n)
  have "a \<in> free s" "\<And>l. l \<in> free s \<Longrightarrow> a \<le> l" using Suc.prems(2,3) by simp_all
  from get_some [OF Suc.prems(1) this] obtain s1 where
    s1: "get s = Inr (int a, s1)" "inv s1" "free s1 = free s - {a}" "cap s1 = cap s" by blast
  have f1: "free s1 = {Suc a..<cap s1}" unfolding s1(3,4) Suc.prems(2) by auto
  have "Suc a + n \<le> cap s1" using s1(4) Suc.prems(3) by simp
  from Suc.IH [OF s1(2) f1 this] obtain s' where
    "take_ids get n s1 = Inr (map int [Suc a..<Suc a + n], s')" "inv s'" "free s' = {Suc a + n..<cap s1}" "cap s' = cap s1" by blast
  moreover have "[a..<a + Suc n] = a # [Suc a..<Suc a + n]" by (subst upt_conv_Cons) (simp_all del: upt_Suc)
  moreover have "Suc a + n = a + Suc n" by simp
  ultimately show ?case using s1(1,4) by (intro exI [of _ s']) (simp only: take_ids.simps andThen.simps prod.case list.map)
qed simp

lemma put_then_get:
  assumes "inv s" "k < cap s" "k \<notin> free s" "\<And>l. l \<in> free s \<Longrightarrow> k < l"
  shows "\<exists>s' s''. put (int k) s = Inr s' \<and> get s' = Inr (int k, s'') \<and> inv s'' \<and> free s'' = free s"
proof -
  obtain s' where s': "put (int k) s = Inr s'" "inv s'" "free s' = insert k (free s)" "cap s' = cap s"
    using put_some [OF assms(1-3)] by blast
  have "k \<in> free s'" "\<And>l. l \<in> free s' \<Longrightarrow> k \<le> l" using s'(3) assms(4) less_imp_le by auto
  from get_some [OF s'(2) this] obtain s'' where "get s' = Inr (int k, s'')" "inv s''" "free s'' = free s' - {k}" by blast
  then show ?thesis using s' assms(3) by auto
qed

end

lemma bitmap_get_some:
  assumes "bm_ok bp" "unat (bm_cnt bp) \<le> 2 ^ 31" "k \<in> unused bp" "\<And>l. l \<in> unused bp \<Longrightarrow> k \<le> l"
  shows "\<exists>bp'. get_free_locked bp = Inr (int k, bp') \<and> bm_ok bp' \<and> unused bp' = unused bp - {k} \<and> bm_cnt bp' = bm_cnt bp"
proof -
  have "unused bp \<noteq> {}" using assms(3) by auto
  from get_free_least [OF assms(1) this assms(2)] obtain k' bp' where *: "get_free_locked bp = Inr (int k', bp')"
    "k' \<in> unused bp" "\<forall>l\<in>unused bp. k' \<le> l" "bm_ok bp'" "unused bp' = unused bp - {k'}" "bm_cnt bp' = bm_cnt bp" by blast
  moreover have "k' = k" using *(2,3) assms(3,4) by (simp add: antisym)
  ultimately show ?thesis by blast
qed

lemma bitmap_put_some:
  assumes "bm_ok bp" "k < unat (bm_cnt bp)" "k \<notin> unused bp"
  shows "\<exists>bp'. put_back_locked (int k) bp = Inr bp' \<and> bm_ok bp' \<and> unused bp' = insert k (unused bp) \<and> bm_cnt bp' = bm_cnt bp"
  using put_back_frees [OF assms(1,2)] assms(2,3) by (auto simp: unused_def)

interpretation bits: id_pool "\<lambda>bp. bm_ok bp \<and> unat (bm_cnt bp) \<le> 2 ^ 31" unused "\<lambda>bp. unat (bm_cnt bp)" get_free_locked put_back_locked
proof (unfold_locales, goal_cases)
  case (1 s) then show ?case by (auto simp: unused_def)
next
  case (2 s) then show ?case by (simp add: get_free_full)
next
  case (3 s k)
  show ?case using bitmap_get_some [OF _ _ 3(2,3)] 3(1) by auto
next
  case (4 s k)
  show ?case using bitmap_put_some [OF _ 4(2,3)] 4(1) by auto
qed

lemma on_data_id: "(\<And>ws. f ws = ws) \<Longrightarrow> on_data f bp = bp"
  by (simp add: on_data_def)

lemma get_free_quiet:
  assumes "\<And>ws. lock ws = ws" "\<And>ws. unlock ws = ws"
  shows "get_free lock unlock = get_free_locked"
proof
  fix bp show "get_free lock unlock bp = get_free_locked bp"
    using assms by (cases "get_free_locked bp") (auto simp: get_free_def on_data_id)
qed

lemma put_back_quiet:
  assumes "\<And>ws. lock ws = ws" "\<And>ws. unlock ws = ws"
  shows "put_back lock unlock bk bp = put_back_locked bk bp"
  using assms by (cases "put_back_locked bk bp") (auto simp: put_back_def on_data_id)



text \<open>
  With a mutex that stores a one in its first word while it is held and a zero when it is released, the number
  0 is never handed out and the number 1 is handed out twice.
\<close>

lemma mutex_over_words:
  assumes "lock [0] = [1]" "unlock [3] = [0]"
  shows "take_ids (get_free lock unlock) (Suc (Suc 0)) (create_bitmap 64) =
    Inr ([1, 1], \<lparr>bm_cnt = 64, bm_free_cnt = 62, bm_siz = 64, bm_data = [0]\<rparr>)"
proof -
  have c: "create_bitmap 64 = \<lparr>bm_cnt = 64, bm_free_cnt = 64, bm_siz = 64, bm_data = [0]\<rparr>" by code_simp
  have "get_free_locked \<lparr>bm_cnt = 64, bm_free_cnt = c, bm_siz = 64, bm_data = [1]\<rparr> =
    Inr (1, \<lparr>bm_cnt = 64, bm_free_cnt = c - 1, bm_siz = 64, bm_data = [3]\<rparr>)" if "c \<noteq> 0" for c
    using that ffsl_low_ones [of 1 1] by (simp add: get_free_locked_def bit_1_iff)
  then have "get_free lock unlock \<lparr>bm_cnt = 64, bm_free_cnt = c, bm_siz = 64, bm_data = [0]\<rparr> =
    Inr (1, \<lparr>bm_cnt = 64, bm_free_cnt = c - 1, bm_siz = 64, bm_data = [0]\<rparr>)" if "c \<noteq> 0" for c
    using that assms by (simp add: get_free_def on_data_def)
  from this [of 64] this [of 63] show ?thesis by (simp add: c)
qed

text \<open>Rotating right by eleven bits loses nothing.\<close>

lemma bit_long_hash: "n < 64 \<Longrightarrow> bit (long_hash v) n = bit v ((n + 11) mod 64)"
proof -
  assume n: "n < 64"
  have "(n + 11) mod 64 = (if n < 53 then n + 11 else n - 53)" using n by (simp add: mod_if)
  moreover have "\<not> bit v (11 + n)" if "53 \<le> n" using that bit_imp_le_length [of v "11 + n"] by auto
  ultimately show ?thesis using n by (auto simp: long_hash_def bit_or_iff bit_push_bit_iff bit_drop_bit_eq add.commute)
qed

lemma long_hash_inj: "inj long_hash"
proof (intro injI bit_word_eqI)
  fix v w :: u64 and n assume e: "long_hash v = long_hash w" and "n < LENGTH(64)"
  then have "((n + 53) mod 64 + 11) mod 64 = n" by (simp add: mod_simps)
  then show "bit v n = bit w n" using bit_long_hash [of "(n + 53) mod 64"] e by (metis mod_less_divisor zero_less_numeral)
qed

end
