(* ===== verification/Spec2Isabelle.thy ===== *)
theory Spec2Isabelle
  imports MigrationProps ReaddirProps SystemCalls Sync StartUp CJsonOwned CJsonPrint Bitmap
begin

text \<open>
  MetaFS (cszzy/rocksfs): a distributed file-system metadata service. An application is started with a
  preloaded library that intercepts its system calls; calls below a mount point become remote procedure calls to
  metadata servers, which keep names and attributes in a key-value store and split and migrate regions of the
  directory hash space between their threads. Paths below are relative to \<open>src/\<close>.

  \<^bold>\<open>Parts and theories.\<close>

  \<^item> \<open>Prelude\<close>: machine integers, the type \<open>crash\<close> of the ways to die and its sequencing \<open>andThen\<close>, raw memory with
    little-endian loads and stores, NUL-terminated strings.

  \<^item> \<open>JumpHash\<close> (\<open>include/util/jump_hash.h\<close>): \<open>JumpConsistentHash\<close> with every floating-point step rounded to binary64. The
    loop ends, the bucket is in range, adding a bucket moves keys only into it.

  \<^item> \<open>Lru\<close> (\<open>include/common/lrucache.h\<close>, \<open>include/client/dentry_cache.h\<close>): the cache as a list of nodes with iterators and a
    hash map to them; insertion refines a recency list, no iterator dangles; the directory-entry cache on top.

  \<^item> \<open>OpenFiles\<close> (\<open>src/client/open_file_map.cc\<close>, \<open>src/client/open_dir.cc\<close> and headers): open-file objects in an object store, as
    descriptors made by \<open>dup\<close> share them; generation of descriptors; invariant of the table.

  \<^item> \<open>FsTypes\<close>, \<open>Wire\<close>, \<open>Stores\<close> (\<open>include/common/fs.h\<close>, \<open>include/common/region.h\<close>, \<open>include/rpc/rpc_common.h\<close>,
    \<open>include/server/region_and_log.h\<close>): inodes, attributes, regions, log keys and values, request and response
    structures; the interface of the store (metakv) and of the log (rocksdb), which are not part of the repository
    and therefore arguments, with their laws as predicates.

  \<^item> \<open>JobQueue\<close> (\<open>include/util/threadsafe_queue.h\<close>): the queue of split jobs, an instance of the locale \<open>fifo\<close>.

  \<^item> \<open>Regions\<close> (\<open>src/server/metafs_server.cc\<close>, \<open>src/server/region_and_log.cc\<close>): the state of a server thread and of its process,
    initial regions, inode numbers, the decision to split, logging.

  \<^item> \<open>Handlers\<close>, \<open>HandlerProps\<close> (\<open>src/server/server_handler.cc\<close>): the handlers of client requests as functions from request,
    response buffer and state to the new state and the list of responses handed to the transport. Creation and
    removal refine an abstract directory; what is created can be found, what is removed cannot.

  \<^item> \<open>Migration\<close>, \<open>MigrationProps\<close> (\<open>src/server/region_and_log.cc\<close>, the \<open>s2s_\<close> handlers): both sides of a migration. The rounds
    that ship the log may go on for ever, so they are a \<open>partial_function\<close> and not returning is \<open>Hang\<close>.

  \<^item> \<open>RpcClient\<close>, \<open>MetaClient\<close> (\<open>src/rpc/rpc_client.cc\<close>, \<open>src/client/metaclient.cc\<close>) and \<open>ClientProps\<close>, \<open>PathProps\<close>,
    \<open>ReaddirProps\<close>: filling request buffers, routing by region, paging through directories, resolving paths with the cache,
    refreshing the region map. Requests are composed with the server's decoding and with its handlers.

  \<^item> \<open>Hooks\<close>, \<open>HookProps\<close> (\<open>src/client/hooks.cc\<close>): every hooked system call, with the user's buffer as raw memory, and the
    dispatcher.

  \<^item> \<open>SystemCalls\<close> and this theory: the parts together, from an intercepted system call through resolution, request,
    transport and handler to the store and back.

  \<^item> \<open>Sync\<close> (\<open>include/util/rwlock.h\<close>): the read-write lock as a step relation over any number of threads; exclusion and the
    absence of lost wakeups.

  \<^item> \<open>CJson\<close>, \<open>CJsonProps\<close> (\<open>src/common/cJSON.cc\<close>): the JSON parser and the functions that read a tree.

  \<^item> \<open>CJsonLinks\<close>, \<open>CJsonChains\<close>, \<open>CJsonOwned\<close> (\<open>src/common/cJSON.cc\<close>): the same items as they lie in memory, with their
    \<open>next\<close>, \<open>prev\<close> and \<open>child\<close> pointers. Appending, detaching, inserting and replacing implement the operations on the list
    of children and leave every other chain alone; deleting frees a tree once and nothing else.

  \<^item> \<open>Config\<close> (\<open>include/util/parser.h\<close>, start-up code in \<open>src/client/hooks.cc\<close>, \<open>src/server/metafs_server.cc\<close>,
    \<open>src/client/preload.cc\<close>, \<open>include/util/memcached_tool.h\<close>): configuration tables and files, identifiers, addresses, the
    filter of hooked processes.

  \<^item> \<open>StartUp\<close> (\<open>include/rpc/rpc_client.h\<close>, \<open>src/client/hooks.cc\<close>, \<open>src/server/metafs_server.cc\<close>): the sessions to every server thread
    and the loop that waits for them, the client's context, the stores and contexts of a server's threads.

  \<^item> \<open>Bitmap\<close> (\<open>include/util/bitmap.h\<close>, \<open>include/common/common.h\<close>): the allocator of numbers, an instance of the locale \<open>id_pool\<close>,
    and arithmetic helpers.

  \<^bold>\<open>How the code is rendered.\<close> A structure is a record, an enumeration a datatype, an integer of fixed width a word. A function that
  can crash returns \<open>crash + 'a\<close>: null pointers, accesses outside an object, failed assertions and uncaught exceptions are
  values, so that their absence is something to prove. A function that changes state takes and returns it. Memory the
  code does not initialise (the padding and unset fields of buffers and attributes) is an argument. Handlers run one at a
  time in their thread, as in the code; what several threads share is the lock, the queue and the region maps.

  \<^bold>\<open>Parameters.\<close> The store, the log, the transport, the hash XXH3, memcached, the kernel and the file system are not in the
  repository. They are arguments of the definitions. What a theorem needs of the store and of the log are the laws
  \<open>name_laws\<close>, \<open>attr_laws\<close>, \<open>scan_laws\<close> and \<open>log_laws\<close> in \<open>Stores\<close>; the stores \<open>ref_kv\<close> and \<open>ref_logdb\<close> there satisfy them, and the
  witnesses use these. What a client needs of a server is the locale \<open>name_server\<close> in \<open>PathProps\<close>.

  \<^bold>\<open>Interfaces.\<close> The locales are \<open>lossy_cache\<close> (\<open>Lru\<close>), \<open>fd_table\<close> (\<open>OpenFiles\<close>), \<open>fifo\<close> (\<open>JobQueue\<close>), \<open>guarded_handler\<close> (\<open>Handlers\<close>),
  \<open>name_server\<close> (\<open>PathProps\<close>), \<open>dirent_format\<close> (\<open>HookProps\<close>), \<open>item_list\<close> (\<open>CJsonChains\<close>) and \<open>id_pool\<close> (\<open>Bitmap\<close>), each interpreted on the definitions
  of the component that provides it.

  \<^bold>\<open>Bounds.\<close> There is no fuel. Loops end by a measure or are \<open>partial_function\<close>s with \<open>None\<close> for not returning. Limits that
  occur in theorems are the code's own: 128-byte names, 92 regions in a response, 3712-byte batches, 256 servers of 256
  threads, 1000 levels of JSON, 24 bytes for an address.

  \<^bold>\<open>Not modelled.\<close> The event loops of eRPC beyond the callbacks they make; CPU affinity; logging; allocation, thread and
  time-stamp wrappers; code under \<open>HOOK_REWRITE\<close>, which is not compiled, and code that is
  commented out; the printing, comparing and minifying functions of the JSON library, which nothing calls, and the storage
  of its strings, whose bytes are values; failing allocations; the test programs.
\<close>

section \<open>Properties of the whole\<close>

text \<open>
  C4: A directory made with the intercepted \<open>mkdir\<close> is found by the intercepted \<open>stat\<close>. For a client attached to a
  server thread, with a cache that agrees with the names stored there, and a path below the mount point whose parent
  exists: where the server answers the creation with success, the call reports success, and \<open>stat\<close> of the same path,
  through resolution, request, handler and response, reports success too and fills the caller's structure with a
  directory inode and the mode that was asked for, with the directory bit.
\<close>

theorem syscall_mkdir_stat:
  assumes "he_client H = one_server_env e"
    and "attached e names attrs db (cl_ctx s)" and "attr_laws (e_kv e) names attrs"
    and "dentry.agrees (truth names db) (cc_dentry_cache (cl_ctx s))"
    and "below_mount (he_mountdir H) cpath" "cpath \<noteq> []" "hd cpath = slash" "real_path (he_mountdir H) cpath = Inr rp"
    and "rp \<noteq> []" "hd rp = slash" "set (components rp) \<subseteq> short_names" "components rp \<noteq> []"
    and "walk (truth names db) 0 (butlast (components rp)) = Some d"
    and "hook_mkdirat H AT_FDCWD cpath mode r s = Inr (hooked, ret, s1)"
    and "resp_type (cc_resp (cl_ctx s1)) = RespType_code kSuccess"
  shows "hooked = 0 \<and> ret = 0 \<and> (\<exists>i s2. is_directory i \<and>
    hook_stat H cpath r' s1 = Inr (0, 0, s2) \<and>
    cl_stat s2 = fill_stat i (stat_of_mode (u_tv (e_uninit e)) (mode OR S_IFDIR)))"
  by (rule mkdir_stat [OF assms])

theorem syscall_mkdir_stat_witness:
  "\<exists>s1 i s2. hook_mkdirat demo_hooks AT_FDCWD [slash, 109, slash, 120] 0x1ed 0 demo_caller = Inr (0, 0, s1) \<and>
     hook_stat demo_hooks [slash, 109, slash, 120] 0 s1 = Inr (0, 0, s2) \<and> us_mode (cl_stat s2) = 0x41ed"
proof -
  obtain s1 where s1: "hook_mkdirat demo_hooks AT_FDCWD [slash, 109, slash, 120] 0x1ed 0 demo_caller = Inr (0, 0, s1)"
     "resp_type (cc_resp (cl_ctx s1)) = RespType_code kSuccess"
    using demo_mkdir_syscall by blast
  have "\<exists>i s2. is_directory i \<and> hook_stat demo_hooks [slash, 109, slash, 120] 0 s1 = Inr (0, 0, s2) \<and>
      cl_stat s2 = fill_stat i (stat_of_mode (u_tv (e_uninit demo_env)) (0x1ed OR S_IFDIR))"
    using syscall_mkdir_stat [OF _ _ _ _ demo_paths(1) _ _ demo_paths(2) _ _ _ _ _ s1, of demo_env ref_names_view ref_attrs_view PathProps.demo_tree 0 0]
      demo_attached_ok demo_agrees demo_paths(3,4) ref_kv_attr_laws
    by (simp add: demo_hooks_def demo_caller_def) (simp add: demo_env_def)
  then show ?thesis using s1(1) by (auto simp: fill_stat_def stat_of_mode_def S_IFDIR_def)
qed



text \<open>
  C29: A creation after a lookup carries part of the old name as its hash. The client never fills in the hash of the
  parent, and in the request that creates a file it lies where a lookup puts the name: after the lookup of a name of at
  least 16 bytes the server reads bytes 8 to 15 of that name as the hash, which no region holds, and hands two
  responses for the one request to the transport.
\<close>

theorem mknod_hash_is_old_name:
  assumes "is_cstr f" "16 \<le> length f" "region_map (fst s) (req_region m) = Some region" "unat (hi (end_key region)) < 2 ^ 56"
    and "fs_dispatch e kFSMknodReq (put_mknod_req p' mode f' (put_fname_req p f m)) pre s = Inr (s', rs)"
  shows "req_hash kFSMknodReq (put_mknod_req p' mode f' (put_fname_req p f m)) = le_word (take 8 (drop 8 f)) \<and>
    length rs = 2"
  using mknod_hash [OF assms(2)] mknod_after_name [OF assms] by simp

theorem mknod_hash_is_old_name_witness:
  "\<exists>s' rs. fs_dispatch demo_env kFSMknodReq (put_mknod_req 0 0 [120] (put_fname_req 0 (replicate 16 97) (\<lambda>_. 0)))
     (\<lambda>_. 0) demo_state = Inr (s', rs) \<and> length rs = 2"
proof -
  obtain s' rs where r: "fs_dispatch demo_env kFSMknodReq (put_mknod_req 0 0 [120] (put_fname_req 0 (replicate 16 97) (\<lambda>_. 0)))
     (\<lambda>_. 0) demo_state = Inr (s', rs)"
    using demo_long_name by blast
  have "is_cstr (replicate 16 97)" by (simp add: is_cstr_def)
  moreover have "region_map (fst demo_state) (req_region (\<lambda>_. 0)) = Some (new_ServerRegion 0 (mk_RegionKey 0 0) (mk_RegionKey 0 1023))"
    by (simp add: demo_state_eq req_region_def)
  moreover have "unat (hi (end_key (new_ServerRegion 0 (mk_RegionKey 0 0) (mk_RegionKey 0 1023)))) < 2 ^ 56"
    by (simp add: new_ServerRegion_def mk_RegionKey_def)
  ultimately show ?thesis using mknod_hash_is_old_name [OF _ _ _ _ r] r by simp
qed

end
